(* ===== verification/Prelude.thy ===== *)
theory Prelude
  imports Main "HOL-Library.Word" "HOL-Library.AList"
begin

text \<open>
  Shared vocabulary of the development: bytes and byte strings, \<open>memcpy\<close> into a
  vector, the four big-endian bytes that \<open>htonl\<close> and \<open>ntohl\<close> put on the wire, and
  the fact collections the component theories add to.
\<close>

unbundle bit_operations_syntax

section \<open>Fact collections\<close>

named_theorems frame_simps \<open>fields that an operation leaves unchanged\<close>
named_theorems preserves \<open>operations that preserve an invariant\<close>

section \<open>Bytes\<close>

type_synonym byte = "8 word"
type_synonym u32 = "32 word"
type_synonym u64 = "64 word"

text \<open>\<open>memcpy_at pos xs buf\<close> is \<open>std::memcpy(&buf[pos], xs, len)\<close>.\<close>

definition memcpy_at :: "nat \<Rightarrow> 'a list \<Rightarrow> 'a list \<Rightarrow> 'a list" where
  "memcpy_at pos xs buf = take pos buf @ xs @ drop (pos + length xs) buf"

lemma memcpy_at_Nil [simp]: "memcpy_at pos [] buf = buf"
  by (simp add: memcpy_at_def)

lemma length_memcpy_at [simp]:
  "pos + length xs \<le> length buf \<Longrightarrow> length (memcpy_at pos xs buf) = length buf"
  by (simp add: memcpy_at_def)

lemma nth_memcpy_at:
  assumes "pos + length xs \<le> length buf" "j < length buf"
  shows "memcpy_at pos xs buf ! j =
    (if pos \<le> j \<and> j < pos + length xs then xs ! (j - pos) else buf ! j)"
  using assms by (auto simp: memcpy_at_def nth_append min_def)

section \<open>Lists\<close>

lemma concat_replicate_comm: "concat (replicate n p) @ p = p @ concat (replicate n p)"
  by (induction n) auto

lemma count_list_distinct: "distinct xs \<Longrightarrow> count_list xs x = (if x \<in> set xs then 1 else 0)"
  by (induction xs) auto

section \<open>Network byte order\<close>

text \<open>
  The memory image of \<open>htonl(x)\<close>, and the value \<open>ntohl\<close> gives for a four byte image.
\<close>

definition htonl_bytes :: "u32 \<Rightarrow> byte list" where
  "htonl_bytes x = [ucast (drop_bit 24 x), ucast (drop_bit 16 x), ucast (drop_bit 8 x), ucast x]"

fun ntohl_bytes :: "byte list \<Rightarrow> u32" where
  "ntohl_bytes [a, b, c, d] =
     push_bit 24 (ucast a) OR push_bit 16 (ucast b) OR push_bit 8 (ucast c) OR ucast d"
| "ntohl_bytes _ = 0"

lemma length_htonl_bytes [simp]: "length (htonl_bytes x) = 4"
  by (simp add: htonl_bytes_def)

lemma ntohl_htonl [simp]: "ntohl_bytes (htonl_bytes x) = x"
proof (rule bit_word_eqI)
  fix n assume "n < LENGTH(32)"
  then consider "n < 8" | "8 \<le> n" "n < 16" | "16 \<le> n" "n < 24" | "24 \<le> n" "n < 32"
    by fastforce
  then show "bit (ntohl_bytes (htonl_bytes x)) n \<longleftrightarrow> bit x n"
    by cases (auto simp: htonl_bytes_def bit_simps)
qed

text \<open>\<open>std::to_string\<close> of a number that is not negative.\<close>

fun to_string :: "nat \<Rightarrow> string" where
  "to_string n = (if n < 10 then [char_of (48 + n)] else to_string (n div 10) @ [char_of (48 + n mod 10)])"

declare to_string.simps [simp del]

end
