(* ===== verification/ByteBuffer.thy ===== *)
theory ByteBuffer
  imports Prelude
begin

text \<open>
  The interface the codecs rely on: a bounded byte queue with an append at the tail and
  \<open>peek\<close>/\<open>consume\<close> at the head. \<open>RingBuffer\<close> provides it for the ring of
  \<open>v4/ringbuffer.h\<close>.
\<close>

locale byte_buffer =
  fixes wf :: "'q \<Rightarrow> bool"
    and contents :: "'q \<Rightarrow> byte list"
    and room :: "'q \<Rightarrow> nat"
    and put :: "byte list \<Rightarrow> 'q \<Rightarrow> 'q"
    and peek :: "nat \<Rightarrow> 'q \<Rightarrow> byte list"
    and consume :: "nat \<Rightarrow> 'q \<Rightarrow> 'q"
    and used :: "'q \<Rightarrow> nat"
  assumes put_contents: "wf q \<Longrightarrow> length d \<le> room q \<Longrightarrow> contents (put d q) = contents q @ d"
    and put_wf: "wf q \<Longrightarrow> length d \<le> room q \<Longrightarrow> wf (put d q)"
    and put_room: "wf q \<Longrightarrow> length d \<le> room q \<Longrightarrow> room (put d q) = room q - length d"
    and peek_contents: "wf q \<Longrightarrow> peek n q = take n (contents q)"
    and consume_contents: "wf q \<Longrightarrow> contents (consume n q) = drop n (contents q)"
    and consume_wf: "wf q \<Longrightarrow> wf (consume n q)"
    and consume_room: "wf q \<Longrightarrow> room (consume n q) = room q + min n (used q)"
    and used_contents: "wf q \<Longrightarrow> used q = length (contents q)"
begin

lemma peek_consume: "wf q \<Longrightarrow> peek n q @ contents (consume n q) = contents q"
  by (simp add: peek_contents consume_contents)

lemma consume_all: "wf q \<Longrightarrow> contents (consume (used q) q) = []"
  by (simp add: consume_contents used_contents)

lemma capacity_const_put:
  "wf q \<Longrightarrow> length d \<le> room q \<Longrightarrow> room (put d q) + used (put d q) = room q + used q"
  by (simp add: put_room used_contents put_wf put_contents)

lemma capacity_const_consume:
  "wf q \<Longrightarrow> room (consume n q) + used (consume n q) = room q + used q"
  by (simp add: consume_room used_contents consume_wf consume_contents)

lemma peek_after_skip:
  "wf q \<Longrightarrow> peek n (consume k q) = take n (drop k (contents q))"
  by (simp add: peek_contents consume_wf consume_contents)

lemma consume_consume:
  "wf q \<Longrightarrow> contents (consume n (consume k q)) = drop (k + n) (contents q)"
  by (simp add: consume_wf consume_contents add.commute)

end

end
