(* ===== verification/RingBuffer.thy ===== *)
theory RingBuffer
  imports ByteBuffer
begin

text \<open>
  The circular byte buffer of \<open>v4/ringbuffer.h\<close>. Positions are offsets into the vector
  \<open>buf_\<close>; a pointer \<open>&buf_[i]\<close> is the offset \<open>i\<close>. The buffer refines a bounded FIFO
  of bytes: \<open>rb_contents\<close> is the abstraction, \<open>rb_wf\<close> the representation invariant.
\<close>

section \<open>State and operations\<close>

record ring_buffer =
  rb_buf :: "byte list"
  read_pos :: nat
  write_pos :: nat
  count :: nat

definition rb_new :: "nat \<Rightarrow> ring_buffer" where
  "rb_new capacity = \<lparr>rb_buf = replicate capacity 0, read_pos = 0, write_pos = 0, count = 0\<rparr>"

definition rb_write :: "byte list \<Rightarrow> ring_buffer \<Rightarrow> nat \<times> ring_buffer" where
  "rb_write data rb =
     (let capacity = length (rb_buf rb);
          free_space = capacity - count rb;
          bytes_to_write = min (length data) free_space;
          first_chunk = min bytes_to_write (capacity - write_pos rb);
          buf1 = memcpy_at (write_pos rb) (take first_chunk data) (rb_buf rb);
          second_chunk = bytes_to_write - first_chunk;
          buf2 = (if second_chunk > 0
                  then memcpy_at 0 (take second_chunk (drop first_chunk data)) buf1
                  else buf1)
      in (bytes_to_write,
          rb\<lparr>rb_buf := buf2,
             write_pos := (write_pos rb + bytes_to_write) mod capacity,
             count := count rb + bytes_to_write\<rparr>))"

record iovec =
  iov_base :: nat
  iov_len :: nat

definition rb_writeable_iovecs :: "ring_buffer \<Rightarrow> iovec list" where
  "rb_writeable_iovecs rb =
     (let capacity = length (rb_buf rb);
          free_space = capacity - count rb
      in if free_space = 0 then []
         else let contiguous_to_end = capacity - write_pos rb;
                  len1 = min free_space contiguous_to_end;
                  iov1 = \<lparr>iov_base = write_pos rb, iov_len = len1\<rparr>
              in if len1 < free_space
                 then [iov1, \<lparr>iov_base = 0, iov_len = free_space - len1\<rparr>]
                 else [iov1])"

definition rb_commit_write :: "nat \<Rightarrow> ring_buffer \<Rightarrow> ring_buffer" where
  "rb_commit_write len rb =
     rb\<lparr>write_pos := (write_pos rb + len) mod length (rb_buf rb), count := count rb + len\<rparr>"

definition rb_peek :: "nat \<Rightarrow> ring_buffer \<Rightarrow> byte list" where
  "rb_peek len rb =
     (let bytes_to_read = min len (count rb);
          capacity = length (rb_buf rb);
          first_chunk = min bytes_to_read (capacity - read_pos rb);
          out1 = take first_chunk (drop (read_pos rb) (rb_buf rb));
          second_chunk = bytes_to_read - first_chunk
      in if second_chunk > 0 then out1 @ take second_chunk (rb_buf rb) else out1)"

definition rb_consume :: "nat \<Rightarrow> ring_buffer \<Rightarrow> ring_buffer" where
  "rb_consume len rb =
     (let to_remove = min len (count rb)
      in rb\<lparr>read_pos := (read_pos rb + to_remove) mod length (rb_buf rb),
            count := count rb - to_remove\<rparr>)"

definition rb_read_ptr :: "ring_buffer \<Rightarrow> nat" where
  "rb_read_ptr rb = read_pos rb"

definition rb_contiguous_read_size :: "ring_buffer \<Rightarrow> nat" where
  "rb_contiguous_read_size rb =
     (if count rb = 0 then 0
      else if write_pos rb > read_pos rb then write_pos rb - read_pos rb
      else length (rb_buf rb) - read_pos rb)"

definition rb_size :: "ring_buffer \<Rightarrow> nat" where
  "rb_size rb = count rb"

definition rb_capacity :: "ring_buffer \<Rightarrow> nat" where
  "rb_capacity rb = length (rb_buf rb)"

definition rb_empty :: "ring_buffer \<Rightarrow> bool" where
  "rb_empty rb \<longleftrightarrow> count rb = 0"

definition rb_full :: "ring_buffer \<Rightarrow> bool" where
  "rb_full rb \<longleftrightarrow> count rb = length (rb_buf rb)"

text \<open>
  \<open>readv\<close> fills the buffers of its vector in order (POSIX): the bytes that arrived are
  scattered over the segments.
\<close>

fun readv_scatter :: "iovec list \<Rightarrow> byte list \<Rightarrow> byte list \<Rightarrow> byte list" where
  "readv_scatter [] data buf = buf"
| "readv_scatter (v # vs) data buf =
     (let k = min (iov_len v) (length data)
      in readv_scatter vs (drop k data) (memcpy_at (iov_base v) (take k data) buf))"

definition rb_readv :: "byte list \<Rightarrow> ring_buffer \<Rightarrow> ring_buffer" where
  "rb_readv data rb =
     rb_commit_write (length data)
       (rb\<lparr>rb_buf := readv_scatter (rb_writeable_iovecs rb) data (rb_buf rb)\<rparr>)"

section \<open>Representation invariant and abstraction\<close>

definition rb_wf :: "ring_buffer \<Rightarrow> bool" where
  "rb_wf rb \<longleftrightarrow>
     0 < length (rb_buf rb) \<and> read_pos rb < length (rb_buf rb) \<and>
     count rb \<le> length (rb_buf rb) \<and>
     write_pos rb = (read_pos rb + count rb) mod length (rb_buf rb)"

definition rb_contents :: "ring_buffer \<Rightarrow> byte list" where
  "rb_contents rb =
     take (count rb) (drop (read_pos rb) (rb_buf rb) @ take (read_pos rb) (rb_buf rb))"


lemma rb_wf_new: "0 < n \<Longrightarrow> rb_wf (rb_new n) \<and> rb_contents (rb_new n) = []"
  by (simp add: rb_wf_def rb_new_def rb_contents_def)

lemma length_rb_contents [simp]: "rb_wf rb \<Longrightarrow> length (rb_contents rb) = count rb"
  by (auto simp: rb_wf_def rb_contents_def)

text \<open>Byte \<open>i\<close> of the contents sits at the ring position \<open>read_pos + i\<close>.\<close>

lemma nth_rb_contents:
  assumes "rb_wf rb" "i < count rb"
  shows "rb_contents rb ! i = rb_buf rb ! ((read_pos rb + i) mod length (rb_buf rb))"
  using assms
  by (auto simp: rb_wf_def rb_contents_def nth_append mod_if[of "_ + _"] min_def
        intro!: arg_cong[where f="(!) (rb_buf rb)"])

section \<open>Writing\<close>

text \<open>
  Both ways of storing bytes, \<open>write\<close> and \<open>readv\<close> into the segments of
  \<open>get_writeable_iovecs\<close>, are one wrapping copy.
\<close>

definition wrap_copy :: "nat \<Rightarrow> byte list \<Rightarrow> byte list \<Rightarrow> byte list" where
  "wrap_copy w d buf =
     (let f = min (length d) (length buf - w)
      in memcpy_at 0 (drop f d) (memcpy_at w (take f d) buf))"

lemma length_wrap_copy [simp]:
  "w < length buf \<Longrightarrow> length d \<le> length buf \<Longrightarrow> length (wrap_copy w d buf) = length buf"
  by (auto simp: wrap_copy_def Let_def min_def)

lemma nth_wrap_copy:
  assumes "w < length buf" "length d \<le> length buf" "j < length buf"
  shows "wrap_copy w d buf ! j =
    (if w \<le> j \<and> j < w + length d then d ! (j - w)
     else if j + length buf < w + length d then d ! (j + length buf - w)
     else buf ! j)"
  using assms
  by (auto simp: wrap_copy_def Let_def nth_memcpy_at min_def add.commute intro!: arg_cong[where f="(!) d"])

text \<open>Positions in a ring of size \<open>n\<close>: offset \<open>i\<close> from \<open>r\<close>, against the write position.\<close>

lemma ring_pos:
  assumes "r < n" "i < (n::nat)"
  shows "(r + i) mod n = (if r + i < n then r + i else r + i - n)"
  using assms by (simp add: mod_if)

lemma wrap_copy_old:
  assumes "r < n" "n = length buf" "c + length d \<le> n" "i < c"
  shows "wrap_copy ((r + c) mod n) d buf ! ((r + i) mod n) = buf ! ((r + i) mod n)"
proof -
  have "0 < n" using assms by linarith
  then have w: "(r + c) mod n < n" and p: "(r + i) mod n < n" by simp_all
  have "\<not> ((r + c) mod n \<le> (r + i) mod n \<and> (r + i) mod n < (r + c) mod n + length d)"
    and "\<not> (r + i) mod n + n < (r + c) mod n + length d"
    using assms by (cases "c = n"; simp add: ring_pos; arith)+
  then show ?thesis using w p assms by (auto simp: nth_wrap_copy)
qed

lemma wrap_copy_new:
  assumes "r < n" "n = length buf" "c + length d \<le> n" "c \<le> i" "i < c + length d"
  shows "wrap_copy ((r + c) mod n) d buf ! ((r + i) mod n) = d ! (i - c)"
proof -
  have c: "c < n" and i: "i < n" using assms by auto
  have "0 < n" using assms by linarith
  then have w: "(r + c) mod n < n" and p: "(r + i) mod n < n" by simp_all
  consider "(r + c) mod n \<le> (r + i) mod n" "(r + i) mod n - (r + c) mod n = i - c"
    | "(r + i) mod n < (r + c) mod n" "(r + i) mod n + n - (r + c) mod n = i - c"
    using assms unfolding ring_pos[OF assms(1) c] ring_pos[OF assms(1) i]
    by (cases "r + c < n"; cases "r + i < n") auto
  then show ?thesis using w p assms by cases (auto simp: nth_wrap_copy)
qed

lemma rb_contents_wrap_copy:
  assumes wf: "rb_wf rb" and fit: "length d \<le> length (rb_buf rb) - count rb"
  shows "rb_contents (rb_commit_write (length d) (rb\<lparr>rb_buf := wrap_copy (write_pos rb) d (rb_buf rb)\<rparr>))
           = rb_contents rb @ d" (is "rb_contents ?r = _")
    and "rb_wf (rb_commit_write (length d) (rb\<lparr>rb_buf := wrap_copy (write_pos rb) d (rb_buf rb)\<rparr>))"
proof -
  let ?n = "length (rb_buf rb)"
  have w: "write_pos rb < ?n" using wf by (simp add: rb_wf_def)
  have len: "length d \<le> ?n" and fit': "count rb + length d \<le> ?n"
    using fit wf unfolding rb_wf_def by linarith+
  show wf': "rb_wf ?r"
    using wf fit w len by (auto simp: rb_wf_def rb_commit_write_def mod_simps add.assoc)
  show "rb_contents ?r = rb_contents rb @ d"
  proof (rule nth_equalityI)
    show "length (rb_contents ?r) = length (rb_contents rb @ d)"
      using wf wf' by (simp add: rb_commit_write_def)
  next
    fix i assume "i < length (rb_contents ?r)"
    then have i: "i < count rb + length d" using wf' by (simp add: rb_commit_write_def)
    then have "rb_contents ?r ! i =
        wrap_copy (write_pos rb) d (rb_buf rb) ! ((read_pos rb + i) mod ?n)"
      using nth_rb_contents[OF wf'] w len by (simp add: rb_commit_write_def)
    also have "\<dots> = (rb_contents rb @ d) ! i"
    proof (cases "i < count rb")
      case True
      then show ?thesis
        using wf fit' nth_rb_contents[OF wf True] wrap_copy_old[of "read_pos rb" ?n "rb_buf rb" "count rb" d i]
        by (simp add: nth_append rb_wf_def)
    next
      case False
      then show ?thesis
        using wf fit' i wrap_copy_new[of "read_pos rb" ?n "rb_buf rb" "count rb" d i]
        by (simp add: nth_append rb_wf_def)
    qed
    finally show "rb_contents ?r ! i = (rb_contents rb @ d) ! i" .
  qed
qed


text \<open>\<open>write\<close> stores as much as fits, in order.\<close>

lemma rb_write_wrap_copy:
  assumes "rb_wf rb"
  shows "rb_write data rb =
    (let d = take (length (rb_buf rb) - count rb) data
     in (length d, rb_commit_write (length d)
           (rb\<lparr>rb_buf := wrap_copy (write_pos rb) d (rb_buf rb)\<rparr>)))"
proof -
  define free where "free = length (rb_buf rb) - count rb"
  define d where "d = take free data"
  define b where "b = min (length data) free"
  define f where "f = min b (length (rb_buf rb) - write_pos rb)"
  have len: "length d = b" by (simp add: d_def b_def)
  have first: "take f data = take f d" by (simp add: d_def f_def b_def)
  have snd_len: "b - f = min (length data - f) (free - f)" by (auto simp: b_def)
  have second: "take (b - f) (drop f data) = drop f d"
    by (simp add: d_def drop_take snd_len) (metis length_drop take_all_iff min.cobounded1 min_def nle_le take_all)
  have "(if 0 < b - f then memcpy_at 0 (drop f d) (memcpy_at (write_pos rb) (take f d) (rb_buf rb))
         else memcpy_at (write_pos rb) (take f d) (rb_buf rb)) = wrap_copy (write_pos rb) d (rb_buf rb)"
    using len by (simp add: wrap_copy_def Let_def f_def)
  moreover have "length (wrap_copy (write_pos rb) d (rb_buf rb)) = length (rb_buf rb)"
    using assms len by (auto simp: rb_wf_def b_def free_def)
  ultimately show ?thesis
    unfolding rb_write_def Let_def free_def[symmetric] b_def[symmetric] f_def[symmetric] first second
      d_def[symmetric] len rb_commit_write_def
    by simp
qed

lemma rb_write_spec:
  assumes "rb_wf rb"
  shows "rb_contents (snd (rb_write data rb)) =
           rb_contents rb @ take (length (rb_buf rb) - count rb) data"
    and "fst (rb_write data rb) = min (length data) (length (rb_buf rb) - count rb)"
    and "rb_wf (snd (rb_write data rb))"
    and "length (rb_buf (snd (rb_write data rb))) = length (rb_buf rb)"
  using assms rb_contents_wrap_copy[OF assms, of "take (length (rb_buf rb) - count rb) data"]
  by (auto simp: rb_write_wrap_copy Let_def rb_commit_write_def rb_wf_def)

text \<open>The segments of \<open>get_writeable_iovecs\<close> are exactly the free space.\<close>

definition iov_total :: "iovec list \<Rightarrow> nat" where
  "iov_total vs = sum_list (map iov_len vs)"

lemma iov_total_writeable:
  "iov_total (rb_writeable_iovecs rb) = length (rb_buf rb) - count rb"
  by (auto simp: iov_total_def rb_writeable_iovecs_def Let_def)

lemma rb_writeable_Nil: "rb_wf rb \<Longrightarrow> rb_writeable_iovecs rb = [] \<longleftrightarrow> rb_full rb"
  by (auto simp: rb_writeable_iovecs_def Let_def rb_wf_def rb_full_def)

lemma readv_scatter_writeable:
  assumes "length d \<le> length (rb_buf rb) - count rb"
  shows "readv_scatter (rb_writeable_iovecs rb) d (rb_buf rb) = wrap_copy (write_pos rb) d (rb_buf rb)"
proof -
  define free where "free = length (rb_buf rb) - count rb"
  define room where "room = length (rb_buf rb) - write_pos rb"
  define f where "f = min (length d) room"
  have fit: "length d \<le> free" using assms by (simp add: free_def)
  have k1: "min (min free room) (length d) = f" using fit by (auto simp: f_def)
  show ?thesis
  proof (cases "min free room < free")
    case True
    then have nz: "\<not> length (rb_buf rb) \<le> count rb" by (auto simp: free_def)
    have "min (free - min free room) (length d - f) = length d - f" using fit True by (auto simp: f_def)
    with True k1 nz show ?thesis
      by (simp add: rb_writeable_iovecs_def Let_def free_def[symmetric] room_def[symmetric]
          wrap_copy_def f_def[symmetric])
  next
    case False
    then have "length d \<le> f" using fit by (auto simp: f_def)
    moreover have "length (rb_buf rb) \<le> count rb \<Longrightarrow> d = []" using fit by (simp add: free_def)
    ultimately show ?thesis using False k1 fit
      by (auto simp: rb_writeable_iovecs_def Let_def free_def[symmetric] room_def[symmetric]
          wrap_copy_def f_def[symmetric])
  qed
qed

lemma rb_readv_spec:
  assumes "rb_wf rb" "length d \<le> length (rb_buf rb) - count rb"
  shows "rb_contents (rb_readv d rb) = rb_contents rb @ d"
    and "rb_wf (rb_readv d rb)"
    and "length (rb_buf (rb_readv d rb)) = length (rb_buf rb)"
    and "count (rb_readv d rb) = count rb + length d"
  using assms rb_contents_wrap_copy[OF assms]
  by (simp_all add: rb_readv_def readv_scatter_writeable)
    (simp_all add: rb_commit_write_def rb_wf_def)

section \<open>Reading\<close>

lemma rb_peek_spec:
  assumes "rb_wf rb"
  shows "rb_peek len rb = take len (rb_contents rb)"
proof -
  define n r b f where "n = length (rb_buf rb)" "r = read_pos rb"
    "b = min len (count rb)" "f = min b (n - r)"
  note defs = this
  have r: "r < n" and b: "b \<le> n" using assms by (auto simp: defs rb_wf_def)
  have "take len (rb_contents rb) = take b (drop r (rb_buf rb)) @ take (b - (n - r)) (take r (rb_buf rb))"
    by (simp add: rb_contents_def defs, rule arg_cong[where f="\<lambda>k. take k (rb_buf rb)"],
        auto simp: min_def)
  moreover have "take b (drop r (rb_buf rb)) = take f (drop r (rb_buf rb))"
    by (cases "b \<le> n - r") (simp_all add: defs(1,4))
  moreover have "b - (n - r) = b - f" "min (b - f) r = b - f"
    using r b by (auto simp: defs(4))
  ultimately show ?thesis
    by (simp add: rb_peek_def Let_def defs[symmetric])
qed

lemma rb_consume_spec:
  assumes "rb_wf rb"
  shows "rb_contents (rb_consume len rb) = drop len (rb_contents rb)"
    and "rb_wf (rb_consume len rb)"
    and "rb_buf (rb_consume len rb) = rb_buf rb"
    and "count (rb_consume len rb) = count rb - len"
proof -
  let ?k = "min len (count rb)" and ?n = "length (rb_buf rb)"
  have ring: "((read_pos rb + ?k) mod ?n + i) mod ?n = (read_pos rb + (?k + i)) mod ?n" for i
    by (simp only: mod_add_left_eq add.assoc)
  have upd: "rb_consume len rb =
      rb\<lparr>read_pos := (read_pos rb + ?k) mod ?n, count := count rb - ?k\<rparr>"
    by (simp add: rb_consume_def Let_def)
  show wf': "rb_wf (rb_consume len rb)"
    using assms ring[of "count rb - ?k"] by (auto simp: upd rb_wf_def)
  show cnt: "count (rb_consume len rb) = count rb - len"
    and buf: "rb_buf (rb_consume len rb) = rb_buf rb"
    by (auto simp: upd)
  show "rb_contents (rb_consume len rb) = drop len (rb_contents rb)"
  proof (rule nth_equalityI)
    show "length (rb_contents (rb_consume len rb)) = length (drop len (rb_contents rb))"
      using assms wf' cnt by simp
  next
    fix i assume "i < length (rb_contents (rb_consume len rb))"
    then have i: "i < count rb - len" using wf' cnt by simp
    then have "?k = len" by simp
    then have "(read_pos (rb_consume len rb) + i) mod ?n = (read_pos rb + (len + i)) mod ?n"
      using ring[of i] by (simp add: upd)
    then show "rb_contents (rb_consume len rb) ! i = drop len (rb_contents rb) ! i"
      using i assms nth_rb_contents[OF wf', of i] nth_rb_contents[OF assms, of "len + i"]
      by (simp add: cnt buf)
  qed
qed

lemma rb_full_contents: "rb_wf rb \<Longrightarrow> rb_full rb \<longleftrightarrow> length (rb_contents rb) = rb_capacity rb"
  by (simp add: rb_full_def rb_capacity_def)

lemma rb_size_contents: "rb_wf rb \<Longrightarrow> rb_size rb = length (rb_contents rb)"
  by (simp add: rb_size_def)

lemma rb_empty_contents: "rb_wf rb \<Longrightarrow> rb_empty rb \<longleftrightarrow> rb_contents rb = []"
  by (metis length_0_conv length_rb_contents rb_empty_def)

text \<open>
  The contiguous block at the read pointer is the longest prefix of the contents that does
  not wrap.
\<close>

lemma rb_contiguous_spec:
  assumes "rb_wf rb"
  shows "rb_contiguous_read_size rb = min (count rb) (length (rb_buf rb) - read_pos rb)"
    and "take (rb_contiguous_read_size rb) (drop (rb_read_ptr rb) (rb_buf rb)) =
         take (rb_contiguous_read_size rb) (rb_contents rb)"
proof -
  show eq: "rb_contiguous_read_size rb = min (count rb) (length (rb_buf rb) - read_pos rb)"
    using assms by (auto simp: rb_contiguous_read_size_def rb_wf_def mod_if[of "_ + _"])
  show "take (rb_contiguous_read_size rb) (drop (rb_read_ptr rb) (rb_buf rb)) =
         take (rb_contiguous_read_size rb) (rb_contents rb)"
    unfolding eq by (simp add: rb_contents_def rb_read_ptr_def min_def)
qed

section \<open>The ring buffer is a bounded byte queue\<close>

definition rb_room :: "ring_buffer \<Rightarrow> nat" where
  "rb_room rb = length (rb_buf rb) - count rb"

interpretation ring: byte_buffer rb_wf rb_contents rb_room rb_readv rb_peek rb_consume rb_size
proof
  fix q :: ring_buffer and d :: "byte list" and n :: nat
  assume wf: "rb_wf q"
  then have le: "count q \<le> length (rb_buf q)" by (simp add: rb_wf_def)
  show "rb_peek n q = take n (rb_contents q)" using wf by (rule rb_peek_spec)
  show "rb_contents (rb_consume n q) = drop n (rb_contents q)" "rb_wf (rb_consume n q)"
    using wf by (rule rb_consume_spec)+
  show "rb_room (rb_consume n q) = rb_room q + min n (rb_size q)"
    using wf le by (simp add: rb_room_def rb_size_def rb_consume_spec min_def)
  show "rb_size q = length (rb_contents q)" using wf by (rule rb_size_contents)
  assume "length d \<le> rb_room q"
  then have fit: "length d \<le> length (rb_buf q) - count q" by (simp add: rb_room_def)
  show "rb_contents (rb_readv d q) = rb_contents q @ d" "rb_wf (rb_readv d q)"
    using wf fit by (rule rb_readv_spec)+
  show "rb_room (rb_readv d q) = rb_room q - length d"
    using wf fit by (simp add: rb_room_def rb_readv_spec)
qed

lemma rb_room_eq_0: "rb_wf rb \<Longrightarrow> rb_room rb = 0 \<longleftrightarrow> rb_full rb"
  by (auto simp: rb_room_def rb_full_def rb_wf_def)

lemma rb_capacity_consume [simp]: "rb_capacity (rb_consume n rb) = rb_capacity rb"
  by (simp add: rb_capacity_def rb_consume_def Let_def)

lemma rb_capacity_readv: "rb_wf rb \<Longrightarrow> length d \<le> rb_room rb \<Longrightarrow> rb_capacity (rb_readv d rb) = rb_capacity rb"
  by (simp add: rb_capacity_def rb_room_def rb_readv_spec)

lemma rb_room_capacity: "rb_wf rb \<Longrightarrow> rb_room rb + length (rb_contents rb) = rb_capacity rb"
  by (simp add: rb_room_def rb_capacity_def rb_wf_def)

section \<open>Properties\<close>

text \<open>Writing to a well-formed ring appends the part of the data that fits after the bytes
  already stored, across the wrap-around, returns how much that was, and keeps the ring
  well formed and its capacity unchanged.\<close>

theorem ring_write_appends:
  assumes "rb_wf rb" "rb_write data rb = (n, rb')"
  shows "n = min (length data) (rb_room rb) \<and> rb_contents rb' = rb_contents rb @ take n data \<and>
    rb_wf rb' \<and> rb_capacity rb' = rb_capacity rb \<and> rb_room rb' = rb_room rb - n"
proof -
  note spec = rb_write_spec[OF assms(1), of data, unfolded assms(2), simplified]
  have "count rb' = count rb + n" using assms(2) by (auto simp: rb_write_def Let_def)
  moreover have "take (length (rb_buf rb) - count rb) data = take n data"
    using spec(2) by (simp add: min_def)
  ultimately show ?thesis using spec assms(1) by (simp add: rb_capacity_def rb_room_def)
qed

theorem ring_write_appends_witness:
  "\<exists>rb'. rb_write [5, 6, 7] \<lparr>rb_buf = [1, 2, 3, 4], read_pos = 2, write_pos = 0, count = 2\<rparr> = (2, rb') \<and>
     rb_contents rb' = [3, 4, 5, 6]"
proof -
  let ?rb = "\<lparr>rb_buf = [1, 2, 3, 4], read_pos = 2, write_pos = 0, count = 2\<rparr>"
  have wf: "rb_wf ?rb" by (simp add: rb_wf_def)
  obtain n rb' where w: "rb_write [5, 6, 7] ?rb = (n, rb')" by force
  have "n = 2" using ring_write_appends[OF wf w] by (simp add: rb_room_def)
  with ring_write_appends[OF wf w] w show ?thesis by (auto simp: rb_contents_def)
qed

text \<open>A scatter read into the free segments of a well-formed ring appends exactly the bytes
  that arrived; the segments offered are at most two and together as long as the free room.\<close>

theorem ring_readv_appends:
  assumes "rb_wf rb" "length got \<le> iov_total (rb_writeable_iovecs rb)"
  shows "rb_contents (rb_readv got rb) = rb_contents rb @ got \<and> rb_wf (rb_readv got rb) \<and>
    iov_total (rb_writeable_iovecs rb) = rb_capacity rb - rb_size rb \<and>
    length (rb_writeable_iovecs rb) \<le> 2"
proof -
  have "length (rb_writeable_iovecs rb) \<le> 2" by (simp add: rb_writeable_iovecs_def Let_def)
  then show ?thesis using assms rb_readv_spec[OF assms(1)]
    by (simp add: iov_total_writeable rb_capacity_def rb_size_def)
qed

theorem ring_readv_appends_witness:
  "rb_contents (rb_readv [7, 8, 9] \<lparr>rb_buf = [0, 0, 5, 0], read_pos = 2, write_pos = 3, count = 1\<rparr>) = [5, 7, 8, 9]"
proof -
  let ?rb = "\<lparr>rb_buf = [0, 0, 5, 0], read_pos = 2, write_pos = 3, count = 1\<rparr>"
  have "rb_wf ?rb" "length [7, 8, 9 :: byte] \<le> iov_total (rb_writeable_iovecs ?rb)"
    by (simp_all add: rb_wf_def iov_total_writeable)
  from ring_readv_appends[OF this] show ?thesis by (simp add: rb_contents_def)
qed

text \<open>Peeking shows a prefix of the stored bytes without taking them, consuming drops that
  prefix, so the peeked bytes followed by what is left are the bytes that were stored; and the
  contiguous block at the read pointer is a prefix of them too.\<close>

theorem ring_peek_consume:
  assumes "rb_wf rb"
  shows "rb_peek n rb = take n (rb_contents rb) \<and> rb_peek n rb @ rb_contents (rb_consume n rb) = rb_contents rb \<and>
    rb_wf (rb_consume n rb) \<and> rb_size (rb_consume n rb) = rb_size rb - n \<and>
    take (rb_contiguous_read_size rb) (drop (rb_read_ptr rb) (rb_buf rb)) =
      take (rb_contiguous_read_size rb) (rb_contents rb)"
  using rb_peek_spec[OF assms] rb_consume_spec[OF assms, of n] rb_contiguous_spec[OF assms] ring.peek_consume[OF assms]
  by (simp add: rb_size_def)

theorem ring_peek_consume_witness:
  "rb_peek 2 \<lparr>rb_buf = [2, 3, 0, 1], read_pos = 3, write_pos = 2, count = 3\<rparr> = [1, 2] \<and>
   rb_contents (rb_consume 2 \<lparr>rb_buf = [2, 3, 0, 1], read_pos = 3, write_pos = 2, count = 3\<rparr>) = [3]"
proof -
  let ?rb = "\<lparr>rb_buf = [2, 3, 0, 1], read_pos = 3, write_pos = 2, count = 3\<rparr>"
  have "rb_wf ?rb" by (simp add: rb_wf_def)
  moreover have c: "rb_contents ?rb = [1, 2, 3]" by (simp add: rb_contents_def)
  ultimately show ?thesis using ring_peek_consume[of ?rb 2] by (metis Cons_eq_appendI append_Nil same_append_eq take0 take_Suc_Cons numeral_2_eq_2)
qed

end
