(* ===== verification/Framing.thy ===== *)
theory Framing
  imports Prelude
begin

text \<open>
  Message framing over a byte stream, independently of the codec: a decoder splits the
  first frame off a buffer or reports that it is not there yet. TCP delivers the stream in
  arbitrary chunks; \<open>feed\<close> is the loop every receiver of the repository runs (append what
  arrived, take out all complete frames). The locale states what a codec promises, and
  the lemmas in it say that a receiver recovers exactly the messages sent.
\<close>

type_synonym ('m, 'b) deframer = "'b list \<Rightarrow> ('m \<times> 'b list) option"

fun drain_frames :: "nat \<Rightarrow> ('m, 'b) deframer \<Rightarrow> 'b list \<Rightarrow> 'm list \<times> 'b list" where
  "drain_frames 0 dec buf = ([], buf)"
| "drain_frames (Suc fuel) dec buf =
     (case dec buf of
        None \<Rightarrow> ([], buf)
      | Some (m, rest) \<Rightarrow> (let (ms, rest') = drain_frames fuel dec rest in (m # ms, rest')))"

fun feed :: "('m, 'b) deframer \<Rightarrow> 'b list \<Rightarrow> 'b list list \<Rightarrow> 'm list \<times> 'b list" where
  "feed dec buf [] = ([], buf)"
| "feed dec buf (c # cs) =
     (let (ms, buf') = drain_frames (length (buf @ c)) dec (buf @ c);
          (ms', buf'') = feed dec buf' cs
      in (ms @ ms', buf''))"

locale framing =
  fixes enc :: "'m \<Rightarrow> 'b list"
    and dec :: "('m, 'b) deframer"
    and ok :: "'m \<Rightarrow> bool"
  assumes dec_enc: "ok m \<Longrightarrow> dec (enc m @ rest) = Some (m, rest)"
    and dec_partial: "ok m \<Longrightarrow> enc m = xs @ ys \<Longrightarrow> ys \<noteq> [] \<Longrightarrow> dec xs = None"
    and dec_shrinks: "dec xs = Some (m, rest) \<Longrightarrow> length rest < length xs"
    and dec_Nil: "dec [] = None"
begin

lemma enc_nonempty: "ok m \<Longrightarrow> enc m \<noteq> []"
  using dec_enc[of m "[]"] dec_shrinks[of "enc m @ []" m "[]"] by auto

lemma length_encs: "list_all ok ms \<Longrightarrow> length ms \<le> length (concat (map enc ms))"
proof (induction ms)
  case (Cons m ms)
  then have "enc m \<noteq> []" using enc_nonempty by simp
  with Cons show ?case by (cases "enc m") auto
qed simp

text \<open>Draining whole frames followed by an incomplete one.\<close>

lemma drain_encs:
  assumes "list_all ok ms" "dec rest = None" "length ms \<le> fuel"
  shows "drain_frames fuel dec (concat (map enc ms) @ rest) = (ms, rest)"
  using assms
proof (induction ms arbitrary: fuel)
  case Nil
  then show ?case by (cases fuel) simp_all
next
  case (Cons m ms)
  then obtain f where f: "fuel = Suc f" "length ms \<le> f" by (cases fuel) auto
  with Cons show ?case by (simp add: dec_enc)
qed

text \<open>
  A prefix of an encoded sequence is some whole frames and an incomplete one.
\<close>

lemma prefix_encs:
  assumes "list_all ok ms" "concat (map enc ms) = xs @ ys"
  shows "\<exists>got todo part. ms = got @ todo \<and> xs = concat (map enc got) @ part \<and>
    dec part = None \<and> part @ ys = concat (map enc todo)"
  using assms
proof (induction ms arbitrary: xs)
  case Nil
  then show ?case by (simp add: dec_Nil)
next
  case (Cons m ms)
  from Cons.prems(2) have split: "enc m @ concat (map enc ms) = xs @ ys" by simp
  show ?case
  proof (cases "length (enc m) \<le> length xs")
    case True
    with split obtain xs' where xs: "xs = enc m @ xs'" "concat (map enc ms) = xs' @ ys"
      by (auto simp: append_eq_append_conv2)
    with Cons obtain got todo part where
      "ms = got @ todo" "xs' = concat (map enc got) @ part" "dec part = None"
      "part @ ys = concat (map enc todo)" using Cons.IH[of xs'] Cons.prems(1) by auto
    then have "m # ms = (m # got) @ todo \<and> xs = concat (map enc (m # got)) @ part \<and>
      dec part = None \<and> part @ ys = concat (map enc todo)" using xs by simp
    then show ?thesis by blast
  next
    case False
    with split obtain zs where zs: "enc m = xs @ zs" "zs \<noteq> []"
      by (auto simp: append_eq_append_conv2)
    then have "dec xs = None" using Cons.prems(1) dec_partial[OF _ zs] by simp
    then have "m # ms = [] @ (m # ms) \<and> xs = concat (map enc []) @ xs \<and> dec xs = None \<and>
      xs @ ys = concat (map enc (m # ms))" using Cons.prems(2) by simp
    then show ?thesis by blast
  qed
qed

text \<open>
  Whatever the chunks, the receiver gets the messages in order, each once, and nothing is
  left over.
\<close>

lemma feed_chunks:
  assumes "list_all ok ms" "buf @ concat cs = concat (map enc ms)" "dec buf = None"
  shows "feed dec buf cs = (ms, [])"
  using assms
proof (induction cs arbitrary: ms buf)
  case Nil
  have "ms = []"
  proof (cases ms)
    case (Cons m ms')
    then show ?thesis using Nil dec_enc[of m "concat (map enc ms')"] by simp
  qed simp
  with Nil show ?case by simp
next
  case (Cons c cs)
  from Cons.prems(2) have "concat (map enc ms) = (buf @ c) @ concat cs" by simp
  from prefix_encs[OF Cons.prems(1) this] obtain got todo part where
    d: "ms = got @ todo" "buf @ c = concat (map enc got) @ part" "dec part = None"
      "part @ concat cs = concat (map enc todo)" by blast
  have "length got \<le> length (buf @ c)"
    using Cons.prems(1) d length_encs[of got] by auto
  then have "drain_frames (length (buf @ c)) dec (buf @ c) = (got, part)"
    using Cons.prems(1) d drain_encs[of got part "length (buf @ c)"] by auto
  moreover have "feed dec part cs = (todo, [])"
    using Cons.IH[of todo part] Cons.prems(1) d by simp
  ultimately show ?case using d by simp
qed

end

end
