(* ===== verification/Codec.thy ===== *)
theory Codec
  imports RingBuffer Framing
begin

text \<open>
  \<open>v4/codec.h\<close>. \<open>PacketCodec::decode\<close> takes one length-prefixed packet off the ring
  buffer; \<open>ProtobufCodec\<close> wraps a serialised message into such a packet. The protobuf
  library is generated code, so \<open>ser\<close> (\<open>SerializeToString\<close>) and \<open>par\<close>
  (\<open>ParseFromArray\<close>) are parameters. Lengths are 32 bit words, as in the code.
\<close>

section \<open>PacketCodec\<close>

definition MAX_PACKET :: u32 where
  "MAX_PACKET = 10 * 1024 * 1024"

definition packet_decode :: "ring_buffer \<Rightarrow> byte list option \<times> ring_buffer" where
  "packet_decode buf =
     (if rb_size buf < 4 then (None, buf)
      else let header = rb_peek 4 buf;
               len = ntohl_bytes header
           in if len > MAX_PACKET then (None, rb_consume (rb_size buf) buf)
              else if rb_size buf < unat (4 + len) then (None, buf)
              else let buf1 = rb_consume 4 buf;
                       payload = memcpy_at 0 (rb_peek (unat len) buf1) (replicate (unat len) 0);
                       buf2 = rb_consume (unat len) buf1
                   in (Some payload, buf2))"

section \<open>ProtobufCodec\<close>

definition pb_encode :: "('a \<Rightarrow> byte list) \<Rightarrow> 'a \<Rightarrow> byte list" where
  "pb_encode ser msg =
     (let payload = ser msg;
          len = htonl_bytes (word_of_nat (length payload));
          packet = replicate (4 + length payload) 0
      in memcpy_at 4 payload (memcpy_at 0 len packet))"

definition pb_decode_data :: "(byte list \<Rightarrow> 'a option) \<Rightarrow> byte list \<Rightarrow> 'a option" where
  "pb_decode_data par data = (case par data of None \<Rightarrow> None | Some msg \<Rightarrow> Some msg)"

definition pb_decode :: "(byte list \<Rightarrow> 'a option) \<Rightarrow> ring_buffer \<Rightarrow> 'a option \<times> ring_buffer" where
  "pb_decode par buf =
     (case packet_decode buf of
        (None, buf') \<Rightarrow> (None, buf')
      | (Some payload, buf') \<Rightarrow> (pb_decode_data par payload, buf'))"

section \<open>What the codec does to the bytes\<close>

text \<open>The specification on byte strings: one packet off the front of a stream.\<close>

datatype deframe = Incomplete | Oversized | Frame "byte list" "byte list"

definition parse_frame :: "byte list \<Rightarrow> deframe" where
  "parse_frame bs =
     (if length bs < 4 then Incomplete
      else let len = unat (ntohl_bytes (take 4 bs))
           in if len > 10485760 then Oversized
              else if length bs < 4 + len then Incomplete
              else Frame (take len (drop 4 bs)) (drop (4 + len) bs))"

definition frame :: "byte list \<Rightarrow> byte list" where
  "frame payload = htonl_bytes (word_of_nat (length payload)) @ payload"

definition packet_ok :: "byte list \<Rightarrow> bool" where
  "packet_ok payload \<longleftrightarrow> length payload \<le> 10485760"

lemma pb_encode_frame: "pb_encode ser msg = frame (ser msg)"
  by (simp add: pb_encode_def frame_def memcpy_at_def Let_def)

lemma unat_MAX_PACKET [simp]: "unat MAX_PACKET = 10485760"
  by (simp add: MAX_PACKET_def)

text \<open>The addition \<open>4 + len\<close> is at 32 bits and cannot wrap, because the limit is checked first.\<close>

lemma unat_header_plus_len:
  assumes "\<not> len > MAX_PACKET"
  shows "unat (4 + len) = 4 + unat len"
proof -
  have "unat len \<le> 10485760" using assms by (simp add: word_less_nat_alt not_less)
  then have "unat (4::u32) + unat len < 2 ^ LENGTH(32)" by simp
  then show ?thesis using unat_add_lem[of "4::u32" len] by simp
qed

theorem packet_decode_spec:
  assumes "rb_wf buf"
  shows "case parse_frame (rb_contents buf) of
      Incomplete \<Rightarrow> packet_decode buf = (None, buf)
    | Oversized \<Rightarrow> fst (packet_decode buf) = None \<and> rb_contents (snd (packet_decode buf)) = []
    | Frame m rest \<Rightarrow> fst (packet_decode buf) = Some m \<and> rb_contents (snd (packet_decode buf)) = rest"
proof -
  let ?len = "ntohl_bytes (take 4 (rb_contents buf))"
  have hd: "rb_peek 4 buf = take 4 (rb_contents buf)" using assms by (rule ring.peek_contents)
  have sz: "rb_size buf = length (rb_contents buf)" using assms by (rule ring.used_contents)
  have big: "?len > MAX_PACKET \<longleftrightarrow> unat ?len > 10485760" by (simp add: word_less_nat_alt)
  show ?thesis
  proof (cases "length (rb_contents buf) < 4 \<or> ?len > MAX_PACKET")
    case True
    then show ?thesis
      using assms by (auto simp: parse_frame_def packet_decode_def Let_def hd sz big ring.consume_contents)
  next
    case False
    then have "\<not> ?len > MAX_PACKET" by simp
    note nowrap = unat_header_plus_len[OF this]
    have cont: "rb_contents (rb_consume (unat ?len) (rb_consume 4 buf)) = drop (4 + unat ?len) (rb_contents buf)"
      using assms by (rule ring.consume_consume)
    have body: "rb_peek (unat ?len) (rb_consume 4 buf) = take (unat ?len) (drop 4 (rb_contents buf))"
      using assms by (rule ring.peek_after_skip)
    show ?thesis
      using False big nowrap cont body
      by (auto simp: parse_frame_def packet_decode_def Let_def hd sz memcpy_at_def)
  qed
qed

lemma packet_decode_wf [preserves]:
  assumes "rb_wf buf"
  shows "rb_wf (snd (packet_decode buf))"
  using assms by (auto simp: packet_decode_def Let_def ring.consume_wf)

lemma packet_decode_capacity [frame_simps]:
  "rb_capacity (snd (packet_decode buf)) = rb_capacity buf"
  by (simp add: packet_decode_def Let_def)

section \<open>Framing laws\<close>

definition packet_split :: "(byte list, byte) deframer" where
  "packet_split bs = (case parse_frame bs of Frame m rest \<Rightarrow> Some (m, rest) | _ \<Rightarrow> None)"

lemma unat_word_of_len: "packet_ok m \<Longrightarrow> unat (word_of_nat (length m) :: u32) = length m"
  by (simp add: packet_ok_def unat_of_nat take_bit_nat_eq_self)

lemma parse_frame_frame: "packet_ok m \<Longrightarrow> parse_frame (frame m @ rest) = Frame m rest"
  by (simp add: parse_frame_def frame_def unat_word_of_len Let_def) (simp add: packet_ok_def)

lemma parse_frame_partial:
  assumes "packet_ok m" "frame m = xs @ ys" "ys \<noteq> []"
  shows "parse_frame xs = Incomplete"
proof (cases "length xs < 4")
  case False
  have "length (frame m) = 4 + length m" by (simp add: frame_def)
  then have short: "length xs < 4 + length m" using assms(2,3) by (cases ys) auto
  have "take 4 xs = take 4 (xs @ ys)" using False by simp
  also have "\<dots> = htonl_bytes (word_of_nat (length m))"
    using assms(2)[symmetric] by (simp add: frame_def)
  finally show ?thesis
    using short assms(1) False by (simp add: parse_frame_def unat_word_of_len Let_def packet_ok_def)
qed (simp add: parse_frame_def)

interpretation packet: framing frame packet_split packet_ok
proof
  fix m rest xs ys :: "byte list"
  show "packet_ok m \<Longrightarrow> packet_split (frame m @ rest) = Some (m, rest)"
    by (simp add: packet_split_def parse_frame_frame)
  show "packet_ok m \<Longrightarrow> frame m = xs @ ys \<Longrightarrow> ys \<noteq> [] \<Longrightarrow> packet_split xs = None"
    by (simp add: packet_split_def parse_frame_partial)
  show "packet_split xs = Some (m, rest) \<Longrightarrow> length rest < length xs"
    by (auto simp: packet_split_def parse_frame_def Let_def split: if_splits)
  show "packet_split [] = None"
    by (simp add: packet_split_def parse_frame_def)
qed

section \<open>The receive loop\<close>

text \<open>
  The inner loop of \<open>WebServer::handle_read\<close>: decode until the codec has no message. It
  ends because every message takes its header off the buffer.
\<close>

lemma packet_decode_shrinks:
  "packet_decode buf = (Some m, buf') \<Longrightarrow> count buf' < count buf"
  by (auto simp: packet_decode_def Let_def rb_consume_def rb_size_def split: if_splits)

function packet_drain :: "ring_buffer \<Rightarrow> byte list list \<times> ring_buffer" where
  "packet_drain buf =
     (case packet_decode buf of
        (None, buf') \<Rightarrow> ([], buf')
      | (Some m, buf') \<Rightarrow> (let (ms, buf'') = packet_drain buf' in (m # ms, buf'')))"
  by pat_completeness auto
termination
  by (relation "measure count") (auto dest: packet_decode_shrinks[OF sym])

declare packet_drain.simps [simp del]

text \<open>The same loop on the bytes. An oversized header throws the whole buffer away.\<close>

lemma parse_frame_shrinks: "parse_frame bs = Frame m rest \<Longrightarrow> length rest < length bs"
  by (auto simp: parse_frame_def Let_def split: if_splits)

function parse_frames :: "byte list \<Rightarrow> byte list list \<times> byte list" where
  "parse_frames bs =
     (case parse_frame bs of
        Incomplete \<Rightarrow> ([], bs)
      | Oversized \<Rightarrow> ([], [])
      | Frame m rest \<Rightarrow> (let (ms, rest') = parse_frames rest in (m # ms, rest')))"
  by pat_completeness auto
termination
  by (relation "measure length") (auto dest: parse_frame_shrinks)

declare parse_frames.simps [simp del]

lemma packet_drain_spec:
  assumes "rb_wf buf"
  shows "fst (packet_drain buf) = fst (parse_frames (rb_contents buf))"
    and "rb_contents (snd (packet_drain buf)) = snd (parse_frames (rb_contents buf))"
    and "rb_wf (snd (packet_drain buf))"
    and "rb_capacity (snd (packet_drain buf)) = rb_capacity buf"
proof -
  have "fst (packet_drain buf) = fst (parse_frames (rb_contents buf)) \<and>
    rb_contents (snd (packet_drain buf)) = snd (parse_frames (rb_contents buf)) \<and>
    rb_wf (snd (packet_drain buf)) \<and> rb_capacity (snd (packet_drain buf)) = rb_capacity buf"
    using assms
  proof (induction buf rule: packet_drain.induct)
    case (1 buf)
    note spec = packet_decode_spec[OF "1.prems"] packet_decode_wf[OF "1.prems"]
      packet_decode_capacity[of buf]
    obtain r buf' where d: "packet_decode buf = (r, buf')" by force
    show ?case
    proof (cases r)
      case None
      with d spec "1.prems" show ?thesis
        by (auto simp: packet_drain.simps[of buf] parse_frames.simps[of "rb_contents buf"]
            split: deframe.splits)
    next
      case (Some m)
      with d spec obtain rest where f: "parse_frame (rb_contents buf) = Frame m rest"
        "rb_contents buf' = rest" "rb_wf buf'" "rb_capacity buf' = rb_capacity buf"
        by (auto split: deframe.splits)
      with "1.IH" d Some show ?thesis
        by (auto simp: packet_drain.simps[of buf] parse_frames.simps[of "rb_contents buf"]
            split: prod.splits)
    qed
  qed
  then show "fst (packet_drain buf) = fst (parse_frames (rb_contents buf))"
    and "rb_contents (snd (packet_drain buf)) = snd (parse_frames (rb_contents buf))"
    and "rb_wf (snd (packet_drain buf))"
    and "rb_capacity (snd (packet_drain buf)) = rb_capacity buf" by simp_all
qed

lemma parse_frames_frames:
  assumes "list_all packet_ok ms" "parse_frame part = Incomplete"
  shows "parse_frames (concat (map frame ms) @ part) = (ms, part)"
  using assms
  by (induction ms) (simp_all add: parse_frames.simps[of "_ @ _"] parse_frames.simps[of part] parse_frame_frame)

text \<open>What is left after the loop is never a complete packet.\<close>

lemma parse_frames_rest: "parse_frame (snd (parse_frames bs)) = Incomplete"
proof (induction bs rule: parse_frames.induct)
  case (1 bs)
  then show ?case
    by (cases "parse_frame bs") (auto simp: parse_frames.simps[of bs] parse_frame_def[of "[]"] split: prod.splits)
qed

lemma parse_frames_drain:
  assumes "drain_frames n packet_split bs = (ms, rest)" "length bs \<le> n" "parse_frame rest = Incomplete"
  shows "parse_frames bs = (ms, rest)"
  using assms
proof (induction n arbitrary: bs ms)
  case 0
  then show ?case by (simp add: parse_frames.simps[of "[]"] parse_frame_def)
next
  case (Suc n)
  show ?case
  proof (cases "parse_frame bs")
    case (Frame m r)
    then have "length r \<le> n" using parse_frame_shrinks Suc.prems(2) by fastforce
    with Frame Suc show ?thesis
      by (auto simp: packet_split_def parse_frames.simps[of bs] split: prod.splits)
  qed (use Suc.prems in \<open>auto simp: packet_split_def parse_frames.simps[of bs] parse_frames.simps[of rest]\<close>)
qed

section \<open>Properties\<close>

text \<open>C10: Decoding a packet from the ring is the framing specification on the bytes it holds: with
  less than a header, or less than the announced length, nothing happens; a complete packet is
  handed out and removed; a length above the limit throws everything away.\<close>

theorem packet_decode_refines:
  assumes "rb_wf buf" "packet_decode buf = (r, buf')"
  shows "rb_wf buf' \<and> rb_capacity buf' = rb_capacity buf \<and>
    (case parse_frame (rb_contents buf) of
       Incomplete \<Rightarrow> r = None \<and> buf' = buf
     | Oversized \<Rightarrow> r = None \<and> rb_contents buf' = []
     | Frame payload rest \<Rightarrow> r = Some payload \<and> rb_contents buf' = rest)"
  using packet_decode_spec[OF assms(1)] packet_decode_wf[OF assms(1)] packet_decode_capacity[of buf] assms(2)
  by (auto split: deframe.splits)

theorem packet_decode_refines_witness:
  "\<exists>buf'. packet_decode (rb_readv [0, 0, 0, 1, 42, 0] (rb_new 8)) = (Some [42], buf') \<and> rb_contents buf' = [0]"
proof -
  let ?buf = "rb_readv [0, 0, 0, 1, 42, 0] (rb_new 8)"
  have new: "rb_wf (rb_new 8)" "rb_contents (rb_new 8) = []" "rb_room (rb_new 8) = 8"
    using rb_wf_new[of 8] by (simp_all add: rb_new_def rb_room_def)
  then have wf: "rb_wf ?buf" and bytes: "rb_contents ?buf = [0, 0, 0, 1, 42, 0]"
    using ring.put_wf[of "rb_new 8"] ring.put_contents[of "rb_new 8"] by simp_all
  obtain r buf' where d: "packet_decode ?buf = (r, buf')" by force
  have "parse_frame [0, 0, 0, 1, 42, 0] = Frame [42] [0]" by (simp add: parse_frame_def)
  with packet_decode_refines[OF wf d] bytes d show ?thesis by auto
qed

text \<open>A message encoded by the protobuf codec at the front of the ring is decoded to itself
  and exactly its bytes are removed, whatever follows, provided the generated code parses what it
  serialised and the payload is within the limit.\<close>

theorem protobuf_roundtrip:
  assumes "rb_wf buf" "rb_contents buf = pb_encode ser msg @ rest"
    and "par (ser msg) = Some msg" "length (ser msg) \<le> 10485760"
  shows "\<exists>buf'. pb_decode par buf = (Some msg, buf') \<and> rb_contents buf' = rest \<and> rb_wf buf'"
proof -
  have "parse_frame (rb_contents buf) = Frame (ser msg) rest"
    using assms(2,4) by (simp add: pb_encode_frame parse_frame_frame packet_ok_def)
  then show ?thesis
    using packet_decode_spec[OF assms(1)] packet_decode_wf[OF assms(1)] assms(3)
    by (auto simp: pb_decode_def pb_decode_data_def split: prod.splits)
qed

theorem protobuf_roundtrip_witness:
  "\<exists>buf'. pb_decode (\<lambda>bs. if bs = [1] then Some True else if bs = [0] then Some False else None)
      (rb_readv (pb_encode (\<lambda>b. if b then [1] else [0]) True @ [9]) (rb_new 8)) = (Some True, buf') \<and>
    rb_contents buf' = [9]"
proof -
  let ?ser = "\<lambda>b :: bool. if b then [1 :: byte] else [0]"
  let ?par = "\<lambda>bs :: byte list. if bs = [1] then Some True else if bs = [0] then Some False else None"
  let ?bs = "pb_encode ?ser True @ [9]"
  have new: "rb_wf (rb_new 8)" "rb_contents (rb_new 8) = []" "rb_room (rb_new 8) = 8"
    using rb_wf_new[of 8] by (simp_all add: rb_new_def rb_room_def)
  then have "rb_wf (rb_readv ?bs (rb_new 8))" "rb_contents (rb_readv ?bs (rb_new 8)) = ?bs"
    using ring.put_wf[of "rb_new 8" ?bs] ring.put_contents[of "rb_new 8" ?bs] by (simp_all add: pb_encode_frame frame_def)
  from protobuf_roundtrip[of _ ?ser True "[9]" ?par, OF this] show ?thesis by auto
qed

text \<open>However the network cuts the stream of encoded packets into chunks, a receiver that
  appends each chunk and takes out the complete packets gets exactly the packets that were sent,
  in order, and is left with nothing.\<close>

theorem packets_any_chunks:
  assumes "list_all packet_ok ms" "concat chunks = concat (map frame ms)"
  shows "feed packet_split [] chunks = (ms, [])"
  using packet.feed_chunks[OF assms(1), of "[]" chunks] assms(2) by (simp add: packet.dec_Nil)

theorem packets_any_chunks_witness:
  "feed packet_split [] [[0, 0], [0, 1, 42, 0, 0, 0], [2, 7], [8]] = ([[42], [7, 8]], [])"
  by (rule packets_any_chunks)
    (simp_all add: packet_ok_def frame_def htonl_bytes_def)

end
