(* ===== verification/Metrics.thy ===== *)
theory Metrics
  imports Prelude
begin

text \<open>
  The counters of \<open>v4/metrics.h\<close>: relaxed atomics of type \<open>uint64_t\<close>, so additions and
  the subtraction wrap at 64 bits.
\<close>

record server_metrics =
  total_connections :: u64
  active_connections :: u64
  messages_sent :: u64
  messages_received :: u64
  bytes_sent :: u64
  bytes_received :: u64
  timeouts :: u64
  dropped_messages :: u64

definition metrics_init :: server_metrics where
  "metrics_init = \<lparr>total_connections = 0, active_connections = 0, messages_sent = 0,
     messages_received = 0, bytes_sent = 0, bytes_received = 0, timeouts = 0, dropped_messages = 0\<rparr>"

definition on_connection_accepted :: "server_metrics \<Rightarrow> server_metrics" where
  "on_connection_accepted m =
     m\<lparr>total_connections := total_connections m + 1, active_connections := active_connections m + 1\<rparr>"

definition on_connection_closed :: "server_metrics \<Rightarrow> server_metrics" where
  "on_connection_closed m = m\<lparr>active_connections := active_connections m - 1\<rparr>"

definition on_message_sent_count :: "server_metrics \<Rightarrow> server_metrics" where
  "on_message_sent_count m = m\<lparr>messages_sent := messages_sent m + 1\<rparr>"

definition on_bytes_sent :: "nat \<Rightarrow> server_metrics \<Rightarrow> server_metrics" where
  "on_bytes_sent n m = m\<lparr>bytes_sent := bytes_sent m + word_of_nat n\<rparr>"

definition on_bytes_received :: "nat \<Rightarrow> server_metrics \<Rightarrow> server_metrics" where
  "on_bytes_received n m = m\<lparr>bytes_received := bytes_received m + word_of_nat n\<rparr>"

definition on_message_received :: "server_metrics \<Rightarrow> server_metrics" where
  "on_message_received m = m\<lparr>messages_received := messages_received m + 1\<rparr>"

definition on_timeout :: "server_metrics \<Rightarrow> server_metrics" where
  "on_timeout m = m\<lparr>timeouts := timeouts m + 1\<rparr>"

definition on_message_dropped :: "server_metrics \<Rightarrow> server_metrics" where
  "on_message_dropped m = m\<lparr>dropped_messages := dropped_messages m + 1\<rparr>"

text \<open>What \<open>print_stats\<close> logs. The bytes received are counted but not printed.\<close>

definition stat_line :: "string \<Rightarrow> u64 \<Rightarrow> string" where
  "stat_line label n = label @ to_string (unat n) @ [CHR 0x0A]"

definition print_stats :: "server_metrics \<Rightarrow> string" where
  "print_stats m =
     [CHR 0x0A] @ ''=== Server Metrics Snapshot ==='' @ [CHR 0x0A] @
     stat_line ''Active Conns: '' (active_connections m) @
     stat_line ''Total Conns:  '' (total_connections m) @
     stat_line ''Msgs Sent:    '' (messages_sent m) @
     stat_line ''Msgs Recv:    '' (messages_received m) @
     stat_line ''Bytes Sent:   '' (bytes_sent m) @
     stat_line ''Timeouts:     '' (timeouts m) @
     stat_line ''Dropped:      '' (dropped_messages m) @
     ''===============================''"

lemmas metrics_defs = on_connection_accepted_def on_connection_closed_def on_message_sent_count_def
  on_bytes_sent_def on_bytes_received_def on_message_received_def on_timeout_def
  on_message_dropped_def

text \<open>
  The connection balance \<open>total - active\<close> counts the closed connections; only a close moves
  it, and wrap-around cancels out.
\<close>

definition closed_balance :: "server_metrics \<Rightarrow> u64" where
  "closed_balance m = total_connections m - active_connections m"

lemma closed_balance_simps [simp]:
  "closed_balance (on_connection_accepted m) = closed_balance m"
  "closed_balance (on_connection_closed m) = closed_balance m + 1"
  "closed_balance (on_message_sent_count m) = closed_balance m"
  "closed_balance (on_bytes_sent n m) = closed_balance m"
  "closed_balance (on_bytes_received n m) = closed_balance m"
  "closed_balance (on_message_received m) = closed_balance m"
  "closed_balance (on_timeout m) = closed_balance m"
  "closed_balance (on_message_dropped m) = closed_balance m"
  by (simp_all add: closed_balance_def metrics_defs)

end
