(* ===== verification/Connection.thy ===== *)
theory Connection
  imports Codec Metrics
begin

text \<open>
  One client connection of the server: \<open>v4/connection.h\<close> and the operations of
  \<open>v4/webserver.cpp\<close> that touch one connection under its mutex (\<open>attempt_write\<close>,
  \<open>SendPreEncoded\<close>, \<open>handle_write\<close>, one iteration of \<open>flush_all_queues\<close> and of a
  broadcast task). The kernel's end of the socket is part of the state: what it has taken
  (\<open>wire\<close>), how it answers the coming \<open>writev\<close> and \<open>readv\<close> calls (\<open>wscript\<close>,
  \<open>rscript\<close>; an exhausted script answers \<open>EAGAIN\<close>), and the registered epoll interest.
\<close>

section \<open>State\<close>

record outgoing_packet =
  payload :: "byte list"
  sent_offset :: nat

datatype write_result = Wrote nat | WAgain | WError
datatype read_result = Bytes "byte list" | RAgain | RError

record kernel_socket =
  interest :: "u32 option"
  wire :: "byte list"
  wscript :: "write_result list"
  rscript :: "read_result list"

record 'u connection =
  sock :: int
  user_data :: "'u option"
  has_codec :: bool
  in_buf :: ring_buffer
  outgoing_queue :: "outgoing_packet list"
  pending_bytes :: nat
  closed :: bool
  current_epoll_events :: u32
  is_write_armed :: bool
  is_reading_paused :: bool
  last_activity :: nat
  ksock :: kernel_socket

definition EPOLLIN :: u32 where "EPOLLIN = 0x001"
definition EPOLLOUT :: u32 where "EPOLLOUT = 0x004"
definition EPOLLERR :: u32 where "EPOLLERR = 0x008"
definition EPOLLHUP :: u32 where "EPOLLHUP = 0x010"
definition EPOLLET :: u32 where "EPOLLET = 0x80000000"

definition HIGH_WATER_MARK :: nat where "HIGH_WATER_MARK = 256 * 1024"
definition LOW_WATER_MARK :: nat where "LOW_WATER_MARK = 128 * 1024"
definition BATCH_FLUSH_THRESHOLD :: nat where "BATCH_FLUSH_THRESHOLD = 4096"
definition MAX_OUTGOING_QUEUE_SIZE :: nat where "MAX_OUTGOING_QUEUE_SIZE = 5000"
definition IOV_LIMIT :: nat where "IOV_LIMIT = 64"

text \<open>\<open>Connection(fd)\<close>: the constructor, at time \<open>now\<close>, on a fresh socket.\<close>

definition new_connection :: "int \<Rightarrow> nat \<Rightarrow> kernel_socket \<Rightarrow> 'u connection" where
  "new_connection fd now k =
     \<lparr>sock = fd, user_data = None, has_codec = False, in_buf = rb_new 8192, outgoing_queue = [],
      pending_bytes = 0, closed = False, current_epoll_events = 0, is_write_armed = False,
      is_reading_paused = False, last_activity = now, ksock = k\<rparr>"

definition update_activity :: "nat \<Rightarrow> 'u connection \<Rightarrow> 'u connection" where
  "update_activity now c = c\<lparr>last_activity := now\<rparr>"

section \<open>epoll registration\<close>

definition add_fd_to_epoll :: "u32 \<Rightarrow> 'u connection \<Rightarrow> 'u connection" where
  "add_fd_to_epoll events c = c\<lparr>ksock := (ksock c)\<lparr>interest := Some (events OR EPOLLET)\<rparr>\<rparr>"

definition mod_fd_epoll :: "u32 \<Rightarrow> 'u connection \<Rightarrow> 'u connection" where
  "mod_fd_epoll events c =
     (case interest (ksock c) of
        None \<Rightarrow> c
      | Some _ \<Rightarrow> c\<lparr>ksock := (ksock c)\<lparr>interest := Some (events OR EPOLLET)\<rparr>\<rparr>)"

definition update_epoll_events :: "u32 \<Rightarrow> 'u connection \<Rightarrow> 'u connection" where
  "update_epoll_events new_events c =
     (if current_epoll_events c = new_events then c
      else (mod_fd_epoll new_events c)\<lparr>current_epoll_events := new_events\<rparr>)"

section \<open>Writing\<close>

text \<open>The iovec array: at most \<open>IOV_LIMIT\<close> unsent tails, empty ones skipped.\<close>

fun gather_iov :: "nat \<Rightarrow> outgoing_packet list \<Rightarrow> byte list list" where
  "gather_iov 0 pkts = []"
| "gather_iov (Suc room) [] = []"
| "gather_iov (Suc room) (pkt # pkts) =
     (if sent_offset pkt < length (payload pkt)
      then drop (sent_offset pkt) (payload pkt) # gather_iov room pkts
      else gather_iov (Suc room) pkts)"

text \<open>The inner loop after a \<open>writev\<close>: retire \<open>bytes_left\<close> bytes from the front.\<close>

fun retire :: "nat \<Rightarrow> server_metrics \<Rightarrow> outgoing_packet list \<Rightarrow> server_metrics \<times> outgoing_packet list" where
  "retire bytes_left m [] = (m, [])"
| "retire bytes_left m (pkt # pkts) =
     (if bytes_left = 0 then (m, pkt # pkts)
      else let remaining_in_pkt = length (payload pkt) - sent_offset pkt
           in if bytes_left \<ge> remaining_in_pkt
              then retire (bytes_left - remaining_in_pkt) (on_message_sent_count m) pkts
              else (m, pkt\<lparr>sent_offset := sent_offset pkt + bytes_left\<rparr> # pkts))"

datatype write_exit = Emptied | WouldBlock | WriteFailed

lemma length_retire: "length (snd (retire n m pkts)) \<le> length pkts"
  by (induction n m pkts rule: retire.induct) (auto simp: Let_def intro: le_SucI)

text \<open>
  One \<open>writev\<close> that returned \<open>n > 0\<close>: counters, \<open>pending_bytes\<close> (saturating) and the queue.
\<close>

definition after_writev :: "nat \<Rightarrow> server_metrics \<Rightarrow> 'u connection \<Rightarrow> server_metrics \<times> 'u connection" where
  "after_writev n m c =
     (let m1 = on_bytes_sent n m;
          pending = (if n \<le> pending_bytes c then pending_bytes c - n else 0);
          (m2, q) = retire n m1 (outgoing_queue c)
      in (m2, c\<lparr>pending_bytes := pending, outgoing_queue := q\<rparr>))"

function write_loop :: "server_metrics \<Rightarrow> 'u connection \<Rightarrow> write_exit \<times> server_metrics \<times> 'u connection" where
  "write_loop m c =
     (if outgoing_queue c = [] then (Emptied, m, c)
      else let iov = gather_iov IOV_LIMIT (outgoing_queue c)
           in if iov = [] then write_loop m (c\<lparr>outgoing_queue := tl (outgoing_queue c)\<rparr>)
              else case wscript (ksock c) of
                  [] \<Rightarrow> (WouldBlock, m, c)
                | WAgain # rs \<Rightarrow> (WouldBlock, m, c\<lparr>ksock := (ksock c)\<lparr>wscript := rs\<rparr>\<rparr>)
                | WError # rs \<Rightarrow> (WriteFailed, m, c\<lparr>ksock := (ksock c)\<lparr>wscript := rs\<rparr>\<rparr>)
                | Wrote k # rs \<Rightarrow>
                    (let sent = take k (concat iov);
                         c1 = c\<lparr>ksock := (ksock c)\<lparr>wscript := rs, wire := wire (ksock c) @ sent\<rparr>\<rparr>
                     in if 0 < length sent
                        then (let (m2, c2) = after_writev (length sent) m c1 in write_loop m2 c2)
                        else write_loop m c1))"
  by pat_completeness auto
termination
proof (relation "measure (\<lambda>(m, c). length (wscript (ksock c)) + length (outgoing_queue c))", goal_cases)
  case (3 m c iov r rs k sent c1 p m2 c2)
  then have "length (outgoing_queue c2) \<le> length (outgoing_queue c)"
    using length_retire[of "length sent" "on_bytes_sent (length sent) m" "outgoing_queue c"]
    by (auto simp: after_writev_def Let_def split: prod.splits)
  with 3 show ?case by (auto simp: after_writev_def Let_def split: prod.splits)
qed auto

declare write_loop.simps [simp del]

text \<open>The result is the \<open>bool\<close> of the code: a fatal error, the caller should close.\<close>

definition attempt_write :: "server_metrics \<Rightarrow> 'u connection \<Rightarrow> bool \<times> server_metrics \<times> 'u connection" where
  "attempt_write m c =
     (if outgoing_queue c = [] then (False, m, c)
      else case write_loop m c of
          (WouldBlock, m', c') \<Rightarrow> (False, m', c')
        | (WriteFailed, m', c') \<Rightarrow> (True, m', c')
        | (Emptied, m', c') \<Rightarrow>
            (False, m',
             if is_reading_paused c' \<and> pending_bytes c' \<le> LOW_WATER_MARK
             then c'\<lparr>is_reading_paused := False\<rparr> else c'))"

section \<open>The byte stream of a connection\<close>

text \<open>
  What the peer will have received once everything queued is sent: the bytes the kernel
  took, then the unsent tails of the queue.
\<close>

definition remaining :: "outgoing_packet \<Rightarrow> byte list" where
  "remaining pkt = drop (sent_offset pkt) (payload pkt)"

definition queue_bytes :: "outgoing_packet list \<Rightarrow> byte list" where
  "queue_bytes q = concat (map remaining q)"

definition out_stream :: "'u connection \<Rightarrow> byte list" where
  "out_stream c = wire (ksock c) @ queue_bytes (outgoing_queue c)"

lemma queue_bytes_simps [simp]:
  "queue_bytes [] = []"
  "queue_bytes (p # q) = remaining p @ queue_bytes q"
  "queue_bytes (q @ r) = queue_bytes q @ queue_bytes r"
  by (simp_all add: queue_bytes_def)

lemma gather_iov_prefix: "\<exists>rest. queue_bytes q = concat (gather_iov k q) @ rest"
  by (induction k q rule: gather_iov.induct) (auto simp: remaining_def)

lemma gather_iov_Nil: "gather_iov (Suc k) q = [] \<longleftrightarrow> queue_bytes q = []"
  by (induction q) (auto simp: remaining_def)

lemma gather_limit_Nil: "gather_iov IOV_LIMIT q = [] \<longleftrightarrow> queue_bytes q = []"
  using gather_iov_Nil[of 63 q] by (simp add: IOV_LIMIT_def)

lemma length_gather_iov: "length (gather_iov k q) \<le> k"
  by (induction k q rule: gather_iov.induct) auto

lemma retire_bytes: "queue_bytes (snd (retire n m q)) = drop n (queue_bytes q)"
  by (induction n m q rule: retire.induct) (auto simp: Let_def remaining_def add.commute)

lemma take_gather: "take k (concat (gather_iov r q)) @ drop (length (take k (concat (gather_iov r q)))) (queue_bytes q)
    = queue_bytes q"
proof -
  obtain rest where "queue_bytes q = concat (gather_iov r q) @ rest" using gather_iov_prefix by blast
  then show ?thesis by (simp add: min_def)
qed

text \<open>
  The induction every fact about \<open>write_loop\<close> goes through: its three kinds of step.
\<close>

definition take_script :: "write_result list \<Rightarrow> 'u connection \<Rightarrow> 'u connection" where
  "take_script rs c = c\<lparr>ksock := (ksock c)\<lparr>wscript := rs\<rparr>\<rparr>"

definition push_wire :: "byte list \<Rightarrow> write_result list \<Rightarrow> 'u connection \<Rightarrow> 'u connection" where
  "push_wire bs rs c = c\<lparr>ksock := (ksock c)\<lparr>wscript := rs, wire := wire (ksock c) @ bs\<rparr>\<rparr>"

definition sendable :: "nat \<Rightarrow> 'u connection \<Rightarrow> byte list" where
  "sendable k c = take k (concat (gather_iov IOV_LIMIT (outgoing_queue c)))"

lemma write_loop_invariant [consumes 2, case_names pop script sent]:
  assumes "P m c" and "write_loop m c = (e, m', c')"
    and pop: "\<And>m c. P m c \<Longrightarrow> outgoing_queue c \<noteq> [] \<Longrightarrow> queue_bytes (outgoing_queue c) = [] \<Longrightarrow>
      P m (c\<lparr>outgoing_queue := tl (outgoing_queue c)\<rparr>)"
    and script: "\<And>m c rs. P m c \<Longrightarrow> P m (take_script rs c)"
    and sent: "\<And>m c k rs m2 c2. P m c \<Longrightarrow> sendable k c \<noteq> [] \<Longrightarrow>
      after_writev (length (sendable k c)) m (push_wire (sendable k c) rs c) = (m2, c2) \<Longrightarrow> P m2 c2"
  shows "P m' c' \<and> (e = Emptied \<longleftrightarrow> outgoing_queue c' = []) \<and>
    (e \<noteq> Emptied \<longrightarrow> queue_bytes (outgoing_queue c') \<noteq> [])" (is "P m' c' \<and> ?exit")
  using assms(1,2)
proof (induction m c rule: write_loop.induct)
  case (1 m c)
  let ?q = "outgoing_queue c"
  consider (empty) "?q = []"
    | (skip) "?q \<noteq> []" "gather_iov IOV_LIMIT ?q = []"
    | (io) "?q \<noteq> []" "gather_iov IOV_LIMIT ?q \<noteq> []" by blast
  then show ?case
  proof cases
    case empty
    with "1.prems" show ?thesis by (simp add: write_loop.simps[of m c])
  next
    case skip
    then have "P m (c\<lparr>outgoing_queue := tl ?q\<rparr>)" using "1.prems"(1) pop by (simp add: gather_limit_Nil)
    moreover have "write_loop m (c\<lparr>outgoing_queue := tl ?q\<rparr>) = (e, m', c')"
      using skip "1.prems"(2) by (simp add: write_loop.simps[of m c])
    ultimately show ?thesis by (rule "1.IH"(1)[OF skip(1) refl skip(2)])
  next
    case io
    show ?thesis
    proof (cases "wscript (ksock c)")
      case Nil
      with io "1.prems" gather_limit_Nil[of ?q] show ?thesis by (simp add: write_loop.simps[of m c])
    next
      case (Cons r rs)
      have P: "P m (take_script rs c)" using "1.prems"(1) by (rule script)
      show ?thesis
      proof (cases r)
        case (Wrote k)
        let ?s = "sendable k c" and ?c1 = "push_wire (sendable k c) rs c"
        have IH2: "P m' c' \<and> ?exit" if "?s \<noteq> []" "after_writev (length ?s) m ?c1 = (m2, c2)"
          "write_loop m2 c2 = (e, m', c')" "P m2 c2" for m2 c2
        proof (rule "1.IH"(2)[OF io(1) refl io(2) Cons Wrote refl refl _ _ refl])
          show "0 < length (take k (concat (gather_iov IOV_LIMIT ?q)))"
            using that(1) by (simp add: sendable_def)
          show "(m2, c2) = after_writev (length (take k (concat (gather_iov IOV_LIMIT ?q)))) m
              (c\<lparr>ksock := (ksock c)\<lparr>wscript := rs,
                 wire := wire (ksock c) @ take k (concat (gather_iov IOV_LIMIT ?q))\<rparr>\<rparr>)"
            using that(2) by (simp only: sendable_def push_wire_def)
        qed (rule that)+
        have IH3: "P m' c' \<and> ?exit" if "?s = []" "write_loop m ?c1 = (e, m', c')" "P m ?c1"
          by (rule "1.IH"(3)[OF io(1) refl io(2) Cons Wrote refl refl])
            (use that in \<open>simp_all only: sendable_def push_wire_def list.size less_irrefl not_False_eq_True\<close>)
        have unf: "write_loop m c =
            (if 0 < length ?s then (let (m2, c2) = after_writev (length ?s) m ?c1 in write_loop m2 c2)
             else write_loop m ?c1)"
          by (subst write_loop.simps)
            (simp only: io Cons Wrote if_False Let_def list.case write_result.case sendable_def push_wire_def)
        show ?thesis
        proof (cases "?s = []")
          case True
          then have "?c1 = take_script rs c" by (simp add: take_script_def push_wire_def)
          with True IH3 P unf "1.prems"(2) show ?thesis by simp
        next
          case False
          obtain m2 c2 where w: "after_writev (length ?s) m ?c1 = (m2, c2)" by force
          then have "P m2 c2" using "1.prems"(1) False sent by blast
          with False w IH2 unf "1.prems"(2) show ?thesis by simp
        qed
      qed (use io Cons "1.prems"(2) P gather_limit_Nil[of ?q] in
        \<open>auto simp: write_loop.simps[of m c] take_script_def\<close>)
    qed
  qed
qed


section \<open>What a write attempt does\<close>

definition pkt_ok :: "outgoing_packet \<Rightarrow> bool" where
  "pkt_ok p \<longleftrightarrow> sent_offset p \<le> length (payload p)"

text \<open>The queue is accounted for exactly by \<open>pending_bytes\<close>.\<close>

definition queue_wf :: "'u connection \<Rightarrow> bool" where
  "queue_wf c \<longleftrightarrow> list_all pkt_ok (outgoing_queue c) \<and>
     pending_bytes c = length (queue_bytes (outgoing_queue c))"

definition write_frame :: "'u connection \<Rightarrow> 'u connection \<Rightarrow> bool" where
  "write_frame c c' \<longleftrightarrow>
     sock c' = sock c \<and> user_data c' = user_data c \<and> has_codec c' = has_codec c \<and>
     in_buf c' = in_buf c \<and> closed c' = closed c \<and>
     current_epoll_events c' = current_epoll_events c \<and> is_write_armed c' = is_write_armed c \<and>
     last_activity c' = last_activity c \<and> interest (ksock c') = interest (ksock c) \<and>
     rscript (ksock c') = rscript (ksock c)"

lemma list_all_retire: "list_all pkt_ok q \<Longrightarrow> list_all pkt_ok (snd (retire n m q))"
  by (induction n m q rule: retire.induct) (auto simp: Let_def pkt_ok_def)

lemma retire_metrics:
  "bytes_sent (fst (retire n m q)) = bytes_sent m"
  "closed_balance (fst (retire n m q)) = closed_balance m"
  by (induction n m q rule: retire.induct) (auto simp: Let_def on_message_sent_count_def closed_balance_def)

lemma after_writev_unfold:
  assumes "after_writev n m c = (m2, c2)"
  shows "m2 = fst (retire n (on_bytes_sent n m) (outgoing_queue c))"
    and "c2 = c\<lparr>pending_bytes := pending_bytes c - n,
          outgoing_queue := snd (retire n (on_bytes_sent n m) (outgoing_queue c))\<rparr>"
  using assms by (auto simp: after_writev_def Let_def split: prod.splits)

lemma sendable_prefix:
  "sendable k c @ drop (length (sendable k c)) (queue_bytes (outgoing_queue c)) = queue_bytes (outgoing_queue c)"
  unfolding sendable_def by (rule take_gather)

lemma length_sendable: "length (sendable k c) \<le> length (queue_bytes (outgoing_queue c))"
  by (metis sendable_prefix length_append le_add1)

text \<open>All facts about the loop, in one relation to the state it started in.\<close>

definition write_progress ::
  "server_metrics \<Rightarrow> 'u connection \<Rightarrow> server_metrics \<Rightarrow> 'u connection \<Rightarrow> bool" where
  "write_progress m0 c0 m c \<longleftrightarrow>
     out_stream c = out_stream c0 \<and> write_frame c0 c \<and>
     (queue_wf c0 \<longrightarrow> queue_wf c) \<and>
     (\<exists>w. wire (ksock c) = wire (ksock c0) @ w \<and> bytes_sent m = bytes_sent m0 + word_of_nat (length w)) \<and>
     is_reading_paused c = is_reading_paused c0 \<and> closed_balance m = closed_balance m0"

lemma write_progress_refl: "write_progress m c m c"
  by (simp add: write_progress_def write_frame_def)

lemma write_progress_sent:
  assumes "write_progress m0 c0 m c"
    and "after_writev (length (sendable k c)) m (push_wire (sendable k c) rs c) = (m2, c2)"
  shows "write_progress m0 c0 m2 c2"
proof -
  let ?s = "sendable k c"
  note un = after_writev_unfold[OF assms(2)]
  have q: "queue_bytes (outgoing_queue c2) = drop (length ?s) (queue_bytes (outgoing_queue c))"
    using un by (simp add: retire_bytes push_wire_def)
  have "out_stream c2 = out_stream c"
    using un sendable_prefix[of k c] by (simp add: out_stream_def push_wire_def retire_bytes)
  moreover have "write_frame c c2" using un by (simp add: write_frame_def push_wire_def)
  moreover have "queue_wf c2" if "queue_wf c"
    using that un q by (simp add: queue_wf_def push_wire_def list_all_retire)
  moreover have "wire (ksock c2) = wire (ksock c) @ ?s" "is_reading_paused c2 = is_reading_paused c"
    using un by (simp_all add: push_wire_def)
  moreover have "bytes_sent m2 = bytes_sent m + word_of_nat (length ?s)"
    "closed_balance m2 = closed_balance m"
    using un by (simp_all add: retire_metrics) (simp add: on_bytes_sent_def)
  ultimately show ?thesis using assms(1)
    by (auto simp: write_progress_def write_frame_def algebra_simps)
qed

lemma write_loop_progress:
  assumes "write_loop m c = (e, m', c')"
  shows "write_progress m c m' c'" "e = Emptied \<longleftrightarrow> outgoing_queue c' = []"
    "e \<noteq> Emptied \<longrightarrow> queue_bytes (outgoing_queue c') \<noteq> []"
proof -
  have "write_progress m c m' c' \<and> (e = Emptied \<longleftrightarrow> outgoing_queue c' = []) \<and>
    (e \<noteq> Emptied \<longrightarrow> queue_bytes (outgoing_queue c') \<noteq> [])"
    using write_progress_refl assms
  proof (rule write_loop_invariant[where P = "write_progress m c"])
    fix m1 c1 assume P: "write_progress m c m1 c1" and "outgoing_queue c1 \<noteq> []"
      "queue_bytes (outgoing_queue c1) = []"
    then obtain p q where "outgoing_queue c1 = p # q" "remaining p = []" "queue_bytes q = []"
      by (cases "outgoing_queue c1") auto
    with P show "write_progress m c m1 (c1\<lparr>outgoing_queue := tl (outgoing_queue c1)\<rparr>)"
      by (auto simp: write_progress_def write_frame_def out_stream_def queue_wf_def)
  next
    fix m1 c1 rs assume "write_progress m c m1 c1"
    then show "write_progress m c m1 (take_script rs c1)"
      by (simp add: write_progress_def write_frame_def out_stream_def queue_wf_def take_script_def)
  qed (rule write_progress_sent)
  then show "write_progress m c m' c'" "e = Emptied \<longleftrightarrow> outgoing_queue c' = []"
    "e \<noteq> Emptied \<longrightarrow> queue_bytes (outgoing_queue c') \<noteq> []" by simp_all
qed

lemma write_frame_trans: "write_frame a b \<Longrightarrow> write_frame b c \<Longrightarrow> write_frame a c"
  by (simp add: write_frame_def)

text \<open>How \<open>attempt_write\<close> ends, in terms of the loop.\<close>

lemma attempt_write_cases:
  assumes "attempt_write m c = (fatal, m', c')"
  obtains (nothing) "outgoing_queue c = []" "\<not> fatal" "m' = m" "c' = c"
  | (wrote) e c1 where "outgoing_queue c \<noteq> []" "write_loop m c = (e, m', c1)"
      "fatal \<longleftrightarrow> e = WriteFailed"
      "c' = (if e = Emptied \<and> is_reading_paused c1 \<and> pending_bytes c1 \<le> LOW_WATER_MARK
             then c1\<lparr>is_reading_paused := False\<rparr> else c1)"
proof (cases "outgoing_queue c = []")
  case True
  show ?thesis by (rule nothing) (use assms True in \<open>simp_all add: attempt_write_def\<close>)
next
  case False
  obtain e m1 c1 where l: "write_loop m c = (e, m1, c1)" by (metis prod_cases3)
  show ?thesis
    by (rule wrote[of e c1]) (use assms False l in \<open>auto simp: attempt_write_def split: write_exit.splits\<close>)
qed

lemma attempt_write_progress:
  assumes "attempt_write m c = (fatal, m', c')"
  shows "out_stream c' = out_stream c \<and> write_frame c c' \<and> (queue_wf c \<longrightarrow> queue_wf c') \<and>
    (\<exists>w. wire (ksock c') = wire (ksock c) @ w \<and> bytes_sent m' = bytes_sent m + word_of_nat (length w)) \<and>
    closed_balance m' = closed_balance m"
  using assms
proof (cases rule: attempt_write_cases)
  case (wrote e c1)
  note p = write_loop_progress(1)[OF wrote(2), unfolded write_progress_def]
  have same: "wire (ksock c') = wire (ksock c1)" "outgoing_queue c' = outgoing_queue c1"
    "write_frame c1 c'" "queue_wf c' = queue_wf c1"
    using wrote(4) by (simp_all add: write_frame_def queue_wf_def)
  have "out_stream c' = out_stream c" using p same(1,2) by (simp add: out_stream_def)
  moreover have "write_frame c c'" using p same(3) by (blast intro: write_frame_trans)
  ultimately show ?thesis using p same(1,4) by simp
qed (simp add: write_frame_def)

lemma attempt_write_exit:
  assumes "attempt_write m c = (fatal, m', c')"
  shows "(fatal \<longrightarrow> outgoing_queue c' \<noteq> []) \<and>
    (outgoing_queue c' = [] \<or> queue_bytes (outgoing_queue c') \<noteq> []) \<and>
    (is_reading_paused c' \<longleftrightarrow> is_reading_paused c \<and>
      (outgoing_queue c \<noteq> [] \<and> outgoing_queue c' = [] \<longrightarrow> \<not> pending_bytes c' \<le> LOW_WATER_MARK))"
  using assms
proof (cases rule: attempt_write_cases)
  case (wrote e c1)
  note exit = write_loop_progress(2,3)[OF wrote(2)]
  have "is_reading_paused c1 = is_reading_paused c"
    using write_loop_progress(1)[OF wrote(2)] by (simp add: write_progress_def)
  moreover have "outgoing_queue c' = outgoing_queue c1" "pending_bytes c' = pending_bytes c1"
    using wrote(4) by simp_all
  ultimately show ?thesis using wrote(1,3,4) exit by (cases e) auto
qed (auto simp: attempt_write_def)

section \<open>A kernel that takes something on every call\<close>

definition accepting :: "write_result list \<Rightarrow> bool" where
  "accepting ws \<longleftrightarrow> list_all (\<lambda>r. case r of Wrote k \<Rightarrow> 0 < k | _ \<Rightarrow> False) ws"

lemma write_loop_drains:
  assumes "accepting (wscript (ksock c))" "length (queue_bytes (outgoing_queue c)) \<le> length (wscript (ksock c))"
  shows "\<exists>m' c'. write_loop m c = (Emptied, m', c')"
  using assms
proof (induction m c rule: write_loop.induct)
  case (1 m c)
  let ?q = "outgoing_queue c"
  show ?case
  proof (cases "?q = [] \<or> gather_iov IOV_LIMIT ?q = []")
    case True
    show ?thesis
    proof (cases "?q = []")
      case False
      then have skip: "gather_iov IOV_LIMIT ?q = []" using True by simp
      let ?c = "c\<lparr>outgoing_queue := tl ?q\<rparr>"
      have "queue_bytes (tl ?q) = []" using skip False by (cases ?q) (simp_all add: gather_limit_Nil)
      then have "\<exists>m' c'. write_loop m ?c = (Emptied, m', c')"
        using "1.IH"(1)[OF False refl skip] "1.prems" by simp
      then show ?thesis using False skip by (simp add: write_loop.simps[of m c])
    qed (simp add: write_loop.simps[of m c])
  next
    case False
    then have ne: "?q \<noteq> []" and io: "gather_iov IOV_LIMIT ?q \<noteq> []" by auto
    then have bytes: "queue_bytes ?q \<noteq> []" by (simp add: gather_limit_Nil)
    then obtain k rs where w: "wscript (ksock c) = Wrote k # rs" "0 < k" "accepting rs"
      using "1.prems" by (cases "wscript (ksock c)") (auto simp: accepting_def split: write_result.splits)
    let ?s = "take k (concat (gather_iov IOV_LIMIT ?q))"
    have "concat (gather_iov IOV_LIMIT ?q) \<noteq> []"
    proof -
      have "\<forall>b\<in>set (gather_iov r q). b \<noteq> []" for r q
        by (induction r q rule: gather_iov.induct) auto
      then show ?thesis using io by (cases "gather_iov IOV_LIMIT ?q") (auto, metis list.set_intros(1))
    qed
    then have pos: "0 < length ?s" using w(2) by simp
    let ?c1 = "c\<lparr>ksock := (ksock c)\<lparr>wscript := rs, wire := wire (ksock c) @ ?s\<rparr>\<rparr>"
    obtain m2 c2 where a: "after_writev (length ?s) m ?c1 = (m2, c2)" by force
    note un = after_writev_unfold[OF a]
    have scr: "wscript (ksock c2) = rs" using un(2) by simp
    have "length (queue_bytes (outgoing_queue c2)) \<le> length rs"
    proof -
      have "outgoing_queue c2 = snd (retire (length ?s) (on_bytes_sent (length ?s) m) ?q)"
        by (subst un(2)) simp
      then have "length (queue_bytes (outgoing_queue c2)) = length (queue_bytes ?q) - length ?s"
        by (simp only: retire_bytes length_drop)
      moreover have "length (queue_bytes ?q) \<le> Suc (length rs)" using "1.prems"(2) w(1) by simp
      ultimately show ?thesis using pos by linarith
    qed
    then have "\<exists>m' c'. write_loop m2 c2 = (Emptied, m', c')"
      using "1.IH"(2)[OF ne refl io w(1) refl refl refl pos a[symmetric] refl] scr w(3) by simp
    then show ?thesis using ne io w(1) pos a by (simp add: write_loop.simps[of m c] Let_def)
  qed
qed

section \<open>Properties\<close>

text \<open>C9: A write attempt neither loses, repeats nor reorders bytes: what the kernel has taken
  followed by what is still queued is the same stream before and after, whatever the kernel
  answers (partial writes, EAGAIN, errors); the counters move with the bytes, and a queue that
  remains has something to send.\<close>

theorem attempt_write_lossless:
  assumes "queue_wf c" "attempt_write m c = (fatal, m', c')"
  shows "out_stream c' = out_stream c \<and> queue_wf c' \<and>
    (\<exists>w. wire (ksock c') = wire (ksock c) @ w \<and> bytes_sent m' = bytes_sent m + word_of_nat (length w) \<and>
         pending_bytes c = length w + pending_bytes c') \<and>
    (outgoing_queue c' \<noteq> [] \<longrightarrow> queue_bytes (outgoing_queue c') \<noteq> []) \<and> (fatal \<longrightarrow> outgoing_queue c' \<noteq> [])"
proof -
  note p = attempt_write_progress[OF assms(2)]
  obtain w where w: "wire (ksock c') = wire (ksock c) @ w" "bytes_sent m' = bytes_sent m + word_of_nat (length w)"
    using p by blast
  have "pending_bytes c = length w + pending_bytes c'"
    using p assms(1) w(1) by (simp add: queue_wf_def out_stream_def) (metis length_append)
  with p w assms(1) attempt_write_exit[OF assms(2)] show ?thesis by blast
qed

definition sample_connection :: "write_result list \<Rightarrow> unit connection" where
  "sample_connection ws = (new_connection 5 0 \<lparr>interest = Some EPOLLIN, wire = [], wscript = ws, rscript = []\<rparr>)
     \<lparr>outgoing_queue := [\<lparr>payload = [1, 2, 3], sent_offset = 1\<rparr>, \<lparr>payload = [4], sent_offset = 0\<rparr>], pending_bytes := 3\<rparr>"

theorem attempt_write_lossless_witness:
  "\<exists>fatal m' c'. attempt_write metrics_init (sample_connection [Wrote 1, WAgain]) = (fatal, m', c') \<and>
     out_stream c' = [2, 3, 4]"
proof -
  let ?c = "sample_connection [Wrote 1, WAgain]"
  obtain fatal m' c' where a: "attempt_write metrics_init ?c = (fatal, m', c')" by (metis prod_cases3)
  have "queue_wf ?c" "out_stream ?c = [2, 3, 4]"
    by (simp_all add: sample_connection_def queue_wf_def pkt_ok_def remaining_def out_stream_def new_connection_def)
  with attempt_write_lossless[OF _ a] a show ?thesis by auto
qed

text \<open>As long as the kernel takes at least one byte per call, a write attempt empties the
  queue: the peer gets the whole stream, and the attempt reports no error.\<close>

theorem attempt_write_drains:
  assumes "queue_wf c" "accepting (wscript (ksock c))" "pending_bytes c \<le> length (wscript (ksock c))"
  shows "\<exists>m' c'. attempt_write m c = (False, m', c') \<and> outgoing_queue c' = [] \<and> pending_bytes c' = 0 \<and>
    wire (ksock c') = out_stream c"
proof -
  obtain fatal m' c' where a: "attempt_write m c = (fatal, m', c')" by (metis prod_cases3)
  have "\<exists>m1 c1. write_loop m c = (Emptied, m1, c1)"
    using assms by (intro write_loop_drains) (simp_all add: queue_wf_def)
  then have "\<not> fatal \<and> outgoing_queue c' = []"
    using a write_loop_progress(2)[of m c] by (cases "outgoing_queue c = []") (auto simp: attempt_write_def)
  then show ?thesis using a attempt_write_progress[OF a] assms(1) by (auto simp: out_stream_def queue_wf_def)
qed

theorem attempt_write_drains_witness:
  "\<exists>m' c'. attempt_write metrics_init (sample_connection [Wrote 1, Wrote 7, Wrote 7]) = (False, m', c') \<and>
     wire (ksock c') = [2, 3, 4]"
proof -
  let ?c = "sample_connection [Wrote 1, Wrote 7, Wrote 7]"
  have "queue_wf ?c" "accepting (wscript (ksock ?c))" "pending_bytes ?c \<le> length (wscript (ksock ?c))"
    "out_stream ?c = [2, 3, 4]"
    by (simp_all add: sample_connection_def queue_wf_def pkt_ok_def remaining_def out_stream_def new_connection_def
        accepting_def)
  with attempt_write_drains[of ?c metrics_init] show ?thesis by auto
qed

text \<open>Reading that was paused at the high water mark is resumed only by the attempt that
  empties the queue: while anything is left, the pause stays, even far below
  \<open>LOW_WATER_MARK\<close>.\<close>

theorem resume_only_when_drained:
  assumes "attempt_write m c = (fatal, m', c')"
  shows "is_reading_paused c' \<longleftrightarrow> is_reading_paused c \<and>
    (outgoing_queue c = [] \<or> outgoing_queue c' \<noteq> [] \<or> LOW_WATER_MARK < pending_bytes c')"
  using attempt_write_exit[OF assms] by auto

theorem resume_only_when_drained_witness:
  "\<exists>fatal m' c'. attempt_write metrics_init ((sample_connection [WAgain])\<lparr>is_reading_paused := True\<rparr>) = (fatal, m', c') \<and>
     is_reading_paused c' \<and> pending_bytes c' = 3 \<and> pending_bytes c' \<le> LOW_WATER_MARK"
proof -
  let ?c = "(sample_connection [WAgain])\<lparr>is_reading_paused := True\<rparr>"
  have a: "attempt_write metrics_init ?c =
      (False, metrics_init, ?c\<lparr>ksock := (ksock ?c)\<lparr>wscript := []\<rparr>\<rparr>)"
    by (simp add: attempt_write_def write_loop.simps sample_connection_def new_connection_def IOV_LIMIT_def
        gather_iov.simps numeral_eq_Suc)
  have "is_reading_paused (?c\<lparr>ksock := (ksock ?c)\<lparr>wscript := []\<rparr>\<rparr>)"
    using resume_only_when_drained[OF a] by (simp add: sample_connection_def)
  moreover have "pending_bytes (?c\<lparr>ksock := (ksock ?c)\<lparr>wscript := []\<rparr>\<rparr>) = 3"
    by (simp add: sample_connection_def)
  ultimately show ?thesis using a by (auto simp: LOW_WATER_MARK_def)
qed

end
