(* ===== verification/Sending.thy ===== *)
theory Sending
  imports Connection
begin

text \<open>
  The operations of \<open>v4/webserver.cpp\<close> that put bytes into a connection's output queue and
  arm its epoll interest, each under the connection's mutex: \<open>SendPreEncoded\<close>, the
  connection part of \<open>handle_write\<close>, one connection of \<open>flush_all_queues\<close>, and one
  connection of a broadcast task of \<open>process_global_queue\<close>.
\<close>

section \<open>Operations\<close>

text \<open>The code's test \<open>ev & MASK\<close>.\<close>

definition has_event :: "u32 \<Rightarrow> u32 \<Rightarrow> bool" where
  "has_event ev bits \<longleftrightarrow> ev AND bits \<noteq> 0"

text \<open>The two updates of the interest mask in \<open>SendPreEncoded\<close>.\<close>

definition toggle_write_interest :: "'u connection \<Rightarrow> 'u connection" where
  "toggle_write_interest c =
     (let events = current_epoll_events c
      in if outgoing_queue c \<noteq> []
         then if \<not> is_write_armed c
              then update_epoll_events (events OR EPOLLOUT) (c\<lparr>is_write_armed := True\<rparr>)
              else update_epoll_events events c
         else if is_write_armed c
              then update_epoll_events (events AND NOT EPOLLOUT) (c\<lparr>is_write_armed := False\<rparr>)
              else update_epoll_events events c)"

definition rearm :: "'u connection \<Rightarrow> 'u connection" where
  "rearm c =
     (let events0 = (if outgoing_queue c \<noteq> [] then 0 OR EPOLLOUT else 0);
          c1 = c\<lparr>is_write_armed := (outgoing_queue c \<noteq> [])\<rparr>;
          events = (if \<not> is_reading_paused c1 \<and> \<not> rb_full (in_buf c1)
                    then events0 OR EPOLLIN else events0)
      in update_epoll_events events c1)"

definition send_pre_encoded ::
  "byte list \<Rightarrow> server_metrics \<Rightarrow> 'u connection \<Rightarrow> server_metrics \<times> 'u connection" where
  "send_pre_encoded packet m c =
     (if closed c then (m, c)
      else let was_empty = (outgoing_queue c = [] \<and> \<not> is_write_armed c);
               pkt = \<lparr>payload = packet, sent_offset = 0\<rparr>;
               c1 = c\<lparr>outgoing_queue := outgoing_queue c @ [pkt],
                      pending_bytes := pending_bytes c + length (payload pkt)\<rparr>;
               c2 = (if \<not> is_reading_paused c1 \<and> pending_bytes c1 \<ge> HIGH_WATER_MARK
                     then c1\<lparr>is_reading_paused := True\<rparr> else c1);
               (m3, c3) =
                 (if pending_bytes c2 > BATCH_FLUSH_THRESHOLD \<or> is_write_armed c2 \<or> was_empty
                  then case attempt_write m c2 of (_, m', c') \<Rightarrow> (m', toggle_write_interest c')
                  else (m, c2))
           in (m3, rearm c3))"

text \<open>\<open>handle_write\<close> up to the close; the Boolean is \<open>should_close\<close>.\<close>

definition handle_write_conn ::
  "server_metrics \<Rightarrow> 'u connection \<Rightarrow> bool \<times> server_metrics \<times> 'u connection" where
  "handle_write_conn m c =
     (case attempt_write m c of
        (should_close, m1, c1) \<Rightarrow>
          (let events0 = (if \<not> is_reading_paused c1 \<and> \<not> rb_full (in_buf c1) then 0 OR EPOLLIN else 0);
               events = (if outgoing_queue c1 \<noteq> [] then events0 OR EPOLLOUT else events0);
               c2 = c1\<lparr>is_write_armed := (outgoing_queue c1 \<noteq> [])\<rparr>
           in (should_close, m1, if \<not> should_close then update_epoll_events events c2 else c2)))"

text \<open>The step shared by the timer flush and the broadcast tasks.\<close>

definition write_and_arm :: "server_metrics \<Rightarrow> 'u connection \<Rightarrow> server_metrics \<times> 'u connection" where
  "write_and_arm m c =
     (case attempt_write m c of
        (_, m1, c1) \<Rightarrow>
          (m1, if outgoing_queue c1 \<noteq> [] \<and> \<not> is_write_armed c1
               then (update_epoll_events (current_epoll_events c1 OR EPOLLOUT) c1)\<lparr>is_write_armed := True\<rparr>
               else c1))"

text \<open>\<open>flush_all_queues\<close> for one connection, its mutex taken with \<open>try_to_lock\<close>.\<close>

definition flush_conn :: "bool \<Rightarrow> server_metrics \<Rightarrow> 'u connection \<Rightarrow> server_metrics \<times> 'u connection" where
  "flush_conn owns_lock m c =
     (if closed c then (m, c)
      else if \<not> owns_lock then (m, c)
      else if closed c \<or> outgoing_queue c = [] then (m, c)
      else write_and_arm m c)"

record broadcast_event =
  sender_fd :: int
  bpayload :: "byte list"

fun enqueue_broadcasts ::
  "broadcast_event list \<Rightarrow> bool \<Rightarrow> server_metrics \<Rightarrow> 'u connection
     \<Rightarrow> bool \<times> server_metrics \<times> 'u connection" where
  "enqueue_broadcasts [] added_any m c = (added_any, m, c)"
| "enqueue_broadcasts (evt # evts) added_any m c =
     (if sender_fd evt \<noteq> -1 \<and> sock c = sender_fd evt then enqueue_broadcasts evts added_any m c
      else if length (outgoing_queue c) \<ge> MAX_OUTGOING_QUEUE_SIZE
      then (added_any,
            if length (outgoing_queue c) = MAX_OUTGOING_QUEUE_SIZE then on_message_dropped m else m, c)
      else enqueue_broadcasts evts True m
             (c\<lparr>outgoing_queue := outgoing_queue c @ [\<lparr>payload = bpayload evt, sent_offset = 0\<rparr>],
                pending_bytes := pending_bytes c + length (bpayload evt)\<rparr>))"

definition deliver_conn ::
  "broadcast_event list \<Rightarrow> server_metrics \<Rightarrow> 'u connection \<Rightarrow> server_metrics \<times> 'u connection" where
  "deliver_conn evts m c =
     (if closed c then (m, c)
      else case enqueue_broadcasts evts False m (c\<lparr>has_codec := True\<rparr>) of
          (added_any, m1, c1) \<Rightarrow>
            if \<not> added_any then (m1, c1)
            else write_and_arm m1
                   (if \<not> is_reading_paused c1 \<and> pending_bytes c1 \<ge> HIGH_WATER_MARK
                    then c1\<lparr>is_reading_paused := True\<rparr> else c1))"

section \<open>Interest masks\<close>

lemma has_event_OR [simp]: "has_event (a OR b) m \<longleftrightarrow> has_event a m \<or> has_event b m"
  by (simp add: has_event_def bit.conj_disj_distrib2 or_eq_0_iff)

lemma has_event_0 [simp]: "\<not> has_event 0 m"
  by (simp add: has_event_def)

lemma has_event_masks [simp]:
  "has_event EPOLLOUT EPOLLOUT" "has_event EPOLLIN EPOLLIN"
  "\<not> has_event EPOLLOUT EPOLLIN" "\<not> has_event EPOLLIN EPOLLOUT"
  "\<not> has_event EPOLLET EPOLLIN" "\<not> has_event EPOLLET EPOLLOUT"
  by (simp_all add: has_event_def EPOLLIN_def EPOLLOUT_def EPOLLET_def)

lemma has_event_clear [simp]:
  "\<not> has_event (a AND NOT EPOLLOUT) EPOLLOUT"
  "has_event (a AND NOT EPOLLOUT) EPOLLIN \<longleftrightarrow> has_event a EPOLLIN"
  by (simp_all add: has_event_def and.assoc) (simp add: EPOLLIN_def EPOLLOUT_def)

section \<open>The connection invariant\<close>

text \<open>
  Output never gets stuck: as long as bytes are queued, \<open>EPOLLOUT\<close> is armed, in the flag, in
  the recorded mask and in the kernel's registration.
\<close>

definition interest_sync :: "'u connection \<Rightarrow> bool" where
  "interest_sync c \<longleftrightarrow>
     (is_write_armed c \<longleftrightarrow> has_event (current_epoll_events c) EPOLLOUT) \<and>
     interest (ksock c) = Some (current_epoll_events c OR EPOLLET)"

definition interest_wf :: "'u connection \<Rightarrow> bool" where
  "interest_wf c \<longleftrightarrow> interest_sync c \<and> (outgoing_queue c \<noteq> [] \<longrightarrow> is_write_armed c)"

lemmas interest_defs = interest_wf_def interest_sync_def

definition conn_wf :: "'u connection \<Rightarrow> bool" where
  "conn_wf c \<longleftrightarrow> rb_wf (in_buf c) \<and> queue_wf c \<and> (\<not> closed c \<longrightarrow> interest_wf c)"

lemma update_epoll_fields [simp]:
  "outgoing_queue (update_epoll_events e c) = outgoing_queue c"
  "pending_bytes (update_epoll_events e c) = pending_bytes c"
  "closed (update_epoll_events e c) = closed c"
  "in_buf (update_epoll_events e c) = in_buf c"
  "sock (update_epoll_events e c) = sock c"
  "user_data (update_epoll_events e c) = user_data c"
  "has_codec (update_epoll_events e c) = has_codec c"
  "last_activity (update_epoll_events e c) = last_activity c"
  "is_write_armed (update_epoll_events e c) = is_write_armed c"
  "is_reading_paused (update_epoll_events e c) = is_reading_paused c"
  "current_epoll_events (update_epoll_events e c) = e"
  "wire (ksock (update_epoll_events e c)) = wire (ksock c)"
  "wscript (ksock (update_epoll_events e c)) = wscript (ksock c)"
  "rscript (ksock (update_epoll_events e c)) = rscript (ksock c)"
  by (simp_all add: update_epoll_events_def mod_fd_epoll_def split: option.splits)

lemma update_epoll_interest:
  "interest (ksock c) = Some (current_epoll_events c OR EPOLLET) \<Longrightarrow>
   interest (ksock (update_epoll_events e c)) = Some (e OR EPOLLET)"
  by (simp add: update_epoll_events_def mod_fd_epoll_def)

lemma update_epoll_derived [simp]:
  "out_stream (update_epoll_events e c) = out_stream c"
  "queue_wf (update_epoll_events e c) \<longleftrightarrow> queue_wf c"
  by (simp_all add: out_stream_def queue_wf_def)

lemma flag_derived [simp]:
  "out_stream (c\<lparr>is_write_armed := b\<rparr>) = out_stream c"
  "queue_wf (c\<lparr>is_write_armed := b\<rparr>) \<longleftrightarrow> queue_wf c"
  "out_stream (c\<lparr>is_reading_paused := b\<rparr>) = out_stream c"
  "queue_wf (c\<lparr>is_reading_paused := b\<rparr>) \<longleftrightarrow> queue_wf c"
  "interest_wf (c\<lparr>is_reading_paused := b\<rparr>) \<longleftrightarrow> interest_wf c"
  "out_stream (c\<lparr>has_codec := b\<rparr>) = out_stream c"
  "queue_wf (c\<lparr>has_codec := b\<rparr>) \<longleftrightarrow> queue_wf c"
  "interest_wf (c\<lparr>has_codec := b\<rparr>) \<longleftrightarrow> interest_wf c"
  by (simp_all add: out_stream_def queue_wf_def interest_defs)

text \<open>
  Everything the operations of this theory keep: identity, session, input side, close flag.
\<close>

definition send_frame :: "'u connection \<Rightarrow> 'u connection \<Rightarrow> bool" where
  "send_frame c c' \<longleftrightarrow>
     sock c' = sock c \<and> user_data c' = user_data c \<and> in_buf c' = in_buf c \<and>
     closed c' = closed c \<and> last_activity c' = last_activity c \<and>
     rscript (ksock c') = rscript (ksock c)"

lemma send_frame_refl [simp]: "send_frame c c"
  by (simp add: send_frame_def)

lemma send_frame_trans: "send_frame a b \<Longrightarrow> send_frame b c \<Longrightarrow> send_frame a c"
  by (simp add: send_frame_def)

lemma write_frame_send: "write_frame c c' \<Longrightarrow> send_frame c c'"
  by (simp add: write_frame_def send_frame_def)

lemma toggle_write_interest_spec:
  "out_stream (toggle_write_interest c) = out_stream c"
  "queue_wf (toggle_write_interest c) \<longleftrightarrow> queue_wf c"
  "send_frame c (toggle_write_interest c)"
  "has_codec (toggle_write_interest c) = has_codec c"
  "outgoing_queue (toggle_write_interest c) = outgoing_queue c"
  "pending_bytes (toggle_write_interest c) = pending_bytes c"
  "is_reading_paused (toggle_write_interest c) = is_reading_paused c"
  "wire (ksock (toggle_write_interest c)) = wire (ksock c)"
  by (simp_all add: toggle_write_interest_def Let_def send_frame_def)

lemma toggle_write_interest_registered:
  "interest (ksock c) = Some (current_epoll_events c OR EPOLLET) \<Longrightarrow>
   interest (ksock (toggle_write_interest c)) =
     Some (current_epoll_events (toggle_write_interest c) OR EPOLLET)"
  by (simp add: toggle_write_interest_def Let_def update_epoll_interest)

lemma rearm_spec:
  "out_stream (rearm c) = out_stream c"
  "queue_wf (rearm c) \<longleftrightarrow> queue_wf c"
  "send_frame c (rearm c)"
  "outgoing_queue (rearm c) = outgoing_queue c"
  "pending_bytes (rearm c) = pending_bytes c"
  "is_reading_paused (rearm c) = is_reading_paused c"
  "wire (ksock (rearm c)) = wire (ksock c)"
  "has_event (current_epoll_events (rearm c)) EPOLLIN \<longleftrightarrow> \<not> is_reading_paused c \<and> \<not> rb_full (in_buf c)"
  by (simp_all add: rearm_def Let_def send_frame_def)

lemma rearm_interest:
  assumes "interest (ksock c) = Some (current_epoll_events c OR EPOLLET)"
  shows "interest_wf (rearm c)"
proof -
  have reg: "interest (ksock (c\<lparr>is_write_armed := b\<rparr>)) =
      Some (current_epoll_events (c\<lparr>is_write_armed := b\<rparr>) OR EPOLLET)" for b
    using assms by simp
  show ?thesis using update_epoll_interest[OF reg]
    by (simp add: interest_defs rearm_def Let_def)
qed

section \<open>SendPreEncoded\<close>

text \<open>The state just before the write attempt: the packet queued, the high water mark checked.\<close>

definition enqueue_packet :: "byte list \<Rightarrow> 'u connection \<Rightarrow> 'u connection" where
  "enqueue_packet packet c =
     (let c1 = c\<lparr>outgoing_queue := outgoing_queue c @ [\<lparr>payload = packet, sent_offset = 0\<rparr>],
                 pending_bytes := pending_bytes c + length packet\<rparr>
      in if \<not> is_reading_paused c1 \<and> pending_bytes c1 \<ge> HIGH_WATER_MARK
         then c1\<lparr>is_reading_paused := True\<rparr> else c1)"

lemma enqueue_packet_spec:
  "out_stream (enqueue_packet packet c) = out_stream c @ packet"
  "queue_wf c \<Longrightarrow> queue_wf (enqueue_packet packet c)"
  "send_frame c (enqueue_packet packet c)"
  "ksock (enqueue_packet packet c) = ksock c"
  "current_epoll_events (enqueue_packet packet c) = current_epoll_events c"
  "is_write_armed (enqueue_packet packet c) = is_write_armed c"
  "has_codec (enqueue_packet packet c) = has_codec c"
  by (auto simp: enqueue_packet_def Let_def out_stream_def queue_wf_def pkt_ok_def remaining_def
      send_frame_def)

lemma send_pre_encoded_cases:
  assumes "send_pre_encoded packet m c = (m', c')"
  obtains (is_closed) "closed c" "m' = m" "c' = c"
  | (attempted) fatal c1 where "\<not> closed c" "attempt_write m (enqueue_packet packet c) = (fatal, m', c1)"
      "c' = rearm (toggle_write_interest c1)"
  | (batched) "\<not> closed c" "m' = m" "c' = rearm (enqueue_packet packet c)"
proof (cases "closed c")
  case True
  show ?thesis by (rule is_closed) (use assms True in \<open>simp_all add: send_pre_encoded_def\<close>)
next
  case False
  let ?c2 = "enqueue_packet packet c"
  have armed: "is_write_armed ?c2 = is_write_armed c" by (simp add: enqueue_packet_spec)
  have eq: "send_pre_encoded packet m c =
    (let (m3, c3) = (if pending_bytes ?c2 > BATCH_FLUSH_THRESHOLD \<or> is_write_armed ?c2 \<or>
         (outgoing_queue c = [] \<and> \<not> is_write_armed c)
       then case attempt_write m ?c2 of (_, m', c') \<Rightarrow> (m', toggle_write_interest c') else (m, ?c2))
     in (m3, rearm c3))"
    using False by (simp add: send_pre_encoded_def enqueue_packet_def Let_def)
  obtain fatal m1 c1 where a: "attempt_write m ?c2 = (fatal, m1, c1)" by (metis prod_cases3)
  show ?thesis
  proof (cases "pending_bytes ?c2 > BATCH_FLUSH_THRESHOLD \<or> is_write_armed ?c2 \<or>
      (outgoing_queue c = [] \<and> \<not> is_write_armed c)")
    case True
    show ?thesis by (rule attempted[of fatal c1]) (use assms False eq True a in simp_all)
  next
    case no: False
    show ?thesis by (rule batched) (use assms False eq no in simp_all)
  qed
qed

lemma send_pre_encoded_spec:
  assumes "send_pre_encoded packet m c = (m', c')"
  shows "send_frame c c' \<and> closed_balance m' = closed_balance m \<and>
    out_stream c' = (if closed c then out_stream c else out_stream c @ packet) \<and>
    (\<exists>w. wire (ksock c') = wire (ksock c) @ w \<and> bytes_sent m' = bytes_sent m + word_of_nat (length w)) \<and>
    (conn_wf c \<longrightarrow> conn_wf c') \<and>
    (\<not> closed c \<longrightarrow> (has_event (current_epoll_events c') EPOLLIN \<longleftrightarrow>
       \<not> is_reading_paused c' \<and> \<not> rb_full (in_buf c')))"
  using assms
proof (cases rule: send_pre_encoded_cases)
  case (attempted fatal c1)
  let ?c2 = "enqueue_packet packet c" and ?t = "toggle_write_interest c1"
  note aw = attempt_write_progress[OF attempted(2)]
  note specs = enqueue_packet_spec[where packet = packet and c = c] toggle_write_interest_spec[of c1] rearm_spec[of ?t]
  have frame: "send_frame c c'"
    using aw specs attempted(3) by (metis send_frame_trans write_frame_send)
  have "interest_wf c'" if "interest_wf c"
  proof -
    have "interest (ksock c1) = Some (current_epoll_events c1 OR EPOLLET)"
      using that aw specs by (simp add: interest_defs write_frame_def)
    then show ?thesis using attempted(3) rearm_interest toggle_write_interest_registered by blast
  qed
  moreover have "queue_wf c'" if "queue_wf c" using that aw specs attempted(3) by metis
  moreover have "in_buf c' = in_buf c" "closed c' = closed c" using frame by (simp_all add: send_frame_def)
  moreover have "out_stream c' = out_stream c @ packet" using aw specs attempted(3) by simp
  moreover have "in_buf ?t = in_buf c'" using attempted(3) specs by (simp add: send_frame_def)
  ultimately show ?thesis using frame aw specs attempted(1,3) by (simp add: conn_wf_def)
next
  case batched
  let ?c2 = "enqueue_packet packet c"
  note specs = enqueue_packet_spec[where packet = packet and c = c] rearm_spec[of ?c2]
  have frame: "send_frame c c'" using specs batched(3) by (metis send_frame_trans)
  have "interest_wf c'" if "interest_wf c"
    unfolding batched(3)
    by (rule rearm_interest) (use that specs in \<open>simp add: interest_defs\<close>)
  moreover have "in_buf c' = in_buf c" "closed c' = closed c" "in_buf ?c2 = in_buf c"
    using frame specs by (simp_all add: send_frame_def)
  ultimately show ?thesis using frame specs batched by (simp add: conn_wf_def)
qed (simp add: send_frame_def)

section \<open>The timer flush, the write handler, the broadcast tasks\<close>

text \<open>What one writing operation promises about the connection it works on.\<close>

definition sends ::
  "byte list \<Rightarrow> server_metrics \<Rightarrow> 'u connection \<Rightarrow> server_metrics \<Rightarrow> 'u connection \<Rightarrow> bool" where
  "sends bs m c m' c' \<longleftrightarrow>
     send_frame c c' \<and> closed_balance m' = closed_balance m \<and> out_stream c' = out_stream c @ bs \<and>
     (\<exists>w. wire (ksock c') = wire (ksock c) @ w) \<and> (conn_wf c \<longrightarrow> conn_wf c')"

lemma sends_refl: "sends [] m c m c"
  by (simp add: sends_def)

lemma sends_trans: "sends a m c m1 c1 \<Longrightarrow> sends b m1 c1 m2 c2 \<Longrightarrow> sends (a @ b) m c m2 c2"
  by (auto simp: sends_def intro: send_frame_trans)

lemma sends_send_pre_encoded:
  "send_pre_encoded packet m c = (m', c') \<Longrightarrow> sends (if closed c then [] else packet) m c m' c'"
  using send_pre_encoded_spec[of packet m c m' c'] by (auto simp: sends_def)

lemma write_and_arm_spec:
  assumes "write_and_arm m c = (m', c')"
  shows "send_frame c c' \<and> closed_balance m' = closed_balance m \<and> out_stream c' = out_stream c \<and>
    (\<exists>w. wire (ksock c') = wire (ksock c) @ w) \<and> (queue_wf c \<longrightarrow> queue_wf c') \<and>
    (interest_sync c \<longrightarrow> interest_wf c')"
proof -
  obtain fatal c1 where a: "attempt_write m c = (fatal, m', c1)"
    and c': "c' = (if outgoing_queue c1 \<noteq> [] \<and> \<not> is_write_armed c1
       then (update_epoll_events (current_epoll_events c1 OR EPOLLOUT) c1)\<lparr>is_write_armed := True\<rparr> else c1)"
    using assms by (auto simp: write_and_arm_def split: prod.splits)
  note aw = attempt_write_progress[OF a]
  have "interest_wf c'" if "interest_sync c"
  proof -
    have c1: "is_write_armed c1 = has_event (current_epoll_events c1) EPOLLOUT"
      "interest (ksock c1) = Some (current_epoll_events c1 OR EPOLLET)"
      using that aw by (simp_all add: interest_defs write_frame_def)
    from update_epoll_interest[OF c1(2)] c1 show ?thesis
      unfolding c' by (simp add: interest_defs)
  qed
  moreover have "send_frame c1 c'" "out_stream c' = out_stream c1" "queue_wf c' = queue_wf c1"
    "wire (ksock c') = wire (ksock c1)"
    unfolding c' by (simp_all add: send_frame_def)
  moreover have "send_frame c c1" using aw by (simp add: write_frame_send)
  ultimately show ?thesis using aw by (auto intro: send_frame_trans)
qed

lemma write_and_arm_sends:
  assumes "write_and_arm m c = (m', c')"
  shows "sends [] m c m' c'"
  using write_and_arm_spec[OF assms]
  by (auto simp: sends_def conn_wf_def send_frame_def interest_wf_def)

lemma flush_conn_sends:
  assumes "flush_conn owns_lock m c = (m', c')"
  shows "sends [] m c m' c'"
  using assms write_and_arm_sends[of m c m' c'] sends_refl
  by (auto simp: flush_conn_def split: if_splits)

lemma handle_write_conn_spec:
  assumes "handle_write_conn m c = (should_close, m', c')"
  shows "send_frame c c' \<and> closed_balance m' = closed_balance m \<and> out_stream c' = out_stream c \<and>
    (\<exists>w. wire (ksock c') = wire (ksock c) @ w) \<and> (queue_wf c \<longrightarrow> queue_wf c') \<and>
    (\<not> should_close \<and> conn_wf c \<longrightarrow> conn_wf c') \<and>
    (\<not> should_close \<longrightarrow> (has_event (current_epoll_events c') EPOLLIN \<longleftrightarrow>
       \<not> is_reading_paused c' \<and> \<not> rb_full (in_buf c')))"
proof -
  obtain c1 where a: "attempt_write m c = (should_close, m', c1)"
    and c': "c' = (if should_close then c1\<lparr>is_write_armed := (outgoing_queue c1 \<noteq> [])\<rparr> else rearm c1)"
    using assms
    by (auto simp: handle_write_conn_def rearm_def Let_def or.commute or.assoc split: prod.splits if_splits)
  note aw = attempt_write_progress[OF a]
  have "interest_wf c'" if "interest_wf c" "\<not> should_close"
    unfolding c' using that(2)
    by (simp, intro rearm_interest) (use that(1) aw in \<open>simp add: interest_defs write_frame_def\<close>)
  moreover have "send_frame c1 c'" "out_stream c' = out_stream c1" "queue_wf c' = queue_wf c1"
    "wire (ksock c') = wire (ksock c1)"
    unfolding c' by (auto simp: rearm_spec) (simp add: send_frame_def)
  moreover have "send_frame c c1" using aw by (simp add: write_frame_send)
  moreover have "\<not> should_close \<Longrightarrow> has_event (current_epoll_events c') EPOLLIN \<longleftrightarrow>
       \<not> is_reading_paused c' \<and> \<not> rb_full (in_buf c')"
    using c' rearm_spec(3,6,8)[of c1] by (simp add: send_frame_def)
  ultimately show ?thesis using aw
    by (auto simp: conn_wf_def send_frame_def)
qed

text \<open>The packets a broadcast adds: those not excluded, up to the queue limit.\<close>

definition accepted_broadcasts :: "broadcast_event list \<Rightarrow> 'u connection \<Rightarrow> broadcast_event list" where
  "accepted_broadcasts evts c =
     take (MAX_OUTGOING_QUEUE_SIZE - length (outgoing_queue c))
       (filter (\<lambda>evt. sender_fd evt = -1 \<or> sock c \<noteq> sender_fd evt) evts)"

lemma enqueue_broadcasts_spec:
  assumes "enqueue_broadcasts evts b m c = (added, m', c')"
  shows "outgoing_queue c' = outgoing_queue c @
      map (\<lambda>evt. \<lparr>payload = bpayload evt, sent_offset = 0\<rparr>) (accepted_broadcasts evts c)"
    and "c' = c\<lparr>outgoing_queue := outgoing_queue c', pending_bytes :=
      pending_bytes c + length (concat (map bpayload (accepted_broadcasts evts c)))\<rparr>"
    and "added \<longleftrightarrow> b \<or> accepted_broadcasts evts c \<noteq> []"
    and "closed_balance m' = closed_balance m"
proof -
  have "outgoing_queue c' = outgoing_queue c @
      map (\<lambda>evt. \<lparr>payload = bpayload evt, sent_offset = 0\<rparr>) (accepted_broadcasts evts c) \<and>
    c' = c\<lparr>outgoing_queue := outgoing_queue c', pending_bytes :=
      pending_bytes c + length (concat (map bpayload (accepted_broadcasts evts c)))\<rparr> \<and>
    (added \<longleftrightarrow> b \<or> accepted_broadcasts evts c \<noteq> []) \<and> closed_balance m' = closed_balance m"
    using assms
  proof (induction evts b m c rule: enqueue_broadcasts.induct)
    case (2 evt evts b m c)
    show ?case
    proof (cases "sender_fd evt \<noteq> -1 \<and> sock c = sender_fd evt")
      case True
      then have acc: "accepted_broadcasts (evt # evts) c = accepted_broadcasts evts c"
        by (simp add: accepted_broadcasts_def)
      from True "2.prems" have "enqueue_broadcasts evts b m c = (added, m', c')" by simp
      from "2.IH"(1)[OF True this] show ?thesis unfolding acc .
    next
      case False
      show ?thesis
      proof (cases "length (outgoing_queue c) \<ge> MAX_OUTGOING_QUEUE_SIZE")
        case True
        with False "2.prems" show ?thesis by (auto simp: accepted_broadcasts_def)
      next
        case room: False
        let ?c = "c\<lparr>outgoing_queue := outgoing_queue c @ [\<lparr>payload = bpayload evt, sent_offset = 0\<rparr>],
                pending_bytes := pending_bytes c + length (bpayload evt)\<rparr>"
        have acc: "accepted_broadcasts (evt # evts) c = evt # accepted_broadcasts evts ?c"
          using False room by (auto simp: accepted_broadcasts_def take_Cons' Suc_diff_Suc[symmetric]
              simp flip: diff_Suc_eq_diff_pred)
        from False room "2.prems" have rec: "enqueue_broadcasts evts True m ?c = (added, m', c')" by auto
        from "2.IH"(2)[OF False room rec] show ?thesis
          unfolding acc by (cases c') (auto simp: add.assoc)
      qed
    qed
  qed (auto simp: accepted_broadcasts_def)
  then show "outgoing_queue c' = outgoing_queue c @
      map (\<lambda>evt. \<lparr>payload = bpayload evt, sent_offset = 0\<rparr>) (accepted_broadcasts evts c)"
    and "c' = c\<lparr>outgoing_queue := outgoing_queue c', pending_bytes :=
      pending_bytes c + length (concat (map bpayload (accepted_broadcasts evts c)))\<rparr>"
    and "added \<longleftrightarrow> b \<or> accepted_broadcasts evts c \<noteq> []"
    and "closed_balance m' = closed_balance m" by blast+
qed

text \<open>The connection after queueing the accepted packets and the high water check.\<close>

lemma deliver_conn_sends:
  assumes "deliver_conn evts m c = (m', c')"
  shows "sends (if closed c then [] else concat (map bpayload (accepted_broadcasts evts c))) m c m' c'"
proof (cases "closed c")
  case True
  with assms sends_refl show ?thesis by (simp add: deliver_conn_def)
next
  case False
  let ?acc = "accepted_broadcasts evts c"
  obtain added m1 c1 where e: "enqueue_broadcasts evts False m (c\<lparr>has_codec := True\<rparr>) = (added, m1, c1)"
    by (metis prod_cases3)
  have acc: "accepted_broadcasts evts (c\<lparr>has_codec := True\<rparr>) = ?acc"
    by (simp add: accepted_broadcasts_def)
  note enq = enqueue_broadcasts_spec[OF e, unfolded acc]
  have bytes: "queue_bytes (outgoing_queue c1) = queue_bytes (outgoing_queue c) @ concat (map bpayload ?acc)"
    using enq(1) by (simp add: queue_bytes_def remaining_def comp_def)
  have ok: "list_all pkt_ok (map (\<lambda>evt. \<lparr>payload = bpayload evt, sent_offset = 0\<rparr>) es)" for es
    by (induction es) (simp_all add: pkt_ok_def)
  have fields: "ksock c1 = ksock c" "in_buf c1 = in_buf c" "closed c1 = closed c" "sock c1 = sock c"
    "user_data c1 = user_data c" "last_activity c1 = last_activity c"
    "current_epoll_events c1 = current_epoll_events c" "is_write_armed c1 = is_write_armed c"
    "pending_bytes c1 = pending_bytes c + length (concat (map bpayload ?acc))"
    by (subst enq(2), simp)+
  have q: "queue_wf c1" if "queue_wf c"
    using that fields bytes enq(1) ok by (simp add: queue_wf_def)
  show ?thesis
  proof (cases added)
    case False
    then have "?acc = []" using enq(3) by simp
    with False assms e \<open>\<not> closed c\<close> enq q fields show ?thesis
      by (auto simp: deliver_conn_def sends_def send_frame_def out_stream_def conn_wf_def interest_defs)
  next
    case True
    let ?c2 = "if \<not> is_reading_paused c1 \<and> pending_bytes c1 \<ge> HIGH_WATER_MARK
       then c1\<lparr>is_reading_paused := True\<rparr> else c1"
    have "write_and_arm m1 ?c2 = (m', c')"
      using assms e True \<open>\<not> closed c\<close> by (simp add: deliver_conn_def)
    note fin = write_and_arm_spec[OF this]
    have c2: "send_frame c ?c2" "out_stream ?c2 = out_stream c @ concat (map bpayload ?acc)"
      "wire (ksock ?c2) = wire (ksock c)"
      using fields bytes by (auto simp: send_frame_def out_stream_def)
    moreover have "conn_wf c'" if "conn_wf c"
    proof -
      have "queue_wf ?c2" "interest_sync ?c2"
        using that q fields \<open>\<not> closed c\<close> by (simp_all add: conn_wf_def interest_defs)
      moreover have "in_buf c' = in_buf c" using fin c2(1) by (simp add: send_frame_def)
      ultimately show ?thesis using that fin by (simp add: conn_wf_def)
    qed
    ultimately show ?thesis using fin enq(4) \<open>\<not> closed c\<close>
      by (auto simp: sends_def intro: send_frame_trans)
  qed
qed

section \<open>Properties\<close>

definition registered_connection :: "write_result list \<Rightarrow> unit connection" where
  "registered_connection ws =
     (add_fd_to_epoll EPOLLIN (new_connection 5 0 \<lparr>interest = None, wire = [], wscript = ws, rscript = []\<rparr>))
       \<lparr>current_epoll_events := EPOLLIN\<rparr>"

lemma conn_wf_armed:
  "conn_wf c \<Longrightarrow> \<not> closed c \<Longrightarrow> outgoing_queue c \<noteq> [] \<Longrightarrow>
   interest (ksock c) = Some (current_epoll_events c OR EPOLLET) \<and> has_event (current_epoll_events c) EPOLLOUT"
  by (auto simp: conn_wf_def interest_defs)

lemma registered_connection_wf: "conn_wf (registered_connection ws)"
  by (simp add: conn_wf_def rb_wf_new queue_wf_def interest_defs registered_connection_def
      add_fd_to_epoll_def new_connection_def)

text \<open>Sending a packet on an open connection appends exactly its bytes to the stream of the
  peer, whatever the kernel does with the write attempts; afterwards the connection is well
  formed, so that queued bytes have EPOLLOUT registered and can never be stuck, and EPOLLIN is
  registered exactly when reading is neither paused nor blocked by a full ring. On a closed
  connection nothing happens.\<close>

theorem send_pre_encoded_appends:
  assumes "conn_wf c" "send_pre_encoded packet m c = (m', c')"
  shows "conn_wf c' \<and> (closed c \<longrightarrow> c' = c \<and> m' = m) \<and>
    (\<not> closed c \<longrightarrow> out_stream c' = out_stream c @ packet \<and> \<not> closed c' \<and>
       pending_bytes c' + length (wire (ksock c')) = pending_bytes c + length (wire (ksock c)) + length packet \<and>
       (outgoing_queue c' \<noteq> [] \<longrightarrow> interest (ksock c') = Some (current_epoll_events c' OR EPOLLET) \<and>
          has_event (current_epoll_events c') EPOLLOUT) \<and>
       (has_event (current_epoll_events c') EPOLLIN \<longleftrightarrow> \<not> is_reading_paused c' \<and> \<not> rb_full (in_buf c')))"
proof (cases "closed c")
  case True
  with assms show ?thesis by (simp add: send_pre_encoded_def)
next
  case False
  note s = send_pre_encoded_spec[OF assms(2)]
  have wf: "conn_wf c'" "\<not> closed c'" "out_stream c' = out_stream c @ packet"
    using s assms(1) False by (simp_all add: send_frame_def)
  moreover have "pending_bytes c' + length (wire (ksock c')) =
      pending_bytes c + length (wire (ksock c)) + length packet"
  proof -
    have "length (out_stream c') = length (out_stream c) + length packet" using wf(3) by simp
    then show ?thesis using wf(1) assms(1) by (simp add: conn_wf_def queue_wf_def out_stream_def)
  qed
  moreover note conn_wf_armed[OF wf(1,2)]
  ultimately show ?thesis using s False by simp
qed

theorem send_pre_encoded_appends_witness:
  "\<exists>m' c'. send_pre_encoded [1, 2] metrics_init (registered_connection [Wrote 1]) = (m', c') \<and>
     out_stream c' = [1, 2] \<and> conn_wf c'"
proof -
  obtain m' c' where s: "send_pre_encoded [1, 2] metrics_init (registered_connection [Wrote 1]) = (m', c')" by force
  from send_pre_encoded_appends[OF registered_connection_wf s] s show ?thesis
    by (simp add: registered_connection_def add_fd_to_epoll_def new_connection_def out_stream_def)
qed

text \<open>The write handler either asks for the connection to be closed, or leaves it well formed
  with interest masks that match its queue and its reading state; it never touches the stream.\<close>

theorem handle_write_rearms:
  assumes "conn_wf c" "handle_write_conn m c = (should_close, m', c')"
  shows "out_stream c' = out_stream c \<and> queue_wf c' \<and> (should_close \<longrightarrow> outgoing_queue c' \<noteq> []) \<and>
    (\<not> should_close \<longrightarrow> conn_wf c' \<and>
       (has_event (current_epoll_events c') EPOLLIN \<longleftrightarrow> \<not> is_reading_paused c' \<and> \<not> rb_full (in_buf c')))"
proof -
  obtain m1 c1 where a: "attempt_write m c = (should_close, m1, c1)" "outgoing_queue c' = outgoing_queue c1"
    using assms(2) by (auto simp: handle_write_conn_def Let_def split: prod.splits if_splits)
  show ?thesis using handle_write_conn_spec[OF assms(2)] attempt_write_exit[OF a(1)] assms(1) a(2)
    by (simp add: conn_wf_def)
qed

theorem handle_write_rearms_witness:
  "\<exists>should_close m' c'. handle_write_conn metrics_init (registered_connection [WError]) = (should_close, m', c') \<and>
     out_stream c' = []"
proof -
  obtain cl m' c' where h: "handle_write_conn metrics_init (registered_connection [WError]) = (cl, m', c')"
    by (metis prod_cases3)
  from handle_write_rearms[OF registered_connection_wf h] h show ?thesis
    by (simp add: registered_connection_def add_fd_to_epoll_def new_connection_def out_stream_def)
qed

text \<open>Delivering a batch of broadcasts to an open connection appends, in order, the payloads of
  those it did not send itself, as many as fit below the queue limit, and keeps the connection
  well formed; the queue never exceeds the limit on the way.\<close>

theorem deliver_conn_appends:
  assumes "conn_wf c" "\<not> closed c" "deliver_conn evts m c = (m', c')"
  shows "conn_wf c' \<and> out_stream c' = out_stream c @ concat (map bpayload
      (take (MAX_OUTGOING_QUEUE_SIZE - length (outgoing_queue c))
        (filter (\<lambda>evt. sender_fd evt = -1 \<or> sock c \<noteq> sender_fd evt) evts))) \<and>
    (\<forall>added m1 c1. enqueue_broadcasts evts False m c = (added, m1, c1) \<longrightarrow>
       length (outgoing_queue c1) \<le> max MAX_OUTGOING_QUEUE_SIZE (length (outgoing_queue c)))"
proof -
  have "length (outgoing_queue c1) \<le> max MAX_OUTGOING_QUEUE_SIZE (length (outgoing_queue c))"
    if "enqueue_broadcasts evts False m c = (added, m1, c1)" for added m1 c1
    using enqueue_broadcasts_spec(1)[OF that] by (simp add: accepted_broadcasts_def)
  then show ?thesis using deliver_conn_sends[OF assms(3)] assms(1,2)
    by (auto simp: sends_def accepted_broadcasts_def)
qed

theorem deliver_conn_appends_witness:
  "\<exists>m' c'. deliver_conn [\<lparr>sender_fd = 5, bpayload = [1]\<rparr>, \<lparr>sender_fd = -1, bpayload = [2, 3]\<rparr>]
       metrics_init (registered_connection []) = (m', c') \<and> out_stream c' = [2, 3]"
proof -
  let ?evts = "[\<lparr>sender_fd = 5, bpayload = [1]\<rparr>, \<lparr>sender_fd = -1, bpayload = [2, 3]\<rparr>]"
  obtain m' c' where d: "deliver_conn ?evts metrics_init (registered_connection []) = (m', c')" by force
  have "\<not> closed (registered_connection [])"
    by (simp add: registered_connection_def add_fd_to_epoll_def new_connection_def)
  from deliver_conn_appends[OF registered_connection_wf this d] d show ?thesis
    by (simp add: registered_connection_def add_fd_to_epoll_def new_connection_def out_stream_def MAX_OUTGOING_QUEUE_SIZE_def)
qed

end
