(* ===== verification/Reading.thy ===== *)
theory Reading
  imports Sending
begin

text \<open>
  The read loop of \<open>WebServer::handle_read\<close> (\<open>v4/webserver.cpp\<close>): read into the free
  space of the ring until the kernel has no more, and decode after every read. The result
  is \<open>should_close\<close>, the payloads pushed as MESSAGE events in order, and the new state.
  The clock is read once per call (\<open>now\<close>).
\<close>

section \<open>The loop\<close>

text \<open>
  \<open>readv\<close>: the kernel hands over at most the room of the iovecs and keeps the rest; zero
  bytes is end of file.
\<close>

definition keep_unread :: "byte list \<Rightarrow> read_result list \<Rightarrow> read_result list" where
  "keep_unread left rs = (if left = [] then rs else Bytes left # rs)"

fun read_size :: "read_result list \<Rightarrow> nat" where
  "read_size [] = 0"
| "read_size (Bytes bs # rs) = Suc (length bs) + read_size rs"
| "read_size (_ # rs) = Suc (read_size rs)"

function read_loop ::
  "nat \<Rightarrow> server_metrics \<Rightarrow> 'u connection \<Rightarrow> bool \<times> byte list list \<times> server_metrics \<times> 'u connection" where
  "read_loop now m c =
     (let iovecs = rb_writeable_iovecs (in_buf c)
      in if iovecs = [] then (True, [], m, c)
         else case rscript (ksock c) of
             [] \<Rightarrow> (False, [], m, c)
           | RAgain # rs \<Rightarrow> (False, [], m, c\<lparr>ksock := (ksock c)\<lparr>rscript := rs\<rparr>\<rparr>)
           | RError # rs \<Rightarrow> (True, [], m, c\<lparr>ksock := (ksock c)\<lparr>rscript := rs\<rparr>\<rparr>)
           | Bytes bs # rs \<Rightarrow>
               (let got = take (iov_total iovecs) bs;
                    c1 = c\<lparr>ksock := (ksock c)\<lparr>rscript := keep_unread (drop (iov_total iovecs) bs) rs\<rparr>\<rparr>
                in if got = [] then (True, [], m, c1)
                   else let c2 = update_activity now (c1\<lparr>in_buf := rb_readv got (in_buf c1)\<rparr>);
                            m1 = on_bytes_received (length got) m;
                            (msgs, buf) = packet_drain (in_buf c2);
                            m2 = (on_message_received ^^ length msgs) m1;
                            (should_close, msgs', m', c') =
                              read_loop now m2 (c2\<lparr>has_codec := True, in_buf := buf\<rparr>)
                        in (should_close, msgs @ msgs', m', c')))"
  by pat_completeness auto
termination
  by (relation "measure (\<lambda>(now, m, c). read_size (rscript (ksock c)))")
    (auto simp: keep_unread_def update_activity_def)

declare read_loop.simps [simp del]

section \<open>One round of the loop\<close>

definition set_rscript :: "read_result list \<Rightarrow> 'u connection \<Rightarrow> 'u connection" where
  "set_rscript rs c = c\<lparr>ksock := (ksock c)\<lparr>rscript := rs\<rparr>\<rparr>"

definition take_in :: "nat \<Rightarrow> byte list \<Rightarrow> 'u connection \<Rightarrow> 'u connection" where
  "take_in now got c = c\<lparr>last_activity := now, has_codec := True,
     in_buf := snd (packet_drain (rb_readv got (in_buf c)))\<rparr>"

definition taken_msgs :: "byte list \<Rightarrow> 'u connection \<Rightarrow> byte list list" where
  "taken_msgs got c = fst (packet_drain (rb_readv got (in_buf c)))"

definition count_in :: "nat \<Rightarrow> nat \<Rightarrow> server_metrics \<Rightarrow> server_metrics" where
  "count_in msgs n m = (on_message_received ^^ msgs) (on_bytes_received n m)"

lemma iovs_room: "iov_total (rb_writeable_iovecs rb) = rb_room rb"
  by (simp add: iov_total_writeable rb_room_def)

lemma iovs_Nil_room: "rb_writeable_iovecs rb = [] \<longleftrightarrow> rb_room rb = 0"
  by (simp add: rb_writeable_iovecs_def Let_def rb_room_def)

lemma read_loop_full: "rb_room (in_buf c) = 0 \<Longrightarrow> read_loop now m c = (True, [], m, c)"
  by (simp add: read_loop.simps[of now m c] Let_def iovs_Nil_room)

lemma read_loop_end:
  assumes "0 < rb_room (in_buf c)"
  shows "rscript (ksock c) = [] \<Longrightarrow> read_loop now m c = (False, [], m, c)"
    and "rscript (ksock c) = RAgain # rs \<Longrightarrow> read_loop now m c = (False, [], m, set_rscript rs c)"
    and "rscript (ksock c) = RError # rs \<Longrightarrow> read_loop now m c = (True, [], m, set_rscript rs c)"
    and "rscript (ksock c) = Bytes [] # rs \<Longrightarrow> read_loop now m c = (True, [], m, set_rscript rs c)"
  using assms
  by (simp_all add: read_loop.simps[of now m c] Let_def iovs_Nil_room set_rscript_def keep_unread_def)

lemma read_loop_data:
  assumes "0 < rb_room (in_buf c)" "rscript (ksock c) = Bytes bs # rs" "bs \<noteq> []"
  defines "got \<equiv> take (rb_room (in_buf c)) bs"
  defines "left \<equiv> keep_unread (drop (rb_room (in_buf c)) bs) rs"
  shows "read_loop now m c =
    (let (cl, msgs, m', c') = read_loop now (count_in (length (taken_msgs got c)) (length got) m)
                                 (take_in now got (set_rscript left c))
     in (cl, taken_msgs got c @ msgs, m', c'))"
proof -
  have ne: "got \<noteq> []" using assms by (cases bs) auto
  show ?thesis using assms(1,2) ne
    apply (subst read_loop.simps)
    apply (simp add: Let_def iovs_Nil_room iovs_room got_def[symmetric] left_def[symmetric])
    by (simp add: take_in_def taken_msgs_def count_in_def set_rscript_def update_activity_def
        split: prod.splits)
qed

text \<open>A reached end of the loop, for any property that its rounds keep.\<close>

lemma read_loop_invariant [consumes 2, case_names script data]:
  assumes "P m c" and "read_loop now m c = (cl, msgs, m', c')"
    and script: "\<And>m c rs. P m c \<Longrightarrow> P m (set_rscript rs c)"
    and data: "\<And>m c got n. P m c \<Longrightarrow> length got \<le> rb_room (in_buf c) \<Longrightarrow>
      P (count_in n (length got) m) (take_in now got c)"
  shows "P m' c'"
  using assms(1,2)
proof (induction "read_size (rscript (ksock c))" arbitrary: m c msgs rule: less_induct)
  case less
  consider (full) "rb_room (in_buf c) = 0"
    | (last) "0 < rb_room (in_buf c)" "rscript (ksock c) = [] \<or>
        (\<exists>rs. rscript (ksock c) \<in> {RAgain # rs, RError # rs, Bytes [] # rs})"
    | (more) bs rs where "0 < rb_room (in_buf c)" "rscript (ksock c) = Bytes bs # rs" "bs \<noteq> []"
    by (cases "rscript (ksock c)"; cases "hd (rscript (ksock c))"; cases "rb_room (in_buf c)") auto
  then show ?case
  proof cases
    case full
    with less.prems show ?thesis by (simp add: read_loop_full)
  next
    case last
    with less.prems script read_loop_end[OF last(1)] show ?thesis by auto
  next
    case more
    define got left where "got = take (rb_room (in_buf c)) bs"
      "left = keep_unread (drop (rb_room (in_buf c)) bs) rs"
    let ?c = "take_in now got (set_rscript left c)"
      and ?m = "count_in (length (taken_msgs got c)) (length got) m"
    obtain msgs' where r: "read_loop now ?m ?c = (cl, msgs', m', c')"
      using less.prems(2) read_loop_data[OF more, of now m]
      by (auto simp: got_left_def Let_def split: prod.splits)
    have "P m (set_rscript left c)" using less.prems(1) by (rule script)
    moreover have "length got \<le> rb_room (in_buf (set_rscript left c))"
      by (simp add: got_left_def set_rscript_def)
    ultimately have "P ?m ?c" by (rule data)
    moreover have "read_size (rscript (ksock ?c)) < read_size (rscript (ksock c))"
      using more by (cases bs) (auto simp: take_in_def set_rscript_def got_left_def keep_unread_def)
    ultimately show ?thesis using less.hyps r by blast
  qed
qed

definition read_frame :: "'u connection \<Rightarrow> 'u connection \<Rightarrow> bool" where
  "read_frame c c' \<longleftrightarrow>
     sock c' = sock c \<and> user_data c' = user_data c \<and> outgoing_queue c' = outgoing_queue c \<and>
     pending_bytes c' = pending_bytes c \<and> closed c' = closed c \<and>
     current_epoll_events c' = current_epoll_events c \<and> is_write_armed c' = is_write_armed c \<and>
     is_reading_paused c' = is_reading_paused c \<and> interest (ksock c') = interest (ksock c) \<and>
     wire (ksock c') = wire (ksock c) \<and> wscript (ksock c') = wscript (ksock c)"

lemma read_frame_derived:
  assumes "read_frame c c'"
  shows "out_stream c' = out_stream c" "queue_wf c' \<longleftrightarrow> queue_wf c" "interest_wf c' \<longleftrightarrow> interest_wf c"
  using assms by (simp_all add: read_frame_def out_stream_def queue_wf_def interest_defs)

lemma count_in_balance [simp]: "closed_balance (count_in k n m) = closed_balance m"
proof -
  have "closed_balance ((on_message_received ^^ k) m') = closed_balance m'" for m'
    by (induction k) simp_all
  then show ?thesis by (simp add: count_in_def)
qed

lemma read_loop_spec:
  assumes "read_loop now m c = (cl, msgs, m', c')" "rb_wf (in_buf c)"
  shows "read_frame c c' \<and> rb_wf (in_buf c') \<and> rb_capacity (in_buf c') = rb_capacity (in_buf c) \<and>
    closed_balance m' = closed_balance m"
proof -
  let ?P = "\<lambda>m1 c1. read_frame c c1 \<and> rb_wf (in_buf c1) \<and>
    rb_capacity (in_buf c1) = rb_capacity (in_buf c) \<and> closed_balance m1 = closed_balance m"
  have "?P m c" using assms(2) by (simp add: read_frame_def)
  then show ?thesis using assms(1)
  proof (rule read_loop_invariant[where P = ?P])
    fix m1 c1 n and got :: "byte list" assume P: "?P m1 c1" and len: "length got \<le> rb_room (in_buf c1)"
    then have "rb_wf (rb_readv got (in_buf c1))"
      "rb_capacity (rb_readv got (in_buf c1)) = rb_capacity (in_buf c1)"
      by (simp_all add: ring.put_wf rb_capacity_readv)
    then show "?P (count_in n (length got) m1) (take_in now got c1)"
      using P packet_drain_spec(3,4) by (simp add: take_in_def read_frame_def)
  qed (auto simp: set_rscript_def read_frame_def)
qed

lemma read_loop_conn_wf:
  assumes "read_loop now m c = (cl, msgs, m', c')" "conn_wf c"
  shows "conn_wf c'"
  using read_loop_spec[OF assms(1)] assms(2) read_frame_derived[of c c']
  by (auto simp: conn_wf_def read_frame_def)

section \<open>Reassembly\<close>

definition data_only :: "read_result list \<Rightarrow> bool" where
  "data_only rs \<longleftrightarrow> list_all (\<lambda>r. case r of Bytes bs \<Rightarrow> bs \<noteq> [] | _ \<Rightarrow> False) rs"

fun incoming :: "read_result list \<Rightarrow> byte list" where
  "incoming (Bytes bs # rs) = bs @ incoming rs"
| "incoming _ = []"

definition fits :: "nat \<Rightarrow> byte list \<Rightarrow> bool" where
  "fits capacity m \<longleftrightarrow> packet_ok m \<and> 4 + length m \<le> capacity"

lemma fits_packet_ok: "list_all (fits n) ms \<Longrightarrow> list_all packet_ok ms"
  by (induction ms) (simp_all add: fits_def)

lemma data_only_cases:
  assumes "data_only rs"
  obtains (none) "rs = []"
  | (data) bs rs' where "rs = Bytes bs # rs'" "bs \<noteq> []" "data_only rs'"
proof (cases rs)
  case Nil
  then show ?thesis by (rule none)
next
  case (Cons r rs')
  with assms show ?thesis by (cases r) (auto simp: data_only_def intro: data)
qed

lemma data_only_keep: "data_only rs \<Longrightarrow> data_only (keep_unread left rs)"
  by (simp add: data_only_def keep_unread_def)

lemma incoming_keep: "incoming (keep_unread left rs) = left @ incoming rs"
  by (simp add: keep_unread_def)

text \<open>One round on data, seen on the bytes.\<close>

lemma take_in_bytes:
  assumes "rb_wf (in_buf c)" "length got \<le> rb_room (in_buf c)"
  shows "taken_msgs got c = fst (parse_frames (rb_contents (in_buf c) @ got))"
    and "rb_contents (in_buf (take_in now got c)) = snd (parse_frames (rb_contents (in_buf c) @ got))"
    and "rb_wf (in_buf (take_in now got c))"
    and "rb_capacity (in_buf (take_in now got c)) = rb_capacity (in_buf c)"
  using packet_drain_spec[of "rb_readv got (in_buf c)"] assms
  by (simp_all add: taken_msgs_def take_in_def ring.put_wf ring.put_contents rb_capacity_readv)

lemma prefix_incomplete:
  assumes "list_all packet_ok todo" "part @ ys = concat (map frame todo)" "packet_split part = None"
  shows "parse_frame part = Incomplete"
proof (cases "length part < 4")
  case False
  with assms obtain m todo' where todo: "todo = m # todo'" "packet_ok m" by (cases todo) auto
  have "take 4 part = take 4 (part @ ys)" using False by simp
  also have "\<dots> = htonl_bytes (word_of_nat (length m))"
    unfolding assms(2) todo by (simp add: frame_def)
  finally have "parse_frame part \<noteq> Oversized"
    using todo(2) False by (simp add: parse_frame_def unat_word_of_len Let_def packet_ok_def)
  with assms(3) show ?thesis by (cases "parse_frame part") (auto simp: packet_split_def)
qed (simp add: parse_frame_def)

lemma incomplete_has_room:
  assumes "rb_wf rb" "list_all (fits (rb_capacity rb)) ms" "rb_contents rb @ ys = concat (map frame ms)"
    "parse_frame (rb_contents rb) = Incomplete"
  shows "0 < rb_room rb"
proof (cases ms)
  case Nil
  with assms rb_room_capacity[OF assms(1)] show ?thesis by (auto simp: rb_capacity_def rb_wf_def)
next
  case (Cons m ms')
  have "length (rb_contents rb) < length (frame m)"
  proof (rule ccontr)
    assume "\<not> ?thesis"
    moreover have "take (length (frame m)) (rb_contents rb @ ys) = frame m"
      unfolding assms(3) Cons by simp
    ultimately obtain zs where "rb_contents rb = frame m @ zs"
      by (metis append_take_drop_id not_less take_append take_0 diff_is_0_eq append_Nil2)
    moreover have "packet_ok m" using assms(2) Cons by (simp add: fits_def)
    ultimately show False using assms(4) parse_frame_frame[of m zs] by simp
  qed
  moreover have "length (frame m) \<le> rb_capacity rb"
    using assms(2) Cons by (simp add: fits_def frame_def)
  ultimately show ?thesis using rb_room_capacity[OF assms(1)] by simp
qed

lemma read_loop_reassembles:
  assumes "rb_wf (in_buf c)" "parse_frame (rb_contents (in_buf c)) = Incomplete"
    and "list_all (fits (rb_capacity (in_buf c))) ms" "data_only (rscript (ksock c))"
    and "rb_contents (in_buf c) @ incoming (rscript (ksock c)) @ future = concat (map frame ms)"
  shows "\<exists>got todo m' c'. ms = got @ todo \<and> read_loop now m c = (False, got, m', c') \<and>
    rb_contents (in_buf c') @ future = concat (map frame todo) \<and>
    parse_frame (rb_contents (in_buf c')) = Incomplete \<and> rscript (ksock c') = []"
  using assms
proof (induction "read_size (rscript (ksock c))" arbitrary: m c ms rule: less_induct)
  case less
  let ?b = "in_buf c"
  have room: "0 < rb_room ?b" using less.prems by (intro incomplete_has_room)
  from less.prems(4) show ?case
  proof (cases rule: data_only_cases)
    case none
    with less.prems room show ?thesis by (auto simp: read_loop_end)
  next
    case (data bs rs)
    define g left where "g = take (rb_room ?b) bs" "left = keep_unread (drop (rb_room ?b) bs) rs"
    note gl = this
    let ?c1 = "set_rscript left c"
    let ?c2 = "take_in now g ?c1"
    have same: "in_buf ?c1 = ?b" by (simp add: set_rscript_def)
    have len: "length g \<le> rb_room (in_buf ?c1)" unfolding same by (simp add: gl)
    have glue: "g @ drop (rb_room ?b) bs @ x = bs @ x" for x by (simp add: gl flip: append_assoc)
    note step = take_in_bytes[OF _ len, unfolded same, OF less.prems(1)]
    have bytes: "(rb_contents ?b @ g) @ incoming left @ future = concat (map frame ms)"
      using less.prems(5) data(1) by (simp add: gl(2) incoming_keep glue)
    obtain got1 todo1 part where sp: "ms = got1 @ todo1" "rb_contents ?b @ g = concat (map frame got1) @ part"
      "packet_split part = None" "part @ incoming left @ future = concat (map frame todo1)"
      using packet.prefix_encs[OF fits_packet_ok[OF less.prems(3)] bytes[symmetric]] by blast
    have ok: "list_all packet_ok got1" "list_all packet_ok todo1" "list_all (fits (rb_capacity ?b)) todo1"
      using less.prems(3) sp(1) fits_packet_ok by auto
    have inc: "parse_frame part = Incomplete" using ok(2) sp(3,4) by (intro prefix_incomplete)
    have pf: "parse_frames (rb_contents ?b @ g) = (got1, part)"
      unfolding sp(2) using ok(1) inc by (rule parse_frames_frames)
    have left2: "rscript (ksock ?c2) = left" by (simp add: take_in_def set_rscript_def)
    have "read_size left < read_size (rscript (ksock c))"
      using room data(1,2) by (cases bs) (auto simp: gl keep_unread_def)
    moreover have "data_only left" using data(3) by (simp add: gl data_only_keep)
    ultimately obtain got2 todo2 m' c' where rest: "todo1 = got2 @ todo2"
      "read_loop now (count_in (length (taken_msgs g c)) (length g) m) ?c2 = (False, got2, m', c')"
      "rb_contents (in_buf c') @ future = concat (map frame todo2)"
      "parse_frame (rb_contents (in_buf c')) = Incomplete" "rscript (ksock c') = []"
      using less.hyps[of ?c2 todo1 "count_in (length (taken_msgs g c)) (length g) m"]
        step pf inc sp(4) ok(3) left2 by auto
    have "taken_msgs g c = got1" using step(1) pf by (simp add: taken_msgs_def same)
    with rest read_loop_data[OF room data(1,2), of now m] have
      "read_loop now m c = (False, got1 @ got2, m', c')" by (simp add: gl Let_def)
    with rest sp(1) show ?thesis by auto
  qed
qed

text \<open>
  A packet that does not fit the ring closes the connection, although the codec's own limit
  would let it through.
\<close>

lemma read_loop_overflow:
  assumes "rb_wf (in_buf c)" "data_only (rscript (ksock c))"
    and "4 \<le> length stream" "stream = rb_contents (in_buf c) @ incoming (rscript (ksock c))"
    and "unat (ntohl_bytes (take 4 stream)) \<le> 10485760"
    and "rb_capacity (in_buf c) < 4 + unat (ntohl_bytes (take 4 stream))"
    and "rb_capacity (in_buf c) \<le> length stream"
  shows "\<exists>m' c'. read_loop now m c = (True, [], m', c')"
  using assms
proof (induction "read_size (rscript (ksock c))" arbitrary: m c rule: less_induct)
  case less
  let ?b = "in_buf c"
  note room_cap = rb_room_capacity[OF less.prems(1)]
  show ?case
  proof (cases "rb_room ?b = 0")
    case True
    then show ?thesis by (simp add: read_loop_full)
  next
    case False
    then have room: "0 < rb_room ?b" by simp
    from less.prems(2) show ?thesis
    proof (cases rule: data_only_cases)
      case none
      with less.prems(4,7) room room_cap show ?thesis by simp
    next
      case (data bs rs)
      define g left where "g = take (rb_room ?b) bs" "left = keep_unread (drop (rb_room ?b) bs) rs"
      note gl = this
      let ?c1 = "set_rscript left c"
      let ?c2 = "take_in now g ?c1"
      have same: "in_buf ?c1 = ?b" by (simp add: set_rscript_def)
      have len: "length g \<le> rb_room (in_buf ?c1)" unfolding same by (simp add: gl)
      have glue: "g @ drop (rb_room ?b) bs @ x = bs @ x" for x by (simp add: gl flip: append_assoc)
      note step = take_in_bytes[OF _ len, unfolded same, OF less.prems(1)]
      have str: "stream = (rb_contents ?b @ g) @ incoming left"
        using less.prems(4) data(1) by (simp add: gl(2) incoming_keep glue)
      have short: "length (rb_contents ?b @ g) \<le> rb_capacity ?b" using len room_cap by (simp add: same)
      have inc: "parse_frame (rb_contents ?b @ g) = Incomplete"
      proof (cases "length (rb_contents ?b @ g) < 4")
        case False
        then have "take 4 (rb_contents ?b @ g) = take 4 stream" unfolding str by simp
        with False short less.prems(5,6) show ?thesis by (auto simp: parse_frame_def Let_def)
      qed (simp add: parse_frame_def)
      then have pf: "parse_frames (rb_contents ?b @ g) = ([], rb_contents ?b @ g)"
        by (simp add: parse_frames.simps[of "_ @ _"])
      have left2: "rscript (ksock ?c2) = left" by (simp add: take_in_def set_rscript_def)
      have "read_size left < read_size (rscript (ksock c))"
        using room data(1,2) by (cases bs) (auto simp: gl keep_unread_def)
      moreover have "data_only left" using data(3) by (simp add: gl data_only_keep)
      ultimately obtain m' c' where
        "read_loop now (count_in (length (taken_msgs g c)) (length g) m) ?c2 = (True, [], m', c')"
        using less.hyps[of ?c2 "count_in (length (taken_msgs g c)) (length g) m"]
          step pf str left2 less.prems(3,5,6,7) by auto
      moreover have "taken_msgs g c = []" using step(1) pf by (simp add: taken_msgs_def same)
      ultimately have "read_loop now m c = (True, [], m', c')"
        using read_loop_data[OF room data(1,2), of now m] by (simp add: gl Let_def)
      then show ?thesis by blast
    qed
  qed
qed

end
