(* ===== verification/Queues.thy ===== *)
theory Queues
  imports Prelude
begin

text \<open>
  The queues that connect the threads: \<open>v4/safe_queue.h\<close> (reactor to logic thread, and
  network to terminal in the client) and the task queue of \<open>v4/threadpool.cpp\<close>. Every
  operation holds the queue's mutex, so it is one atomic step. A \<open>pop\<close> that has to wait
  on the condition variable is the outcome \<open>Blocked\<close>; the state is unchanged then.
\<close>

datatype 'a pop_result = Popped 'a | Blocked | Finished

section \<open>The contract of a closable FIFO\<close>

locale closable_fifo =
  fixes items :: "'q \<Rightarrow> 'a list"
    and closed :: "'q \<Rightarrow> bool"
    and push :: "'a \<Rightarrow> 'q \<Rightarrow> 'q"
    and pop :: "'q \<Rightarrow> 'a pop_result \<times> 'q"
    and shut :: "'q \<Rightarrow> 'q"
  assumes items_push: "items (push x q) = items q @ [x]"
    and closed_push: "closed (push x q) = closed q"
    and items_shut: "items (shut q) = items q"
    and closed_shut: "closed (shut q)"
    and pop_Cons: "items q = x # xs \<Longrightarrow>
      fst (pop q) = Popped x \<and> items (snd (pop q)) = xs \<and> closed (snd (pop q)) = closed q"
    and pop_Nil: "items q = [] \<Longrightarrow>
      pop q = (if closed q then Finished else Blocked, q)"
begin

text \<open>Items leave in the order they came in.\<close>

lemma fifo: "items q = [] \<Longrightarrow> fst (pop (push x q)) = Popped x"
  using pop_Cons[of "push x q" x "[]"] by (simp add: items_push)

lemma pop_push:
  assumes "items q \<noteq> []"
  shows "fst (pop (push x q)) = fst (pop q)"
    and "items (snd (pop (push x q))) = items (snd (pop q)) @ [x]"
proof -
  obtain y ys where "items q = y # ys" using assms by (cases "items q") auto
  then show "fst (pop (push x q)) = fst (pop q)"
    and "items (snd (pop (push x q))) = items (snd (pop q)) @ [x]"
    using pop_Cons[of q y ys] pop_Cons[of "push x q" y "ys @ [x]"] by (auto simp: items_push)
qed

text \<open>No item is lost when the queue is closed: a reader drains it before it sees the end.\<close>

lemma finished_iff: "fst (pop q) = Finished \<longleftrightarrow> items q = [] \<and> closed q"
proof (cases "items q")
  case (Cons x xs)
  then show ?thesis using pop_Cons[of q x xs] by simp
qed (simp add: pop_Nil)

lemma never_blocked_when_closed: "closed q \<Longrightarrow> fst (pop q) \<noteq> Blocked"
  by (cases "items q") (auto simp: pop_Nil dest: pop_Cons)

lemma blocked_iff: "fst (pop q) = Blocked \<longleftrightarrow> items q = [] \<and> \<not> closed q"
  by (cases "items q") (auto simp: pop_Nil dest: pop_Cons)

end

section \<open>SafeQueue\<close>

record 'a safe_queue =
  queue :: "'a list"
  finished :: bool

definition sq_new :: "'a safe_queue" where
  "sq_new = \<lparr>queue = [], finished = False\<rparr>"

definition sq_push :: "'a \<Rightarrow> 'a safe_queue \<Rightarrow> 'a safe_queue" where
  "sq_push item q = q\<lparr>queue := queue q @ [item]\<rparr>"

definition sq_pop :: "'a safe_queue \<Rightarrow> 'a pop_result \<times> 'a safe_queue" where
  "sq_pop q =
     (if \<not> (queue q \<noteq> [] \<or> finished q) then (Blocked, q)
      else if queue q = [] \<and> finished q then (Finished, q)
      else (Popped (hd (queue q)), q\<lparr>queue := tl (queue q)\<rparr>))"

definition sq_stop :: "'a safe_queue \<Rightarrow> 'a safe_queue" where
  "sq_stop q = q\<lparr>finished := True\<rparr>"

interpretation sq: closable_fifo queue finished sq_push sq_pop sq_stop
  by unfold_locales (auto simp: sq_push_def sq_pop_def sq_stop_def)

section \<open>ThreadPool\<close>

text \<open>
  The task queue and the \<open>running_\<close> flag. A worker is between tasks, running one, or has
  returned; \<open>worker_fetch\<close> is one round of \<open>worker_loop\<close> up to the call of the task:
  the loop condition first, then the wait. A worker that sees \<open>running_\<close> false at the
  loop condition leaves even if tasks are queued.
\<close>

record 'a thread_pool =
  task_queue :: "'a list"
  pool_running :: bool
  joined :: bool

definition tp_new :: "'a thread_pool" where
  "tp_new = \<lparr>task_queue = [], pool_running = True, joined = False\<rparr>"

definition tp_push_task :: "'a \<Rightarrow> 'a thread_pool \<Rightarrow> 'a thread_pool" where
  "tp_push_task task p = p\<lparr>task_queue := task_queue p @ [task]\<rparr>"

fun tp_emplace_all :: "'a list \<Rightarrow> 'a list \<Rightarrow> 'a list" where
  "tp_emplace_all q [] = q"
| "tp_emplace_all q (t # ts) = tp_emplace_all (q @ [t]) ts"

definition tp_push_batch :: "'a list \<Rightarrow> 'a thread_pool \<Rightarrow> 'a thread_pool" where
  "tp_push_batch tasks p = p\<lparr>task_queue := tp_emplace_all (task_queue p) tasks\<rparr>"

text \<open>\<open>compare_exchange_strong\<close>: only the first caller runs the shutdown and joins.\<close>

definition tp_shutdown :: "'a thread_pool \<Rightarrow> 'a thread_pool" where
  "tp_shutdown p =
     (if pool_running p then p\<lparr>pool_running := False, joined := True\<rparr> else p)"

text \<open>The critical section of \<open>worker_loop\<close>.\<close>

definition tp_wait :: "'a thread_pool \<Rightarrow> 'a pop_result \<times> 'a thread_pool" where
  "tp_wait p =
     (if \<not> (task_queue p \<noteq> [] \<or> \<not> pool_running p) then (Blocked, p)
      else if \<not> pool_running p \<and> task_queue p = [] then (Finished, p)
      else (Popped (hd (task_queue p)), p\<lparr>task_queue := tl (task_queue p)\<rparr>))"

definition worker_fetch :: "'a thread_pool \<Rightarrow> 'a pop_result \<times> 'a thread_pool" where
  "worker_fetch p = (if pool_running p then tp_wait p else (Finished, p))"

lemma tp_emplace_all_append: "tp_emplace_all q ts = q @ ts"
  by (induction ts arbitrary: q) simp_all

interpretation tp: closable_fifo task_queue "\<lambda>p. \<not> pool_running p" tp_push_task tp_wait tp_shutdown
  by unfold_locales (auto simp: tp_push_task_def tp_wait_def tp_shutdown_def)

lemma tp_push_batch_items: "task_queue (tp_push_batch ts p) = task_queue p @ ts"
  by (simp add: tp_push_batch_def tp_emplace_all_append)

lemma worker_fetch_running: "pool_running p \<Longrightarrow> worker_fetch p = tp_wait p"
  by (simp add: worker_fetch_def)

lemma tp_shutdown_idem: "tp_shutdown (tp_shutdown p) = tp_shutdown p"
  by (simp add: tp_shutdown_def)

section \<open>Properties\<close>

text \<open>The event queue is first in, first out: the element behind \<open>xs\<close> comes out after exactly
  \<open>length xs\<close> pops, and pushing or stopping meanwhile does not change that.\<close>

theorem event_queue_fifo:
  assumes "queue q = xs @ y # ys"
  shows "fst (sq_pop (((\<lambda>q. snd (sq_pop q)) ^^ length xs) q)) = Popped y \<and>
    fst (sq_pop (((\<lambda>q. snd (sq_pop q)) ^^ length xs) (sq_push z q))) = Popped y \<and>
    fst (sq_pop (((\<lambda>q. snd (sq_pop q)) ^^ length xs) (sq_stop q))) = Popped y"
proof -
  have "queue (((\<lambda>q. snd (sq_pop q)) ^^ length xs) r) = zs" if "queue r = xs @ zs" for r :: "'a safe_queue" and zs
    using that by (induction xs arbitrary: zs rule: rev_induct) (auto simp: sq_pop_def)
  from this[of q "y # ys"] this[of "sq_push z q" "y # ys @ [z]"] this[of "sq_stop q" "y # ys"] assms
  show ?thesis by (simp add: sq_push_def sq_stop_def sq_pop_def)
qed

theorem event_queue_fifo_witness:
  "fst (sq_pop (snd (sq_pop \<lparr>queue = [1 :: nat, 2, 3], finished = False\<rparr>))) = Popped 2"
  using event_queue_fifo[of "\<lparr>queue = [1 :: nat, 2, 3], finished = False\<rparr>" "[1]" 2 "[3]"] by simp

text \<open>After the shutdown of the pool no worker starts another task, even if tasks are still
  queued, and a second shutdown changes nothing; before it, a batch is taken in order.\<close>

theorem pool_shutdown:
  "worker_fetch (tp_shutdown p) = (Finished, tp_shutdown p) \<and>
   task_queue (tp_shutdown p) = task_queue p \<and> tp_shutdown (tp_shutdown p) = tp_shutdown p \<and>
   (pool_running p \<longrightarrow> task_queue p = [] \<longrightarrow>
      worker_fetch (tp_push_batch (t # ts) p) = (Popped t, tp_push_batch ts p))"
  by (auto simp: worker_fetch_def tp_shutdown_def tp_push_batch_def tp_emplace_all_append tp_wait_def)

theorem pool_shutdown_witness:
  "worker_fetch (tp_push_batch [1 :: nat, 2] tp_new) = (Popped 1, tp_push_batch [2] tp_new)"
  using pool_shutdown[of tp_new "1 :: nat" "[2]"] by (simp add: tp_new_def)

end
