(* ===== verification/Timers.thy ===== *)
theory Timers
  imports Prelude "HOL-Library.Multiset"
begin

text \<open>
  The idle timers of a shard (\<open>v4/webserver.h\<close>): a \<open>std::priority_queue\<close> ordered by
  \<open>TimerEvent::operator>\<close>, so its top is an earliest event. The model keeps the events in
  order of expiry; which of several events with the same expiry is on top is not specified
  by the library, and nothing below depends on it.
\<close>

section \<open>Timer events\<close>

datatype timer_event = TimerEvent (expires_at: nat) (timer_fd: int)

text \<open>\<open>operator>\<close> compares the expiry only; \<open>std::greater\<close> in the queue makes it the order below, in which
  an event comes before those that expire later.\<close>

definition expires_later :: "timer_event \<Rightarrow> timer_event \<Rightarrow> bool" where
  "expires_later a b \<longleftrightarrow> expires_at a > expires_at b"

instantiation timer_event :: preorder
begin

definition less_eq_timer_event :: "timer_event \<Rightarrow> timer_event \<Rightarrow> bool" where
  "less_eq_timer_event a b \<longleftrightarrow> \<not> expires_later a b"

definition less_timer_event :: "timer_event \<Rightarrow> timer_event \<Rightarrow> bool" where
  "less_timer_event a b \<longleftrightarrow> expires_later b a"

instance
  by standard (auto simp: less_eq_timer_event_def less_timer_event_def expires_later_def)

end

section \<open>Priority queues\<close>

locale min_queue =
  fixes invar :: "'q \<Rightarrow> bool"
    and items :: "'q \<Rightarrow> 'a multiset"
    and key :: "'a \<Rightarrow> nat"
    and push :: "'a \<Rightarrow> 'q \<Rightarrow> 'q"
    and top :: "'q \<Rightarrow> 'a"
    and pop :: "'q \<Rightarrow> 'q"
  assumes push_items: "invar q \<Longrightarrow> items (push x q) = add_mset x (items q)"
    and push_invar: "invar q \<Longrightarrow> invar (push x q)"
    and top_in: "invar q \<Longrightarrow> items q \<noteq> {#} \<Longrightarrow> top q \<in># items q"
    and top_least: "invar q \<Longrightarrow> x \<in># items q \<Longrightarrow> key (top q) \<le> key x"
    and pop_items: "invar q \<Longrightarrow> items q \<noteq> {#} \<Longrightarrow> items (pop q) = items q - {#top q#}"
    and pop_invar: "invar q \<Longrightarrow> invar (pop q)"
begin

lemma top_pop: "invar q \<Longrightarrow> items q \<noteq> {#} \<Longrightarrow> items q = add_mset (top q) (items (pop q))"
  by (simp add: pop_items top_in)

text \<open>When the top is not due, nothing is.\<close>

lemma nothing_due: "invar q \<Longrightarrow> items q \<noteq> {#} \<Longrightarrow> now < key (top q) \<Longrightarrow> x \<in># items q \<Longrightarrow> now < key x"
  using top_least by fastforce

lemma push_mem: "invar q \<Longrightarrow> x \<in># items (push x q)"
  by (simp add: push_items)

end

definition heap_push :: "timer_event \<Rightarrow> timer_event list \<Rightarrow> timer_event list" where
  "heap_push e h = insort_key expires_at e h"

definition heap_top :: "timer_event list \<Rightarrow> timer_event" where
  "heap_top h = hd h"

definition heap_pop :: "timer_event list \<Rightarrow> timer_event list" where
  "heap_pop h = tl h"

definition heap_wf :: "timer_event list \<Rightarrow> bool" where
  "heap_wf h \<longleftrightarrow> sorted_wrt (\<le>) h"

lemma heap_wf_sorted: "heap_wf h \<longleftrightarrow> sorted (map expires_at h)"
  by (simp add: heap_wf_def sorted_map less_eq_timer_event_def[abs_def] expires_later_def not_less)

interpretation timers: min_queue heap_wf mset expires_at heap_push heap_top heap_pop
proof
  fix q :: "timer_event list" and x
  assume wf: "heap_wf q"
  show "mset (heap_push x q) = add_mset x (mset q)" by (simp add: heap_push_def)
  show "heap_wf (heap_push x q)" using wf by (simp add: heap_push_def heap_wf_sorted sorted_insort_key)
  show "mset q \<noteq> {#} \<Longrightarrow> heap_top q \<in># mset q" by (simp add: heap_top_def)
  show "x \<in># mset q \<Longrightarrow> expires_at (heap_top q) \<le> expires_at x"
    using wf by (cases q) (auto simp: heap_top_def heap_wf_sorted)
  show "mset q \<noteq> {#} \<Longrightarrow> mset (heap_pop q) = mset q - {#heap_top q#}"
    by (cases q) (auto simp: heap_top_def heap_pop_def)
  show "heap_wf (heap_pop q)" using wf by (simp add: heap_pop_def heap_wf_sorted map_tl sorted_tl)
qed

section \<open>The sweep of one shard\<close>

text \<open>
  The inner loop of \<open>check_timeouts\<close>: \<open>lookup fd\<close> is the connection the shard has for the
  descriptor, given by its identity and last activity. Events that are not due stay; a due
  event of a connection that was active since is pushed back with its new expiry. Every
  event pushed back lies in the future, so the number of due events decreases.
\<close>

definition CONNECTION_TIMEOUT :: nat where
  "CONNECTION_TIMEOUT = 600 * 1000000000"

definition due :: "nat \<Rightarrow> timer_event list \<Rightarrow> nat" where
  "due now h = length (filter (\<lambda>e. expires_at e \<le> now) h)"

lemma due_push: "now < expires_at e \<Longrightarrow> due now (heap_push e h) = due now h"
  by (induction h) (auto simp: due_def heap_push_def)

lemma due_pop: "h \<noteq> [] \<Longrightarrow> expires_at (heap_top h) \<le> now \<Longrightarrow> due now (heap_pop h) < due now h"
  by (cases h) (auto simp: due_def heap_top_def heap_pop_def)

function sweep ::
  "nat \<Rightarrow> (int \<Rightarrow> ('c \<times> nat) option) \<Rightarrow> timer_event list \<Rightarrow> timer_event list \<times> 'c list" where
  "sweep now lookup h =
     (if h = [] then (h, [])
      else if expires_at (heap_top h) > now then (h, [])
      else let fd = timer_fd (heap_top h);
               h1 = heap_pop h
           in case lookup fd of
                None \<Rightarrow> sweep now lookup h1
              | Some (conn, last_active) \<Rightarrow>
                  (let expected_expiry = last_active + CONNECTION_TIMEOUT
                   in if expected_expiry > now
                      then sweep now lookup (heap_push (TimerEvent expected_expiry fd) h1)
                      else let (h', timed_out) = sweep now lookup h1 in (h', conn # timed_out)))"
  by pat_completeness auto
termination
  by (relation "measure (\<lambda>(now, lookup, h). due now h)") (auto simp: due_pop due_push)

declare sweep.simps [simp del]

lemma set_heap_push [simp]: "set (heap_push e h) = insert e (set h)"
  by (simp add: heap_push_def set_insort_key)

lemma set_heap_split: "h \<noteq> [] \<Longrightarrow> set h = insert (heap_top h) (set (heap_pop h))"
  by (cases h) (auto simp: heap_top_def heap_pop_def)

lemma heap_not_due: "heap_wf h \<Longrightarrow> h \<noteq> [] \<Longrightarrow> now < expires_at (heap_top h) \<Longrightarrow> e \<in> set h \<Longrightarrow> now < expires_at e"
  using timers.nothing_due[of h now e] by simp

text \<open>What a sweep leaves and whom it times out.\<close>

definition idle :: "nat \<Rightarrow> (int \<Rightarrow> ('c \<times> nat) option) \<Rightarrow> 'c \<Rightarrow> bool" where
  "idle now lookup conn \<longleftrightarrow> (\<exists>fd last. lookup fd = Some (conn, last) \<and> last + CONNECTION_TIMEOUT \<le> now)"

text \<open>The event \<open>e\<close> has a successor for its connection that fires in time, or the connection is out.\<close>

definition covered :: "(int \<Rightarrow> ('c \<times> nat) option) \<Rightarrow> timer_event list \<Rightarrow> 'c list \<Rightarrow> timer_event \<Rightarrow> bool" where
  "covered lookup h' out e \<longleftrightarrow> (\<forall>c la. lookup (timer_fd e) = Some (c, la) \<longrightarrow> c \<in> set out \<or>
     (\<exists>e'\<in>set h'. timer_fd e' = timer_fd e \<and>
        (expires_at e \<le> la + CONNECTION_TIMEOUT \<longrightarrow> expires_at e' \<le> la + CONNECTION_TIMEOUT)))"

lemma covered_self: "e \<in> set h' \<Longrightarrow> covered lookup h' out e"
  by (auto simp: covered_def)

lemma covered_more: "covered lookup h' out e \<Longrightarrow> covered lookup h' (c # out) e"
  by (auto simp: covered_def)

lemma covered_out: "lookup (timer_fd e) = Some (c, la) \<Longrightarrow> c \<in> set out \<Longrightarrow> covered lookup h' out e"
  by (auto simp: covered_def)

lemma covered_pushed:
  "covered lookup h' out (TimerEvent (la + CONNECTION_TIMEOUT) (timer_fd e)) \<Longrightarrow>
   lookup (timer_fd e) = Some (c, la) \<Longrightarrow> covered lookup h' out e"
  by (auto simp: covered_def)

lemma covered_gone: "lookup (timer_fd e) = None \<Longrightarrow> covered lookup h' out e"
  by (simp add: covered_def)

lemma sweep_spec:
  assumes "sweep now lookup h = (h', out)" "heap_wf h"
  shows "heap_wf h' \<and> (\<forall>e\<in>set h'. now < expires_at e) \<and> (\<forall>c\<in>set out. idle now lookup c) \<and>
    (\<forall>e\<in>set h. covered lookup h' out e) \<and>
    (\<forall>e\<in>set h. \<forall>c last. lookup (timer_fd e) = Some (c, last) \<longrightarrow> expires_at e \<le> now \<longrightarrow>
       last + CONNECTION_TIMEOUT \<le> now \<longrightarrow> c \<in> set out)"
  using assms
proof (induction now lookup h arbitrary: h' out rule: sweep.induct)
  case (1 now lookup h)
  note unf = sweep.simps[of now lookup h]
  show ?case
  proof (cases "h = [] \<or> expires_at (heap_top h) > now")
    case True
    with "1.prems" heap_not_due[of h now] show ?thesis
      by (auto simp: unf not_le[symmetric] intro: covered_self split: if_splits)
  next
    case False
    let ?fd = "timer_fd (heap_top h)" and ?h1 = "heap_pop h"
    have ne: "h \<noteq> []" and due: "\<not> expires_at (heap_top h) > now" using False by auto
    have wf1: "heap_wf ?h1" using "1.prems"(2) by (rule timers.pop_invar)
    note split = set_heap_split[OF ne]
    show ?thesis
    proof (cases "lookup ?fd")
      case None
      with "1.prems" ne due have "sweep now lookup ?h1 = (h', out)" by (simp add: unf Let_def)
      from "1.IH"(1)[OF ne due refl refl None this wf1] None show ?thesis
        unfolding split by (auto intro: covered_gone)
    next
      case (Some p)
      obtain conn last where p: "p = (conn, last)" by force
      show ?thesis
      proof (cases "last + CONNECTION_TIMEOUT > now")
        case True
        let ?e = "TimerEvent (last + CONNECTION_TIMEOUT) ?fd"
        have "sweep now lookup (heap_push ?e ?h1) = (h', out)"
          using "1.prems" ne due Some p True by (simp add: unf Let_def)
        from "1.IH"(2)[OF ne due refl refl Some p[symmetric] refl True this timers.push_invar[OF wf1]]
        show ?thesis unfolding split using True Some p covered_pushed[of lookup h' out last "heap_top h" conn] by auto
      next
        case old: False
        obtain out1 where out: "sweep now lookup ?h1 = (h', out1)" "out = conn # out1"
          using "1.prems" ne due Some p old by (auto simp: unf Let_def split: prod.splits)
        from "1.IH"(3)[OF ne due refl refl Some p[symmetric] refl old out(1) wf1]
        show ?thesis unfolding split out(2) using old Some p
            by (auto simp: idle_def not_less intro: covered_more covered_out)
      qed
    qed
  qed
qed

lemma sweep_keeps_deadline:
  assumes "sweep now lookup h = (h', out)" "heap_wf h" "e \<in> set h"
    and "lookup (timer_fd e) = Some (c, la)" "expires_at e \<le> la + CONNECTION_TIMEOUT"
  shows "c \<in> set out \<or> (\<exists>e'\<in>set h'. timer_fd e' = timer_fd e \<and> expires_at e' \<le> la + CONNECTION_TIMEOUT)"
  using sweep_spec[OF assms(1,2)] assms(3-5) unfolding covered_def by blast

end
