(* ===== verification/WebServer.thy ===== *)
theory WebServer
  imports Reading Queues Timers
begin

text \<open>
  The reactor: \<open>v4/webserver.h\<close> and \<open>v4/webserver.cpp\<close>, with \<open>v4/event.h\<close>. A
  \<open>ConnPtr\<close> is an index into the store of all connections ever accepted, so that the
  shards, the events and the sessions of the application share one object. Each shard is
  an association list of its \<open>connections\<close> and its \<open>timer_heap\<close>.

  Every operation is one atomic step under the locks it takes. The kernel enters through
  explicit arguments: the accepted sockets, the clock, the expirations, the outcome of
  \<open>try_to_lock\<close>, and the scripts inside each connection's socket.
\<close>

section \<open>State\<close>

type_synonym conn_id = nat

datatype event_type = CONNECT | DISCONNECT | MESSAGE

record network_event =
  ev_type :: event_type
  ev_conn :: conn_id
  ev_payload :: "byte list option"

record shard =
  connections :: "(int \<times> conn_id) list"
  timer_heap :: "timer_event list"

record broadcast_task =
  task_shard :: nat
  task_events :: "broadcast_event list"

record 'u web_server =
  shards :: "shard list"
  global_queue :: "broadcast_event list"
  threadpool :: "broadcast_task thread_pool"
  running :: bool
  listen_fd :: int
  epoll_fd :: int
  sig_fd :: int
  notify_fd :: int
  server_timer_fd :: int
  registered_fds :: "(int \<times> u32) list"
  closed_fds :: "int list"
  notify_count :: nat
  event_queue :: "network_event safe_queue"
  ticks :: u64
  stats_timer_accumulator :: u64
  metrics :: server_metrics
  store :: "'u connection list"

definition NUM_SHARDS :: nat where "NUM_SHARDS = 16"

text \<open>\<open>fd % shards_.size()\<close>: the \<open>int\<close> is converted to \<open>size_t\<close> first.\<close>

definition get_shard_idx :: "'u web_server \<Rightarrow> int \<Rightarrow> nat" where
  "get_shard_idx s fd = unat (word_of_int fd :: u64) mod length (shards s)"

definition conn_at :: "'u web_server \<Rightarrow> conn_id \<Rightarrow> 'u connection" where
  "conn_at s cid = store s ! cid"

definition upd_conn ::
  "conn_id \<Rightarrow> (server_metrics \<Rightarrow> 'u connection \<Rightarrow> server_metrics \<times> 'u connection)
     \<Rightarrow> 'u web_server \<Rightarrow> 'u web_server" where
  "upd_conn cid f s =
     (case f (metrics s) (conn_at s cid) of
        (m, c) \<Rightarrow> s\<lparr>metrics := m, store := (store s)[cid := c]\<rparr>)"

definition upd_shard :: "nat \<Rightarrow> (shard \<Rightarrow> shard) \<Rightarrow> 'u web_server \<Rightarrow> 'u web_server" where
  "upd_shard i f s = s\<lparr>shards := (shards s)[i := f (shards s ! i)]\<rparr>"

definition push_event :: "network_event \<Rightarrow> 'u web_server \<Rightarrow> 'u web_server" where
  "push_event e s = s\<lparr>event_queue := sq_push e (event_queue s)\<rparr>"

definition connect_event :: "conn_id \<Rightarrow> network_event" where
  "connect_event cid = \<lparr>ev_type = CONNECT, ev_conn = cid, ev_payload = None\<rparr>"

definition disconnect_event :: "conn_id \<Rightarrow> network_event" where
  "disconnect_event cid = \<lparr>ev_type = DISCONNECT, ev_conn = cid, ev_payload = None\<rparr>"

definition message_event :: "conn_id \<Rightarrow> byte list \<Rightarrow> network_event" where
  "message_event cid p = \<lparr>ev_type = MESSAGE, ev_conn = cid, ev_payload = Some p\<rparr>"

section \<open>Setup\<close>

text \<open>
  The answers of the kernel to the calls of the constructor. \<open>exit(1)\<close> is \<open>None\<close>.
\<close>

record setup_env =
  sigprocmask_ok :: bool
  signalfd_ret :: int
  socket_ret :: int
  setsockopt_ok :: bool
  bind_ok :: bool
  listen_ok :: bool
  epoll_create_ret :: int
  eventfd_ret :: int
  timerfd_ret :: int
  timerfd_settime_ok :: bool

text \<open>\<open>EPOLL_CTL_ADD\<close> of one of the server's own descriptors; \<open>-1\<close> is refused with
  \<open>EBADF\<close>, a registered one with \<open>EEXIST\<close>.\<close>

definition add_server_fd :: "int \<Rightarrow> u32 \<Rightarrow> 'u web_server \<Rightarrow> 'u web_server" where
  "add_server_fd fd events s =
     (if fd < 0 \<or> fd \<in> fst ` set (registered_fds s) then s
      else s\<lparr>registered_fds := registered_fds s @ [(fd, events OR EPOLLET)]\<rparr>)"

definition setup_signalfd :: "setup_env \<Rightarrow> 'u web_server \<Rightarrow> 'u web_server option" where
  "setup_signalfd env s =
     (if \<not> sigprocmask_ok env then None
      else let s1 = s\<lparr>sig_fd := signalfd_ret env\<rparr>
           in if sig_fd s1 = -1 then None else Some s1)"

definition setup_server_socket :: "setup_env \<Rightarrow> 'u web_server \<Rightarrow> 'u web_server option" where
  "setup_server_socket env s =
     (let s1 = s\<lparr>listen_fd := socket_ret env\<rparr>
      in if listen_fd s1 < 0 then None
         else if \<not> setsockopt_ok env then None
         else if \<not> bind_ok env then None
         else if \<not> listen_ok env then None
         else Some s1)"

definition setup_epoll :: "setup_env \<Rightarrow> 'u web_server \<Rightarrow> 'u web_server option" where
  "setup_epoll env s =
     (let s1 = s\<lparr>epoll_fd := epoll_create_ret env\<rparr>
      in if epoll_fd s1 = -1 then None
         else let s2 = add_server_fd (listen_fd s1) EPOLLIN s1;
                  s3 = add_server_fd (sig_fd s2) EPOLLIN s2
              in Some (add_server_fd (notify_fd s3) EPOLLIN s3))"

definition setup_eventfd :: "setup_env \<Rightarrow> 'u web_server \<Rightarrow> 'u web_server option" where
  "setup_eventfd env s =
     (let s1 = s\<lparr>notify_fd := eventfd_ret env\<rparr>
      in if notify_fd s1 = -1 then None else Some (add_server_fd (notify_fd s1) EPOLLIN s1))"

definition setup_timerfd :: "setup_env \<Rightarrow> 'u web_server \<Rightarrow> 'u web_server option" where
  "setup_timerfd env s =
     (let s1 = s\<lparr>server_timer_fd := timerfd_ret env\<rparr>
      in if server_timer_fd s1 = -1 then None
         else if \<not> timerfd_settime_ok env then None
         else Some (add_server_fd (server_timer_fd s1) EPOLLIN s1))"

definition blank_server :: "'u web_server" where
  "blank_server =
     \<lparr>shards = replicate NUM_SHARDS \<lparr>connections = [], timer_heap = []\<rparr>, global_queue = [],
      threadpool = tp_new, running = True, listen_fd = -1, epoll_fd = -1, sig_fd = -1,
      notify_fd = -1, server_timer_fd = -1, registered_fds = [], closed_fds = [],
      notify_count = 0, event_queue = sq_new, ticks = 0, stats_timer_accumulator = 0,
      metrics = metrics_init, store = []\<rparr>"

definition new_server :: "setup_env \<Rightarrow> 'u web_server option" where
  "new_server env =
     Option.bind (setup_signalfd env blank_server) (\<lambda>s1.
     Option.bind (setup_server_socket env s1) (\<lambda>s2.
     Option.bind (setup_epoll env s2) (\<lambda>s3.
     Option.bind (setup_eventfd env s3) (\<lambda>s4.
     Option.bind (setup_timerfd env s4) (\<lambda>s5.
       Some (s5\<lparr>threadpool := tp_new\<rparr>))))))"

section \<open>The reactor's handlers\<close>

text \<open>One \<open>accept\<close> that succeeded: descriptor \<open>fd\<close>, its socket \<open>k\<close>, at time \<open>now\<close>.\<close>

definition accept_one :: "nat \<Rightarrow> int \<Rightarrow> kernel_socket \<Rightarrow> 'u web_server \<Rightarrow> 'u web_server" where
  "accept_one now fd k s =
     (let cid = length (store s);
          conn = new_connection fd now k;
          s1 = upd_shard (get_shard_idx s fd)
                 (\<lambda>sh. sh\<lparr>connections := AList.update fd cid (connections sh),
                          timer_heap := heap_push (TimerEvent (now + CONNECTION_TIMEOUT) fd) (timer_heap sh)\<rparr>) s;
          conn' = (add_fd_to_epoll EPOLLIN conn)\<lparr>current_epoll_events := EPOLLIN\<rparr>
      in push_event (connect_event cid)
           (s1\<lparr>store := store s @ [conn'], metrics := on_connection_accepted (metrics s)\<rparr>))"

text \<open>The loop ends at the first failing \<open>accept\<close>, the end of the list.\<close>

fun accept_loop :: "nat \<Rightarrow> (int \<times> kernel_socket) list \<Rightarrow> 'u web_server \<Rightarrow> 'u web_server" where
  "accept_loop now [] s = s"
| "accept_loop now ((fd, k) # accepted) s = accept_loop now accepted (accept_one now fd k s)"

definition close_conn :: "conn_id \<Rightarrow> 'u web_server \<Rightarrow> 'u web_server" where
  "close_conn cid s =
     (let c = conn_at s cid
      in if closed c then s
         else let s1 = s\<lparr>store := (store s)[cid := c\<lparr>closed := True\<rparr>],
                         metrics := on_connection_closed (metrics s)\<rparr>;
                  s2 = push_event (disconnect_event cid) s1;
                  c2 = conn_at s2 cid;
                  s3 = s2\<lparr>store := (store s2)[cid := c2\<lparr>ksock := (ksock c2)\<lparr>interest := None\<rparr>\<rparr>]\<rparr>
              in upd_shard (get_shard_idx s3 (sock c))
                   (\<lambda>sh. sh\<lparr>connections := AList.delete (sock c) (connections sh)\<rparr>) s3)"

definition handle_read :: "nat \<Rightarrow> conn_id \<Rightarrow> 'u web_server \<Rightarrow> 'u web_server" where
  "handle_read now cid s =
     (case read_loop now (metrics s) (conn_at s cid) of
        (should_close, msgs, m, c) \<Rightarrow>
          (let s1 = fold (\<lambda>p. push_event (message_event cid p)) msgs
                      (s\<lparr>metrics := m, store := (store s)[cid := c]\<rparr>)
           in if should_close then close_conn cid s1 else s1))"

definition handle_write :: "conn_id \<Rightarrow> 'u web_server \<Rightarrow> 'u web_server" where
  "handle_write cid s =
     (case handle_write_conn (metrics s) (conn_at s cid) of
        (should_close, m, c) \<Rightarrow>
          (let s1 = s\<lparr>metrics := m, store := (store s)[cid := c]\<rparr>
           in if should_close then close_conn cid s1 else s1))"

definition shard_lookup :: "'u web_server \<Rightarrow> shard \<Rightarrow> int \<Rightarrow> (conn_id \<times> nat) option" where
  "shard_lookup s sh fd =
     map_option (\<lambda>cid. (cid, last_activity (conn_at s cid))) (map_of (connections sh) fd)"

text \<open>The first loop of \<open>check_timeouts\<close>, over the shards from index \<open>i\<close> on.\<close>

definition sweep_shard :: "nat \<Rightarrow> nat \<Rightarrow> 'u web_server \<Rightarrow> conn_id list \<times> 'u web_server" where
  "sweep_shard now i s =
     (case sweep now (shard_lookup s (shards s ! i)) (timer_heap (shards s ! i)) of
        (h, out) \<Rightarrow> (out, upd_shard i (\<lambda>sh. sh\<lparr>timer_heap := h\<rparr>) s))"

fun sweep_shards :: "nat \<Rightarrow> nat list \<Rightarrow> 'u web_server \<Rightarrow> conn_id list \<times> 'u web_server" where
  "sweep_shards now [] s = ([], s)"
| "sweep_shards now (i # is) s =
     (let (out, s1) = sweep_shard now i s; (outs, s2) = sweep_shards now is s1 in (out @ outs, s2))"

definition timeout_conn :: "conn_id \<Rightarrow> 'u web_server \<Rightarrow> 'u web_server" where
  "timeout_conn cid s = close_conn cid (s\<lparr>metrics := on_timeout (metrics s)\<rparr>)"

definition check_timeouts :: "nat \<Rightarrow> 'u web_server \<Rightarrow> 'u web_server" where
  "check_timeouts now s =
     (case sweep_shards now [0..<length (shards s)] s of (timed_out, s1) \<Rightarrow> fold timeout_conn timed_out s1)"

definition shard_conns :: "nat \<Rightarrow> 'u web_server \<Rightarrow> conn_id list" where
  "shard_conns i s = map snd (connections (shards s ! i))"

definition flush_shard :: "(conn_id \<Rightarrow> bool) \<Rightarrow> nat \<Rightarrow> 'u web_server \<Rightarrow> 'u web_server" where
  "flush_shard locks i s =
     (let active = filter (\<lambda>cid. \<not> closed (conn_at s cid) \<and> outgoing_queue (conn_at s cid) \<noteq> []) (shard_conns i s)
      in fold (\<lambda>cid. upd_conn cid (flush_conn (locks cid))) active s)"

definition flush_all_queues :: "(conn_id \<Rightarrow> bool) \<Rightarrow> 'u web_server \<Rightarrow> 'u web_server" where
  "flush_all_queues locks s = fold (flush_shard locks) [0..<length (shards s)] s"

section \<open>Broadcasts\<close>

definition process_global_queue :: "'u web_server \<Rightarrow> 'u web_server" where
  "process_global_queue s =
     (if global_queue s = [] then s
      else let events = global_queue s;
               batch_tasks = map (\<lambda>i. \<lparr>task_shard = i, task_events = events\<rparr>) [0..<length (shards s)];
               s1 = s\<lparr>global_queue := []\<rparr>
           in if batch_tasks \<noteq> [] then s1\<lparr>threadpool := tp_push_batch batch_tasks (threadpool s1)\<rparr> else s1)"

text \<open>
  A task of the pool: first the snapshot of the shard under its shared lock, then one
  connection after the other, each under its own mutex.
\<close>

definition task_snapshot :: "broadcast_task \<Rightarrow> 'u web_server \<Rightarrow> conn_id list" where
  "task_snapshot t s = filter (\<lambda>cid. \<not> closed (conn_at s cid)) (shard_conns (task_shard t) s)"

definition task_deliver :: "broadcast_task \<Rightarrow> conn_id \<Rightarrow> 'u web_server \<Rightarrow> 'u web_server" where
  "task_deliver t cid s = upd_conn cid (deliver_conn (task_events t)) s"

definition run_task :: "broadcast_task \<Rightarrow> 'u web_server \<Rightarrow> 'u web_server" where
  "run_task t s = fold (task_deliver t) (task_snapshot t s) s"

section \<open>The interface of the application\<close>

definition SendPreEncoded :: "conn_id \<Rightarrow> byte list \<Rightarrow> 'u web_server \<Rightarrow> 'u web_server" where
  "SendPreEncoded cid packet s = upd_conn cid (send_pre_encoded packet) s"

definition Broadcast :: "byte list \<Rightarrow> int \<Rightarrow> 'u web_server \<Rightarrow> 'u web_server" where
  "Broadcast data exclude_fd s =
     s\<lparr>global_queue := global_queue s @ [\<lparr>sender_fd = exclude_fd, bpayload = data\<rparr>],
       notify_count := notify_count s + 1\<rparr>"

definition Close :: "conn_id \<Rightarrow> 'u web_server \<Rightarrow> 'u web_server" where
  "Close cid s = close_conn cid s"

section \<open>The event loop\<close>

text \<open>
  One \<open>epoll_wait\<close>: ready descriptors with what the kernel has for their handlers, or an
  error. \<open>w_answers\<close> are the outcomes of the coming system calls on sockets.
\<close>

record wakeup =
  w_fd :: int
  w_events :: u32
  w_now :: nat
  w_accepted :: "(int \<times> kernel_socket) list"
  w_expirations :: u64
  w_locks :: "conn_id list"
  w_answers :: "(conn_id \<times> read_result list \<times> write_result list) list"

datatype epoll_result = Ready "wakeup list" | EIntr | EpollFailed

definition kernel_answers ::
  "conn_id \<times> read_result list \<times> write_result list \<Rightarrow> 'u web_server \<Rightarrow> 'u web_server" where
  "kernel_answers a s =
     (case a of (cid, rs, ws) \<Rightarrow>
        upd_conn cid (\<lambda>m c. (m, c\<lparr>ksock := (ksock c)\<lparr>rscript := rscript (ksock c) @ rs,
                                                  wscript := wscript (ksock c) @ ws\<rparr>\<rparr>)) s)"

definition handle_timer_fd :: "wakeup \<Rightarrow> 'u web_server \<Rightarrow> 'u web_server" where
  "handle_timer_fd w s =
     (let s1 = flush_all_queues (\<lambda>cid. cid \<in> set (w_locks w)) s;
          s2 = s1\<lparr>stats_timer_accumulator := stats_timer_accumulator s1 + w_expirations w,
                  ticks := ticks s1 + w_expirations w\<rparr>
      in if stats_timer_accumulator s2 \<ge> 6000
         then (check_timeouts (w_now w) s2)\<lparr>stats_timer_accumulator := 0\<rparr> else s2)"

definition handle_conn_event :: "wakeup \<Rightarrow> 'u web_server \<Rightarrow> 'u web_server" where
  "handle_conn_event w s =
     (case map_of (connections (shards s ! get_shard_idx s (w_fd w))) (w_fd w) of
        None \<Rightarrow> s
      | Some cid \<Rightarrow>
          if has_event (w_events w) (EPOLLERR OR EPOLLHUP) then close_conn cid s
          else let s1 = (if has_event (w_events w) EPOLLIN then handle_read (w_now w) cid s else s)
               in if has_event (w_events w) EPOLLOUT then handle_write cid s1 else s1)"

datatype fd_role = ListenFd | TimerFd | SigFd | NotifyFd | ConnFd

definition fd_kind :: "'u web_server \<Rightarrow> int \<Rightarrow> fd_role" where
  "fd_kind s fd =
     (if fd = listen_fd s then ListenFd
      else if fd = server_timer_fd s then TimerFd
      else if fd = sig_fd s then SigFd
      else if fd = notify_fd s then NotifyFd
      else ConnFd)"

text \<open>The \<open>for\<close> loop over the ready descriptors; the Boolean is \<open>pending_broadcast\<close>.\<close>

fun handle_ready :: "wakeup list \<Rightarrow> bool \<Rightarrow> 'u web_server \<Rightarrow> bool \<times> 'u web_server" where
  "handle_ready [] pending s = (pending, s)"
| "handle_ready (w # ws) pending s0 =
     (let s = fold kernel_answers (w_answers w) s0
      in case fd_kind s (w_fd w) of
          ListenFd \<Rightarrow> handle_ready ws pending (accept_loop (w_now w) (w_accepted w) s)
        | TimerFd \<Rightarrow> handle_ready ws pending (handle_timer_fd w s)
        | SigFd \<Rightarrow> (pending, s\<lparr>running := False\<rparr>)
        | NotifyFd \<Rightarrow> handle_ready ws True (s\<lparr>notify_count := 0\<rparr>)
        | ConnFd \<Rightarrow> handle_ready ws pending (handle_conn_event w s))"

text \<open>Only descriptors that are open are closed; a second call closes the same numbers again.\<close>

definition Stop :: "'u web_server \<Rightarrow> 'u web_server" where
  "Stop s =
     (let s1 = s\<lparr>running := False, threadpool := tp_shutdown (threadpool s),
                 shards := map (\<lambda>sh. sh\<lparr>connections := []\<rparr>) (shards s)\<rparr>
      in s1\<lparr>closed_fds := closed_fds s1 @
              filter (\<lambda>fd. fd \<ge> 0) [listen_fd s1, epoll_fd s1, sig_fd s1, notify_fd s1, server_timer_fd s1]\<rparr>)"

definition run_batch :: "wakeup list \<Rightarrow> 'u web_server \<Rightarrow> 'u web_server" where
  "run_batch ws s =
     (case handle_ready ws False s of
        (pending_broadcast, s1) \<Rightarrow> if pending_broadcast then process_global_queue s1 else s1)"

text \<open>\<open>Run\<close> on the answers of \<open>epoll_wait\<close>; the Boolean tells whether it has returned.\<close>

fun Run :: "epoll_result list \<Rightarrow> 'u web_server \<Rightarrow> bool \<times> 'u web_server" where
  "Run rs s =
     (if \<not> running s then (True, Stop s)
      else case rs of
          [] \<Rightarrow> (False, s)
        | EIntr # rs' \<Rightarrow> Run rs' s
        | EpollFailed # rs' \<Rightarrow> (True, Stop s)
        | Ready ws # rs' \<Rightarrow> Run rs' (run_batch ws s))"

declare Run.simps [simp del]

end
