(* ===== verification/ServerInvariant.thy ===== *)
theory ServerInvariant
  imports WebServer
begin

text \<open>
  The invariant of the reactor and its preservation by every handler of \<open>WebServer\<close>: the
  shards hold exactly the open connections, each under its own descriptor and in its own
  shard; every open connection has a timer that fires no later than its idle deadline;
  every connection is well formed; and \<open>total - active\<close> counts the closed ones.
\<close>

section \<open>The invariant\<close>

definition entry_ok :: "'u web_server \<Rightarrow> nat \<Rightarrow> int \<times> conn_id \<Rightarrow> bool" where
  "entry_ok s i p \<longleftrightarrow> get_shard_idx s (fst p) = i \<and> snd p < length (store s) \<and>
     sock (conn_at s (snd p)) = fst p \<and> \<not> closed (conn_at s (snd p))"

definition shard_wf :: "'u web_server \<Rightarrow> nat \<Rightarrow> shard \<Rightarrow> bool" where
  "shard_wf s i sh \<longleftrightarrow> distinct (map fst (connections sh)) \<and> heap_wf (timer_heap sh) \<and>
     (\<forall>p\<in>set (connections sh). entry_ok s i p)"

definition registered :: "'u web_server \<Rightarrow> bool" where
  "registered s \<longleftrightarrow> (\<forall>cid<length (store s). \<not> closed (conn_at s cid) \<longrightarrow>
     (sock (conn_at s cid), cid) \<in> set (connections (shards s ! get_shard_idx s (sock (conn_at s cid)))))"

definition tables_wf :: "'u web_server \<Rightarrow> bool" where
  "tables_wf s \<longleftrightarrow> shards s \<noteq> [] \<and> (\<forall>i<length (shards s). shard_wf s i (shards s ! i)) \<and> registered s \<and>
     closed_balance (metrics s) = of_nat (length (filter closed (store s)))"

text \<open>Connections in \<open>X\<close> may lack a timer: those a sweep has just collected.\<close>

definition timed :: "'u web_server \<Rightarrow> shard \<Rightarrow> int \<times> conn_id \<Rightarrow> bool" where
  "timed s sh p \<longleftrightarrow> (\<exists>e\<in>set (timer_heap sh). timer_fd e = fst p \<and>
     expires_at e \<le> last_activity (conn_at s (snd p)) + CONNECTION_TIMEOUT)"

definition timers_wf :: "conn_id set \<Rightarrow> 'u web_server \<Rightarrow> bool" where
  "timers_wf X s \<longleftrightarrow> (\<forall>i<length (shards s). \<forall>p\<in>set (connections (shards s ! i)).
     snd p \<notin> X \<longrightarrow> timed s (shards s ! i) p)"

definition conns_wf :: "'u web_server \<Rightarrow> bool" where
  "conns_wf s \<longleftrightarrow> (\<forall>cid<length (store s). conn_wf (conn_at s cid))"

definition server_wf :: "'u web_server \<Rightarrow> bool" where
  "server_wf s \<longleftrightarrow> tables_wf s \<and> timers_wf {} s \<and> conns_wf s"

lemma server_wfD:
  assumes "server_wf s"
  shows "tables_wf s" "timers_wf {} s" "conns_wf s"
  using assms by (simp_all add: server_wf_def)

lemma get_shard_idx_less: "tables_wf s \<Longrightarrow> get_shard_idx s fd < length (shards s)"
  by (simp add: tables_wf_def get_shard_idx_def)

lemma get_shard_idx_cong: "length (shards s') = length (shards s) \<Longrightarrow> get_shard_idx s' fd = get_shard_idx s fd"
  by (simp add: get_shard_idx_def)

lemma tables_entry:
  "tables_wf s \<Longrightarrow> i < length (shards s) \<Longrightarrow> p \<in> set (connections (shards s ! i)) \<Longrightarrow> entry_ok s i p"
  by (simp add: tables_wf_def shard_wf_def)

text \<open>What a lookup in the shard of a descriptor gives.\<close>

lemma tables_lookup:
  assumes "tables_wf s" "i < length (shards s)" "map_of (connections (shards s ! i)) fd = Some cid"
  shows "cid < length (store s)" "sock (conn_at s cid) = fd" "\<not> closed (conn_at s cid)" "get_shard_idx s fd = i"
  using tables_entry[OF assms(1,2) map_of_SomeD[OF assms(3)]] by (simp_all add: entry_ok_def)

lemma tables_member:
  assumes "tables_wf s" "i < length (shards s)" "(fd, cid) \<in> set (connections (shards s ! i))"
  shows "map_of (connections (shards s ! i)) fd = Some cid"
  using assms by (auto simp: tables_wf_def shard_wf_def)

lemma open_lookup:
  assumes "tables_wf s" "cid < length (store s)" "\<not> closed (conn_at s cid)"
  shows "map_of (connections (shards s ! get_shard_idx s (sock (conn_at s cid)))) (sock (conn_at s cid)) = Some cid"
proof -
  have "registered s" using assms(1) by (simp add: tables_wf_def)
  then have "(sock (conn_at s cid), cid) \<in> set (connections (shards s ! get_shard_idx s (sock (conn_at s cid))))"
    using assms(2,3) by (simp add: registered_def)
  then show ?thesis by (rule tables_member[OF assms(1) get_shard_idx_less[OF assms(1)]])
qed

text \<open>No two open connections share a descriptor.\<close>

lemma open_fd_inj:
  assumes "tables_wf s" "a < length (store s)" "b < length (store s)"
    and "\<not> closed (conn_at s a)" "\<not> closed (conn_at s b)" "sock (conn_at s a) = sock (conn_at s b)"
  shows "a = b"
  using open_lookup[OF assms(1,2,4)] open_lookup[OF assms(1,3,5)] unfolding assms(6) by simp

lemma timers_wf_mono: "timers_wf X s \<Longrightarrow> X \<subseteq> Y \<Longrightarrow> timers_wf Y s"
  by (auto simp: timers_wf_def)

section \<open>Steps that keep the tables\<close>

text \<open>
  Most operations work on connections and queues only: the shards and the close flags stay,
  and activity only moves forward.
\<close>

definition conn_keeps :: "'u connection \<Rightarrow> 'u connection \<Rightarrow> bool" where
  "conn_keeps c c' \<longleftrightarrow> sock c' = sock c \<and> closed c' = closed c \<and> last_activity c \<le> last_activity c'"

definition tables_frame :: "'u web_server \<Rightarrow> 'u web_server \<Rightarrow> bool" where
  "tables_frame s s' \<longleftrightarrow> shards s' = shards s \<and> length (store s') = length (store s) \<and>
     (\<forall>cid<length (store s). conn_keeps (conn_at s cid) (conn_at s' cid)) \<and>
     closed_balance (metrics s') = closed_balance (metrics s)"

lemma conn_keeps_refl [simp]: "conn_keeps c c"
  by (simp add: conn_keeps_def)

lemma conn_keeps_trans: "conn_keeps a b \<Longrightarrow> conn_keeps b c \<Longrightarrow> conn_keeps a c"
  by (auto simp: conn_keeps_def)

lemma send_frame_keeps: "send_frame c c' \<Longrightarrow> conn_keeps c c'"
  by (simp add: send_frame_def conn_keeps_def)

lemma tables_frame_refl [simp]: "tables_frame s s"
  by (simp add: tables_frame_def)

lemma tables_frame_trans: "tables_frame a b \<Longrightarrow> tables_frame b c \<Longrightarrow> tables_frame a c"
  by (auto simp: tables_frame_def intro: conn_keeps_trans)

lemma filter_closed_cong:
  assumes "length ys = length xs" "\<And>i. i < length xs \<Longrightarrow> closed (ys ! i) = closed (xs ! i)"
  shows "length (filter closed ys) = length (filter closed xs)"
proof -
  have "map closed ys = map closed xs" using assms by (simp add: list_eq_iff_nth_eq)
  then have "length (filter (\<lambda>b. b) (map closed ys)) = length (filter (\<lambda>b. b) (map closed xs))" by simp
  then show ?thesis by (simp add: filter_map o_def)
qed

lemma tables_frame_wf:
  assumes "tables_frame s s'" "tables_wf s"
  shows "tables_wf s'"
proof -
  note f = assms(1)[unfolded tables_frame_def conn_keeps_def]
  have "entry_ok s' i p" if "entry_ok s i p" for i p
    using that f by (simp add: entry_ok_def get_shard_idx_def)
  moreover have "length (filter closed (store s')) = length (filter closed (store s))"
    using f by (intro filter_closed_cong) (auto simp: conn_at_def)
  moreover have "registered s'"
    using f assms(2) by (simp add: tables_wf_def registered_def get_shard_idx_def)
  ultimately show ?thesis using f assms(2) by (simp add: tables_wf_def shard_wf_def)
qed

lemma tables_frame_timers:
  assumes "tables_frame s s'" "tables_wf s" "timers_wf X s"
  shows "timers_wf X s'"
proof -
  have "timed s' sh p" if "timed s sh p" "snd p < length (store s)" for sh p
    using that assms(1) by (fastforce simp: timed_def tables_frame_def conn_keeps_def)
  moreover have "snd p < length (store s)" if "p \<in> set (connections (shards s ! i))" "i < length (shards s)" for p i
    using tables_entry[OF assms(2) that(2,1)] by (simp add: entry_ok_def)
  ultimately show ?thesis using assms(1,3) by (auto simp: timers_wf_def tables_frame_def)
qed

section \<open>Steps on one connection\<close>

definition conn_op :: "(server_metrics \<Rightarrow> 'u connection \<Rightarrow> server_metrics \<times> 'u connection) \<Rightarrow> bool" where
  "conn_op f \<longleftrightarrow> (\<forall>m c. conn_keeps c (snd (f m c)) \<and> closed_balance (fst (f m c)) = closed_balance m \<and>
     (conn_wf c \<longrightarrow> conn_wf (snd (f m c))))"

lemma upd_conn_at:
  "conn_at (upd_conn cid f s) j =
     (if j = cid \<and> cid < length (store s) then snd (f (metrics s) (conn_at s cid)) else conn_at s j)"
  by (cases "cid < length (store s)") (auto simp: upd_conn_def conn_at_def not_less list_update_beyond split: prod.splits)

lemma upd_conn_fields [simp]:
  "shards (upd_conn cid f s) = shards s"
  "event_queue (upd_conn cid f s) = event_queue s"
  "threadpool (upd_conn cid f s) = threadpool s"
  "global_queue (upd_conn cid f s) = global_queue s"
  "length (store (upd_conn cid f s)) = length (store s)"
  "metrics (upd_conn cid f s) = fst (f (metrics s) (conn_at s cid))"
  by (simp_all add: upd_conn_def split: prod.splits)

lemma upd_conn_frame:
  "conn_op f \<Longrightarrow> tables_frame s (upd_conn cid f s)"
  by (simp add: tables_frame_def conn_op_def upd_conn_at)

lemma upd_conn_conns:
  "conn_op f \<Longrightarrow> conns_wf s \<Longrightarrow> conns_wf (upd_conn cid f s)"
  by (simp add: conns_wf_def conn_op_def upd_conn_at)

lemma upd_conn_wf [preserves]:
  assumes "conn_op f" "server_wf s"
  shows "server_wf (upd_conn cid f s)"
  using server_wfD[OF assms(2)] upd_conn_frame[OF assms(1), of s cid] upd_conn_conns[OF assms(1)]
    tables_frame_wf tables_frame_timers by (metis server_wf_def)

lemma conn_op_sends:
  "(\<And>m c m' c'. f m c = (m', c') \<Longrightarrow> \<exists>bs. sends bs m c m' c') \<Longrightarrow> conn_op f"
  unfolding conn_op_def sends_def by (metis prod.collapse send_frame_keeps)

lemma conn_ops:
  "conn_op (send_pre_encoded packet)"
  "conn_op (flush_conn owns_lock)"
  "conn_op (deliver_conn evts)"
  by (intro conn_op_sends; metis sends_send_pre_encoded flush_conn_sends deliver_conn_sends)+

section \<open>Closing\<close>

definition shut_down :: "'u connection \<Rightarrow> 'u connection" where
  "shut_down c = c\<lparr>closed := True, ksock := (ksock c)\<lparr>interest := None\<rparr>\<rparr>"

lemma close_conn_closed: "closed (conn_at s cid) \<Longrightarrow> close_conn cid s = s"
  by (simp add: close_conn_def)

lemma close_conn_open:
  assumes "\<not> closed (conn_at s cid)" "cid < length (store s)"
  defines "i \<equiv> get_shard_idx s (sock (conn_at s cid))"
  shows "shards (close_conn cid s) = (shards s)[i := (shards s ! i)
      \<lparr>connections := AList.delete (sock (conn_at s cid)) (connections (shards s ! i))\<rparr>]"
    and "store (close_conn cid s) = (store s)[cid := shut_down (conn_at s cid)]"
    and "metrics (close_conn cid s) = on_connection_closed (metrics s)"
    and "event_queue (close_conn cid s) = sq_push (disconnect_event cid) (event_queue s)"
  using assms
  by (simp_all add: close_conn_def Let_def upd_shard_def push_event_def get_shard_idx_def conn_at_def
      shut_down_def i_def)

lemma close_conn_other [simp]:
  "threadpool (close_conn cid s) = threadpool s"
  "global_queue (close_conn cid s) = global_queue s"
  "length (store (close_conn cid s)) = length (store s)"
  "length (shards (close_conn cid s)) = length (shards s)"
  "running (close_conn cid s) = running s"
  "notify_count (close_conn cid s) = notify_count s"
  "get_shard_idx (close_conn cid s) fd = get_shard_idx s fd"
  by (simp_all add: close_conn_def Let_def upd_shard_def push_event_def get_shard_idx_def)

lemma close_conn_at:
  "cid < length (store s) \<Longrightarrow> conn_at (close_conn cid s) j =
     (if j = cid \<and> \<not> closed (conn_at s cid) then shut_down (conn_at s cid) else conn_at s j)"
  by (cases "closed (conn_at s cid)")
    (auto simp: close_conn_closed close_conn_open conn_at_def nth_list_update)

lemma shut_down_fields [simp]:
  "closed (shut_down c)" "sock (shut_down c) = sock c" "last_activity (shut_down c) = last_activity c"
  "in_buf (shut_down c) = in_buf c" "outgoing_queue (shut_down c) = outgoing_queue c"
  "user_data (shut_down c) = user_data c" "queue_wf (shut_down c) \<longleftrightarrow> queue_wf c"
  by (simp_all add: shut_down_def queue_wf_def)

lemma close_conn_shard:
  assumes "tables_wf s" "cid < length (store s)" "\<not> closed (conn_at s cid)" "i < length (shards s)"
  shows "timer_heap (shards (close_conn cid s) ! i) = timer_heap (shards s ! i)"
    and "p \<in> set (connections (shards (close_conn cid s) ! i)) \<longleftrightarrow>
      p \<in> set (connections (shards s ! i)) \<and> snd p \<noteq> cid"
proof -
  let ?fd = "sock (conn_at s cid)"
  show "timer_heap (shards (close_conn cid s) ! i) = timer_heap (shards s ! i)"
    using assms get_shard_idx_less[OF assms(1)] by (simp add: close_conn_open nth_list_update)
  have key: "snd p = cid \<longleftrightarrow> fst p = ?fd" if "p \<in> set (connections (shards s ! i))"
    using tables_entry[OF assms(1,4) that] open_fd_inj[OF assms(1), of "snd p" cid] assms(2,3)
    by (auto simp: entry_ok_def)
  show "p \<in> set (connections (shards (close_conn cid s) ! i)) \<longleftrightarrow>
      p \<in> set (connections (shards s ! i)) \<and> snd p \<noteq> cid"
  proof (cases "i = get_shard_idx s ?fd")
    case True
    have "set (AList.delete ?fd (connections (shards s ! i))) =
        {p \<in> set (connections (shards s ! i)). fst p \<noteq> ?fd}"
      by (auto simp: AList.delete_eq)
    with True assms key show ?thesis by (auto simp: close_conn_open)
  next
    case False
    have "fst p \<noteq> ?fd" if "p \<in> set (connections (shards s ! i))"
      using tables_entry[OF assms(1,4) that] False by (auto simp: entry_ok_def)
    with False assms key show ?thesis by (auto simp: close_conn_open)
  qed
qed

lemma close_conn_tables:
  assumes "tables_wf s" "cid < length (store s)"
  shows "tables_wf (close_conn cid s)"
proof (cases "closed (conn_at s cid)")
  case False
  let ?s = "close_conn cid s"
  note cs = close_conn_shard[OF assms False] and at = close_conn_at[OF assms(2)]
  have "shard_wf ?s i (shards ?s ! i)" if i: "i < length (shards s)" for i
  proof -
    have wf: "shard_wf s i (shards s ! i)" using assms(1) i by (simp add: tables_wf_def)
    have "distinct (map fst (connections (shards ?s ! i)))"
      using wf i False assms(2) get_shard_idx_less[OF assms(1)] by (auto simp: shard_wf_def close_conn_open nth_list_update distinct_delete)
    moreover have "entry_ok ?s i p" if "p \<in> set (connections (shards ?s ! i))" for p
      using that cs(2)[OF i] tables_entry[OF assms(1) i, of p] at by (auto simp: entry_ok_def)
    ultimately show ?thesis using wf cs(1)[OF i] by (simp add: shard_wf_def)
  qed
  moreover have "registered ?s"
    unfolding registered_def
  proof (intro allI impI)
    fix j assume j: "j < length (store ?s)" "\<not> closed (conn_at ?s j)"
    then have o: "j < length (store s)" "\<not> closed (conn_at s j)" "j \<noteq> cid"
      using at[of j] False by (auto split: if_splits)
    let ?i = "get_shard_idx s (sock (conn_at s j))"
    have "(sock (conn_at s j), j) \<in> set (connections (shards s ! ?i))"
      using assms(1) o by (simp add: tables_wf_def registered_def)
    then show "(sock (conn_at ?s j), j) \<in> set (connections (shards ?s ! get_shard_idx ?s (sock (conn_at ?s j))))"
      using cs(2)[OF get_shard_idx_less[OF assms(1)]] o at[of j] by simp
  qed
  moreover have "length (filter closed (store ?s)) = Suc (length (filter closed (store s)))"
  proof -
    have "store s = take cid (store s) @ conn_at s cid # drop (Suc cid) (store s)"
      using assms(2) by (simp add: conn_at_def id_take_nth_drop)
    then have "filter closed (store s) = filter closed (take cid (store s)) @ filter closed (drop (Suc cid) (store s))"
      using False by (metis filter_append filter.simps(2))
    then show ?thesis using False assms(2) by (simp add: close_conn_open upd_conv_take_nth_drop)
  qed
  ultimately show ?thesis using assms False by (simp add: tables_wf_def close_conn_open)
qed (use assms in \<open>simp add: close_conn_closed\<close>)

lemma close_conn_timers:
  assumes "tables_wf s" "cid < length (store s)" "timers_wf X s"
  shows "timers_wf (X - {cid}) (close_conn cid s)"
proof (cases "closed (conn_at s cid)")
  case True
  then have "snd p \<noteq> cid" if "p \<in> set (connections (shards s ! i))" "i < length (shards s)" for p i
    using tables_entry[OF assms(1) that(2,1)] by (auto simp: entry_ok_def)
  with True assms(3) show ?thesis by (auto simp: close_conn_closed timers_wf_def)
next
  case False
  note cs = close_conn_shard[OF assms(1,2) False] and at = close_conn_at[OF assms(2)]
  show ?thesis using assms(3) cs at by (auto simp: timers_wf_def timed_def)
qed

lemma close_conn_conns:
  assumes "cid < length (store s)" "\<And>j. j < length (store s) \<Longrightarrow> j \<noteq> cid \<Longrightarrow> conn_wf (conn_at s j)"
    and "rb_wf (in_buf (conn_at s cid))" "queue_wf (conn_at s cid)" "\<not> closed (conn_at s cid)"
  shows "conns_wf (close_conn cid s)"
  using assms by (auto simp: conns_wf_def close_conn_at conn_wf_def)

lemma close_conn_wf [preserves]:
  assumes "server_wf s" "cid < length (store s)"
  shows "server_wf (close_conn cid s)"
proof (cases "closed (conn_at s cid)")
  case False
  have "conn_wf (conn_at s j)" if "j < length (store s)" for j
    using assms(1) that by (simp add: server_wf_def conns_wf_def)
  with False assms(2) have "conns_wf (close_conn cid s)"
    by (intro close_conn_conns) (auto simp: conn_wf_def)
  moreover have "timers_wf {} (close_conn cid s)"
    using close_conn_timers[OF server_wfD(1)[OF assms(1)] assms(2) server_wfD(2)[OF assms(1)]] by simp
  ultimately show ?thesis
    using close_conn_tables[OF server_wfD(1)[OF assms(1)] assms(2)] by (simp add: server_wf_def)
qed (use assms in \<open>simp add: close_conn_closed\<close>)

lemma close_conn_idem: "cid < length (store s) \<Longrightarrow> close_conn cid (close_conn cid s) = close_conn cid s"
  by (rule close_conn_closed) (simp add: close_conn_at)

section \<open>Accepting\<close>

text \<open>\<open>accept\<close> never returns a descriptor that is still open.\<close>

definition fresh_fd :: "'u web_server \<Rightarrow> int \<Rightarrow> bool" where
  "fresh_fd s fd \<longleftrightarrow> (\<forall>cid<length (store s). \<not> closed (conn_at s cid) \<longrightarrow> sock (conn_at s cid) \<noteq> fd)"

definition accepted_conn :: "int \<Rightarrow> nat \<Rightarrow> kernel_socket \<Rightarrow> 'u connection" where
  "accepted_conn fd now k = (add_fd_to_epoll EPOLLIN (new_connection fd now k))\<lparr>current_epoll_events := EPOLLIN\<rparr>"

lemma accepted_conn_fields [simp]:
  "sock (accepted_conn fd now k) = fd" "\<not> closed (accepted_conn fd now k)"
  "last_activity (accepted_conn fd now k) = now" "user_data (accepted_conn fd now k) = None"
  "in_buf (accepted_conn fd now k) = rb_new 8192" "outgoing_queue (accepted_conn fd now k) = []"
  by (simp_all add: accepted_conn_def add_fd_to_epoll_def new_connection_def)

lemma accepted_conn_wf [simp]: "conn_wf (accepted_conn fd now k)"
proof -
  have "interest_wf (accepted_conn fd now k)"
    by (simp add: interest_defs accepted_conn_def add_fd_to_epoll_def new_connection_def)
  then show ?thesis by (simp add: conn_wf_def queue_wf_def rb_wf_new accepted_conn_def add_fd_to_epoll_def new_connection_def)
qed

lemma accept_one_fields:
  "store (accept_one now fd k s) = store s @ [accepted_conn fd now k]"
  "metrics (accept_one now fd k s) = on_connection_accepted (metrics s)"
  "event_queue (accept_one now fd k s) = sq_push (connect_event (length (store s))) (event_queue s)"
  "shards (accept_one now fd k s) = (shards s)[get_shard_idx s fd := (shards s ! get_shard_idx s fd)
     \<lparr>connections := AList.update fd (length (store s)) (connections (shards s ! get_shard_idx s fd)),
      timer_heap := heap_push (TimerEvent (now + CONNECTION_TIMEOUT) fd) (timer_heap (shards s ! get_shard_idx s fd))\<rparr>]"
  "get_shard_idx (accept_one now fd k s) fd' = get_shard_idx s fd'"
  by (simp_all add: accept_one_def Let_def push_event_def upd_shard_def accepted_conn_def get_shard_idx_def)

lemma accept_one_at:
  "conn_at (accept_one now fd k s) j =
     (if j = length (store s) then accepted_conn fd now k
      else if j < length (store s) then conn_at s j else conn_at (accept_one now fd k s) j)"
  by (simp add: conn_at_def accept_one_fields nth_append)

lemma accept_one_shard:
  assumes "tables_wf s" "fresh_fd s fd" "i < length (shards s)"
  shows "set (connections (shards (accept_one now fd k s) ! i)) = set (connections (shards s ! i)) \<union>
      (if i = get_shard_idx s fd then {(fd, length (store s))} else {})"
    and "set (timer_heap (shards (accept_one now fd k s) ! i)) = set (timer_heap (shards s ! i)) \<union>
      (if i = get_shard_idx s fd then {TimerEvent (now + CONNECTION_TIMEOUT) fd} else {})"
    and "distinct (map fst (connections (shards (accept_one now fd k s) ! i)))"
    and "heap_wf (timer_heap (shards (accept_one now fd k s) ! i))"
proof -
  let ?i = "get_shard_idx s fd" and ?c = "connections (shards s ! i)"
  note ii = get_shard_idx_less[OF assms(1), of fd]
  have wf: "shard_wf s i (shards s ! i)" using assms(1,3) by (simp add: tables_wf_def)
  have new: "fd \<notin> fst ` set ?c"
    using tables_entry[OF assms(1,3)] assms(2) by (force simp: entry_ok_def fresh_fd_def)
  have upd: "AList.update fd n al = al @ [(fd, n)]" if "fd \<notin> fst ` set al" for n and al :: "(int \<times> nat) list"
    using that by (induction al) auto
  show "set (connections (shards (accept_one now fd k s) ! i)) = set ?c \<union>
      (if i = ?i then {(fd, length (store s))} else {})"
    using assms(3) ii new by (auto simp: accept_one_fields nth_list_update upd)
  show "set (timer_heap (shards (accept_one now fd k s) ! i)) = set (timer_heap (shards s ! i)) \<union>
      (if i = ?i then {TimerEvent (now + CONNECTION_TIMEOUT) fd} else {})"
    using assms(3) ii by (auto simp: accept_one_fields nth_list_update)
  show "distinct (map fst (connections (shards (accept_one now fd k s) ! i)))"
    using assms(3) ii wf by (auto simp: accept_one_fields nth_list_update shard_wf_def distinct_update)
  show "heap_wf (timer_heap (shards (accept_one now fd k s) ! i))"
    using assms(3) ii wf timers.push_invar by (auto simp: accept_one_fields nth_list_update shard_wf_def)
qed

lemma accept_one_wf [preserves]:
  assumes "server_wf s" "fresh_fd s fd"
  shows "server_wf (accept_one now fd k s)"
proof -
  let ?s = "accept_one now fd k s" and ?n = "length (store s)"
  note t = server_wfD(1)[OF assms(1)]
  note sh = accept_one_shard[OF t assms(2), of _ now k]
  have len: "length (shards ?s) = length (shards s)" "length (store ?s) = Suc ?n"
    by (simp_all add: accept_one_fields)
  have at: "conn_at ?s j = (if j = ?n then accepted_conn fd now k else conn_at s j)" if "j \<le> ?n" for j
    using that accept_one_at[of now fd k s j] by auto
  have old: "snd p < ?n" if "p \<in> set (connections (shards s ! i))" "i < length (shards s)" for p i
    using tables_entry[OF t that(2,1)] by (simp add: entry_ok_def)
  have entry: "entry_ok ?s i p" if "p \<in> set (connections (shards ?s ! i))" "i < length (shards s)" for i p
    using that(1) sh(1)[OF that(2)] tables_entry[OF t that(2), of p]
    by (auto simp: entry_ok_def accept_one_fields(5) len at split: if_splits)
  have "registered ?s"
    unfolding registered_def
  proof (intro allI impI)
    fix j assume j: "j < length (store ?s)" "\<not> closed (conn_at ?s j)"
    let ?i = "get_shard_idx s (sock (conn_at ?s j))"
    note i = get_shard_idx_less[OF t, of "sock (conn_at ?s j)"]
    show "(sock (conn_at ?s j), j) \<in> set (connections (shards ?s ! get_shard_idx ?s (sock (conn_at ?s j))))"
    proof (cases "j = ?n")
      case True
      then show ?thesis using sh(1)[OF i] at[of j] by (simp add: accept_one_fields(5))
    next
      case False
      then have "j < ?n" using j(1) len by simp
      moreover have "registered s" using t by (simp add: tables_wf_def)
      ultimately show ?thesis using sh(1)[OF i] at[of j] j(2) False
        by (simp add: accept_one_fields(5) registered_def)
    qed
  qed
  moreover have "closed_balance (metrics ?s) = of_nat (length (filter closed (store ?s)))"
    using t by (simp add: accept_one_fields tables_wf_def)
  moreover have "shards s \<noteq> []" using t by (simp add: tables_wf_def)
  ultimately have "tables_wf ?s"
    using sh(3,4) entry len(1) by (auto simp: tables_wf_def shard_wf_def)
  moreover have "timers_wf {} ?s"
    unfolding timers_wf_def
  proof (intro allI impI ballI)
    fix i p assume i: "i < length (shards ?s)" and p: "p \<in> set (connections (shards ?s ! i))"
    have i': "i < length (shards s)" using i len by simp
    show "timed ?s (shards ?s ! i) p"
    proof (cases "p \<in> set (connections (shards s ! i))")
      case True
      then have "timed s (shards s ! i) p"
        using server_wfD(2)[OF assms(1)] i' by (simp add: timers_wf_def)
      then show ?thesis using sh(2)[OF i'] at[of "snd p"] old[OF True i'] by (auto simp: timed_def)
    next
      case False
      then show ?thesis using p sh(1,2)[OF i'] at[of ?n] by (auto simp: timed_def split: if_splits)
    qed
  qed
  moreover have "conns_wf ?s"
    using server_wfD(3)[OF assms(1)] at by (auto simp: conns_wf_def len less_Suc_eq)
  ultimately show ?thesis by (simp add: server_wf_def)
qed

lemma accept_one_fresh:
  "fresh_fd s fd' \<Longrightarrow> fd' \<noteq> fd \<Longrightarrow> fresh_fd (accept_one now fd k s) fd'"
  by (auto simp: fresh_fd_def accept_one_fields conn_at_def nth_append)

lemma accept_loop_wf [preserves]:
  assumes "server_wf s" "distinct (map fst accepted)" "\<forall>p\<in>set accepted. fresh_fd s (fst p)"
  shows "server_wf (accept_loop now accepted s)"
  using assms
proof (induction now accepted s rule: accept_loop.induct)
  case (2 now fd k accepted s)
  have "server_wf (accept_one now fd k s)" using 2 by (intro accept_one_wf) auto
  moreover have "\<forall>p\<in>set accepted. fresh_fd (accept_one now fd k s) (fst p)"
    using 2 by (auto intro!: accept_one_fresh simp: image_iff)
  ultimately show ?case using 2 by simp
qed simp

section \<open>Reading and writing\<close>

lemma push_events_fields [simp]:
  "shards (fold push_event es s) = shards s"
  "store (fold push_event es s) = store s"
  "metrics (fold push_event es s) = metrics s"
  "threadpool (fold push_event es s) = threadpool s"
  "global_queue (fold push_event es s) = global_queue s"
  "event_queue (fold push_event es s) = fold sq_push es (event_queue s)"
  by (induction es arbitrary: s) (simp_all add: push_event_def)

lemma conn_at_fold_push [simp]: "conn_at (fold push_event es s) cid = conn_at s cid"
  by (simp add: conn_at_def)

lemma queue_fold_push [simp]: "queue (fold sq_push es q) = queue q @ es"
  "finished (fold sq_push es q) = finished q"
  by (induction es arbitrary: q) (simp_all add: sq_push_def)

text \<open>
  A handler that changes one connection, pushes events, and closes on demand. The changed
  connection need only be fully well formed when it stays open.
\<close>

definition conn_result ::
  "bool \<Rightarrow> network_event list \<Rightarrow> server_metrics \<Rightarrow> 'u connection \<Rightarrow> conn_id \<Rightarrow> 'u web_server \<Rightarrow> 'u web_server" where
  "conn_result cl es m c cid s =
     (let s1 = fold push_event es (s\<lparr>metrics := m, store := (store s)[cid := c]\<rparr>)
      in if cl then close_conn cid s1 else s1)"

lemma handle_read_result:
  "read_loop now (metrics s) (conn_at s cid) = (cl, msgs, m, c) \<Longrightarrow>
   handle_read now cid s = conn_result cl (map (message_event cid) msgs) m c cid s"
  by (simp add: handle_read_def conn_result_def fold_map o_def)

lemma handle_write_result:
  "handle_write_conn (metrics s) (conn_at s cid) = (cl, m, c) \<Longrightarrow>
   handle_write cid s = conn_result cl [] m c cid s"
  by (simp add: handle_write_def conn_result_def)

lemma conn_result_wf:
  assumes "server_wf s" "cid < length (store s)"
    and "conn_keeps (conn_at s cid) c" "closed_balance m = closed_balance (metrics s)"
    and "rb_wf (in_buf c)" "queue_wf c" "\<not> cl \<Longrightarrow> conn_wf c"
  shows "server_wf (conn_result cl es m c cid s)"
proof -
  let ?s = "fold push_event es (s\<lparr>metrics := m, store := (store s)[cid := c]\<rparr>)"
  note w = server_wfD[OF assms(1)]
  have at: "conn_at ?s j = (if j = cid then c else conn_at s j)" for j
    using assms(2) by (simp add: conn_at_def nth_list_update)
  have "tables_frame s ?s" using assms(2-4) at by (simp add: tables_frame_def)
  then have t: "tables_wf ?s" "timers_wf {} ?s" using w tables_frame_wf tables_frame_timers by blast+
  have others: "conn_wf (conn_at ?s j)" if "j < length (store ?s)" "j \<noteq> cid" for j
    using w(3) that at[of j] by (simp add: conns_wf_def)
  have len: "cid < length (store ?s)" using assms(2) by simp
  show ?thesis
  proof (cases "cl \<and> \<not> closed (conn_at ?s cid)")
    case True
    have "conns_wf (close_conn cid ?s)"
      using close_conn_conns[OF len others] True assms(5,6) at[of cid] by simp
    moreover have "timers_wf {} (close_conn cid ?s)" using close_conn_timers[OF t(1) len t(2)] by simp
    ultimately show ?thesis
      using True close_conn_tables[OF t(1) len] by (simp add: conn_result_def Let_def server_wf_def)
  next
    case False
    have "conn_wf c" using False assms(5-7) at[of cid] by (auto simp: conn_wf_def)
    then have "conns_wf ?s" unfolding conns_wf_def using others at[of cid] by metis
    with False t show ?thesis
      by (auto simp: conn_result_def Let_def server_wf_def close_conn_closed)
  qed
qed

definition clock_ok :: "nat \<Rightarrow> 'u web_server \<Rightarrow> bool" where
  "clock_ok now s \<longleftrightarrow> (\<forall>cid<length (store s). last_activity (conn_at s cid) \<le> now)"

lemma read_loop_activity:
  assumes "read_loop now m c = (cl, msgs, m', c')" "last_activity c \<le> now"
  shows "last_activity c \<le> last_activity c' \<and> last_activity c' \<le> now"
proof -
  have "last_activity c' \<in> {last_activity c, now}"
    by (rule read_loop_invariant[where P = "\<lambda>m1 c1. last_activity c1 \<in> {last_activity c, now}", OF _ assms(1)])
      (auto simp: set_rscript_def take_in_def)
  then show ?thesis using assms(2) by auto
qed

lemma handle_read_wf [preserves]:
  assumes "server_wf s" "cid < length (store s)" "clock_ok now s"
  shows "server_wf (handle_read now cid s)"
proof -
  obtain cl msgs m c where r: "read_loop now (metrics s) (conn_at s cid) = (cl, msgs, m, c)"
    by (metis prod_cases4)
  have wf: "conn_wf (conn_at s cid)" using assms(1,2) by (simp add: server_wf_def conns_wf_def)
  note spec = read_loop_spec[OF r conjunct1[OF wf[unfolded conn_wf_def]]]
  have "conn_keeps (conn_at s cid) c"
    using spec read_loop_activity[OF r] assms(2,3) by (simp add: conn_keeps_def read_frame_def clock_ok_def)
  moreover have "conn_wf c" using read_loop_conn_wf[OF r wf] .
  ultimately show ?thesis unfolding handle_read_result[OF r]
    using assms(1,2) spec by (intro conn_result_wf) (auto simp: conn_wf_def)
qed

lemma handle_write_wf [preserves]:
  assumes "server_wf s" "cid < length (store s)"
  shows "server_wf (handle_write cid s)"
proof -
  obtain cl m c where r: "handle_write_conn (metrics s) (conn_at s cid) = (cl, m, c)"
    by (metis prod_cases3)
  have wf: "conn_wf (conn_at s cid)" using assms(1,2) by (simp add: server_wf_def conns_wf_def)
  note spec = handle_write_conn_spec[OF r]
  show ?thesis unfolding handle_write_result[OF r]
    using assms wf spec by (intro conn_result_wf) (auto simp: conn_wf_def send_frame_keeps send_frame_def)
qed

section \<open>Loops over connections and shards\<close>

lemma fold_preserves:
  assumes "P s" "\<And>x s. x \<in> set xs \<Longrightarrow> P s \<Longrightarrow> P (f x s)"
  shows "P (fold f xs s)"
  using assms by (induction xs arbitrary: s) auto

lemma flush_all_queues_wf [preserves]: "server_wf s \<Longrightarrow> server_wf (flush_all_queues locks s)"
  unfolding flush_all_queues_def flush_shard_def Let_def
  by (rule fold_preserves, assumption, rule fold_preserves, assumption, rule upd_conn_wf[OF conn_ops(2)])

lemma run_task_wf [preserves]: "server_wf s \<Longrightarrow> server_wf (run_task t s)"
  unfolding run_task_def task_deliver_def
  by (rule fold_preserves, assumption, rule upd_conn_wf[OF conn_ops(3)])

lemma SendPreEncoded_wf [preserves]: "server_wf s \<Longrightarrow> server_wf (SendPreEncoded cid packet s)"
  unfolding SendPreEncoded_def by (rule upd_conn_wf[OF conn_ops(1)])

section \<open>The idle sweep\<close>

lemma sweep_shard_fields:
  assumes "sweep_shard now i s = (out, s')"
  shows "store s' = store s" "metrics s' = metrics s" "event_queue s' = event_queue s"
    "length (shards s') = length (shards s)"
    "\<And>j. connections (shards s' ! j) = connections (shards s ! j)"
    "\<And>j. j \<noteq> i \<Longrightarrow> shards s' ! j = shards s ! j"
    "threadpool s' = threadpool s" "global_queue s' = global_queue s"
proof -
  show "connections (shards s' ! j) = connections (shards s ! j)" for j
    using assms by (cases "i < length (shards s)"; cases "j = i")
      (auto simp: sweep_shard_def upd_shard_def not_less list_update_beyond split: prod.splits)
qed (use assms in \<open>auto simp: sweep_shard_def upd_shard_def split: prod.splits\<close>)

text \<open>After the sweep of shard \<open>i\<close>: who was collected, and the timers that remain.\<close>

definition idle_since :: "nat \<Rightarrow> 'u connection \<Rightarrow> bool" where
  "idle_since now c \<longleftrightarrow> last_activity c + CONNECTION_TIMEOUT \<le> now"

lemma sweep_shard_spec:
  assumes "sweep_shard now i s = (out, s')" "tables_wf s" "timers_wf X s" "i < length (shards s)"
  shows "tables_wf s' \<and> timers_wf (X \<union> set out) s' \<and>
    (\<forall>cid\<in>set out. cid < length (store s) \<and> \<not> closed (conn_at s cid) \<and> idle_since now (conn_at s cid)) \<and>
    (\<forall>p\<in>set (connections (shards s ! i)). snd p \<notin> X \<longrightarrow> idle_since now (conn_at s (snd p)) \<longrightarrow> snd p \<in> set out)"
proof -
  let ?sh = "shards s ! i" and ?look = "shard_lookup s (shards s ! i)"
  obtain h where sw: "sweep now ?look (timer_heap ?sh) = (h, out)"
    and s': "s' = upd_shard i (\<lambda>sh. sh\<lparr>timer_heap := h\<rparr>) s"
    using assms(1) by (auto simp: sweep_shard_def split: prod.splits)
  note f = sweep_shard_fields[OF assms(1)]
  have wf: "shard_wf s i ?sh" using assms(2,4) by (simp add: tables_wf_def)
  then have hw: "heap_wf (timer_heap ?sh)" by (simp add: shard_wf_def)
  note spec = sweep_spec[OF sw hw]
  have at: "conn_at s' j = conn_at s j" for j using f(1) by (simp add: conn_at_def)
  have hp: "timer_heap (shards s' ! i) = h" using assms(4) by (simp add: s' upd_shard_def)
  have look: "?look fd = Some (cid, last) \<longleftrightarrow> (fd, cid) \<in> set (connections ?sh) \<and> last = last_activity (conn_at s cid)"
    for fd cid last
    using tables_member[OF assms(2,4)] map_of_SomeD[of "connections ?sh" fd cid] by (auto simp: shard_lookup_def)
  have entry: "entry_ok s' j p \<longleftrightarrow> entry_ok s j p" for j p
    by (simp add: entry_ok_def f(1,4) at get_shard_idx_def)
  have "shard_wf s' j (shards s' ! j)" if "j < length (shards s)" for j
  proof (cases "j = i")
    case True
    then show ?thesis using wf spec hp f(5)[of i] entry by (simp add: shard_wf_def)
  next
    case False
    then show ?thesis using assms(2) that f(6)[OF False] entry by (simp add: tables_wf_def shard_wf_def)
  qed
  moreover have "registered s'"
    using assms(2) by (simp add: tables_wf_def registered_def f(1,4,5) at get_shard_idx_def)
  moreover have "shards s' \<noteq> []" using f(4) assms(4) by auto
  ultimately have "tables_wf s'" using assms(2) by (simp add: tables_wf_def f(1,2,4))
  moreover have "timers_wf (X \<union> set out) s'"
    unfolding timers_wf_def
  proof (intro allI impI ballI)
    fix j p assume j: "j < length (shards s')" and p: "p \<in> set (connections (shards s' ! j))"
      and out: "snd p \<notin> X \<union> set out"
    have p': "p \<in> set (connections (shards s ! j))" using p f(5) by simp
    have tm: "timed s (shards s ! j) p" using assms(3) j p' out f(4) by (simp add: timers_wf_def)
    show "timed s' (shards s' ! j) p"
    proof (cases "j = i")
      case True
      let ?cid = "snd p" and ?last = "last_activity (conn_at s (snd p))"
      obtain e where e: "e \<in> set (timer_heap ?sh)" "timer_fd e = fst p" "expires_at e \<le> ?last + CONNECTION_TIMEOUT"
        using tm True by (auto simp: timed_def)
      have l: "?look (timer_fd e) = Some (?cid, ?last)" using look e(2) p' True by simp
      show ?thesis using sweep_keeps_deadline[OF sw hw e(1) l e(3)] out e(2) hp True at
        by (auto simp: timed_def)
    next
      case False
      then show ?thesis using tm f(6)[OF False] at by (simp add: timed_def)
    qed
  qed
  moreover have "cid < length (store s) \<and> \<not> closed (conn_at s cid) \<and> idle_since now (conn_at s cid)"
    if "cid \<in> set out" for cid
  proof -
    have "idle now ?look cid" using spec that by blast
    then obtain fd where fd: "(fd, cid) \<in> set (connections ?sh)" "idle_since now (conn_at s cid)"
      using look by (auto simp: idle_def idle_since_def)
    then show ?thesis using tables_entry[OF assms(2,4) fd(1)] by (simp add: entry_ok_def)
  qed
  moreover have "snd p \<in> set out"
    if p: "p \<in> set (connections ?sh)" "snd p \<notin> X" "idle_since now (conn_at s (snd p))" for p
  proof -
    obtain e where e: "e \<in> set (timer_heap ?sh)" "timer_fd e = fst p"
      "expires_at e \<le> last_activity (conn_at s (snd p)) + CONNECTION_TIMEOUT"
      using assms(3,4) p by (auto simp: timers_wf_def timed_def)
    have "?look (timer_fd e) = Some (snd p, last_activity (conn_at s (snd p)))" using look e(2) p(1) by simp
    then show ?thesis using spec e p(3) by (auto simp: idle_since_def)
  qed
  ultimately show ?thesis by blast
qed

lemma sweep_shards_spec:
  assumes "sweep_shards now is s = (out, s')" "tables_wf s" "timers_wf X s" "set is \<subseteq> {..<length (shards s)}"
  shows "tables_wf s' \<and> timers_wf (X \<union> set out) s' \<and> store s' = store s \<and> metrics s' = metrics s \<and>
    event_queue s' = event_queue s \<and> length (shards s') = length (shards s) \<and>
    (\<forall>cid\<in>set out. cid < length (store s) \<and> \<not> closed (conn_at s cid) \<and> idle_since now (conn_at s cid)) \<and>
    (\<forall>i\<in>set is. \<forall>p\<in>set (connections (shards s ! i)).
       snd p \<notin> X \<longrightarrow> idle_since now (conn_at s (snd p)) \<longrightarrow> snd p \<in> set out)"
  using assms
proof (induction now "is" s arbitrary: X out s' rule: sweep_shards.induct)
  case (2 now i "is" s)
  obtain out1 s1 out2 where sw: "sweep_shard now i s = (out1, s1)" "sweep_shards now is s1 = (out2, s')"
    "out = out1 @ out2"
    using 2(2) by (auto simp: Let_def split: prod.splits)
  note f = sweep_shard_fields[OF sw(1)]
  have at: "conn_at s1 j = conn_at s j" for j using f(1) by (simp add: conn_at_def)
  have i: "i < length (shards s)" using 2(5) by simp
  note one = sweep_shard_spec[OF sw(1) 2(3,4) i]
  have sub: "set is \<subseteq> {..<length (shards s1)}" using 2(5) f(4) by simp
  have rest: "tables_wf s' \<and> timers_wf (X \<union> set out1 \<union> set out2) s' \<and> store s' = store s \<and> metrics s' = metrics s \<and>
    event_queue s' = event_queue s \<and> length (shards s') = length (shards s) \<and>
    (\<forall>cid\<in>set out2. cid < length (store s) \<and> \<not> closed (conn_at s cid) \<and> idle_since now (conn_at s cid)) \<and>
    (\<forall>j\<in>set is. \<forall>p\<in>set (connections (shards s ! j)).
       snd p \<notin> X \<union> set out1 \<longrightarrow> idle_since now (conn_at s (snd p)) \<longrightarrow> snd p \<in> set out2)"
    using "2.IH"[OF sw(1)[symmetric] refl sw(2) _ _ sub, of "X \<union> set out1"] one f at by simp
  show ?case using rest one sw(3) by (auto simp: Un_assoc)
qed auto

lemma timeout_conn_steps:
  assumes "tables_wf s" "timers_wf (set out) s" "conns_wf s" "set out \<subseteq> {..<length (store s)}"
  shows "server_wf (fold timeout_conn out s) \<and> length (store (fold timeout_conn out s)) = length (store s) \<and>
    (\<forall>j. conn_at (fold timeout_conn out s) j =
       (if j \<in> set out \<and> \<not> closed (conn_at s j) then shut_down (conn_at s j) else conn_at s j))"
  using assms
proof (induction out arbitrary: s)
  case (Cons cid out)
  let ?m = "s\<lparr>metrics := on_timeout (metrics s)\<rparr>"
  let ?s = "timeout_conn cid s"
  have frame: "tables_frame s ?m" by (simp add: tables_frame_def conn_at_def)
  have t: "tables_wf ?m" using tables_frame_wf[OF frame Cons.prems(1)] .
  have len: "cid < length (store ?m)" using Cons.prems(4) by simp
  have at: "conn_at ?m j = conn_at s j" for j by (simp add: conn_at_def)
  have "timers_wf (set (cid # out) - {cid}) ?s"
    unfolding timeout_conn_def
    by (rule close_conn_timers[OF t len tables_frame_timers[OF frame Cons.prems(1,2)]])
  then have tm: "timers_wf (set out) ?s" by (rule timers_wf_mono) auto
  have cw: "conn_wf (conn_at ?m j)" if "j < length (store ?m)" for j
    using Cons.prems(3) that at[of j] by (simp add: conns_wf_def)
  have "conns_wf ?s"
  proof (cases "closed (conn_at ?m cid)")
    case True
    then show ?thesis using cw by (simp add: timeout_conn_def close_conn_closed conns_wf_def)
  next
    case False
    then show ?thesis unfolding timeout_conn_def
      using close_conn_conns[OF len cw _ _ False] cw[OF len] by (simp add: conn_wf_def)
  qed
  moreover have "tables_wf ?s" unfolding timeout_conn_def by (rule close_conn_tables[OF t len])
  moreover have lens: "length (store ?s) = length (store s)" by (simp add: timeout_conn_def)
  ultimately have IH: "server_wf (fold timeout_conn out ?s) \<and>
      length (store (fold timeout_conn out ?s)) = length (store ?s) \<and>
      (\<forall>j. conn_at (fold timeout_conn out ?s) j =
         (if j \<in> set out \<and> \<not> closed (conn_at ?s j) then shut_down (conn_at ?s j) else conn_at ?s j))"
    using Cons.IH[of ?s] tm Cons.prems(4) by simp
  have "conn_at ?s j = (if j = cid \<and> \<not> closed (conn_at s cid) then shut_down (conn_at s cid) else conn_at s j)" for j
    using close_conn_at[OF len, of j] by (simp add: timeout_conn_def at)
  then show ?case using IH lens by auto
qed (simp add: server_wf_def)

text \<open>
  A sweep closes exactly the connections that have been idle for the whole timeout.
\<close>

lemma check_timeouts_spec:
  assumes "server_wf s"
  shows "server_wf (check_timeouts now s) \<and> length (store (check_timeouts now s)) = length (store s) \<and>
    (\<forall>cid<length (store s). conn_at (check_timeouts now s) cid =
       (if \<not> closed (conn_at s cid) \<and> idle_since now (conn_at s cid)
        then shut_down (conn_at s cid) else conn_at s cid))"
proof -
  note w = server_wfD[OF assms]
  obtain out s1 where sw: "sweep_shards now [0..<length (shards s)] s = (out, s1)" by force
  have sub: "set [0..<length (shards s)] \<subseteq> {..<length (shards s)}" by auto
  note spec = sweep_shards_spec[OF sw w(1,2) sub]
  have at: "conn_at s1 j = conn_at s j" for j using spec by (simp add: conn_at_def)
  have all: "cid \<in> set out \<longleftrightarrow> \<not> closed (conn_at s cid) \<and> idle_since now (conn_at s cid)"
    if "cid < length (store s)" for cid
  proof
    assume "\<not> closed (conn_at s cid) \<and> idle_since now (conn_at s cid)"
    moreover have "registered s" using w(1) by (simp add: tables_wf_def)
    ultimately show "cid \<in> set out"
      using spec that get_shard_idx_less[OF w(1)] unfolding registered_def by fastforce
  qed (use spec in auto)
  have "conns_wf s1" using w(3) spec at by (simp add: conns_wf_def)
  then have fin: "server_wf (fold timeout_conn out s1) \<and> length (store (fold timeout_conn out s1)) = length (store s1) \<and>
    (\<forall>j. conn_at (fold timeout_conn out s1) j =
       (if j \<in> set out \<and> \<not> closed (conn_at s1 j) then shut_down (conn_at s1 j) else conn_at s1 j))"
    using spec by (intro timeout_conn_steps) auto
  have eq: "check_timeouts now s = fold timeout_conn out s1" by (simp add: check_timeouts_def sw)
  have len: "length (store s1) = length (store s)" using spec by simp
  show ?thesis unfolding eq using fin all len by (simp add: at)
qed

section \<open>The event loop\<close>

text \<open>
  What the kernel may deliver with a wakeup: accepted descriptors are not open, and the
  clock has not gone back.
\<close>

definition wakeup_ok :: "wakeup \<Rightarrow> 'u web_server \<Rightarrow> bool" where
  "wakeup_ok w s \<longleftrightarrow> distinct (map fst (w_accepted w)) \<and>
     (\<forall>p\<in>set (w_accepted w). fresh_fd s (fst p)) \<and> clock_ok (w_now w) s"

lemma kernel_answers_conn_op:
  "conn_op (\<lambda>m c. (m, c\<lparr>ksock := (ksock c)\<lparr>rscript := rscript (ksock c) @ rs, wscript := wscript (ksock c) @ ws\<rparr>\<rparr>))"
  by (auto simp: conn_op_def conn_keeps_def conn_wf_def queue_wf_def interest_defs)

lemma kernel_answers_wf [preserves]: "server_wf s \<Longrightarrow> server_wf (kernel_answers a s)"
  unfolding kernel_answers_def by (cases a) (simp add: upd_conn_wf kernel_answers_conn_op)

lemma server_wf_cong:
  assumes "shards s' = shards s" "store s' = store s" "metrics s' = metrics s"
  shows "server_wf s' \<longleftrightarrow> server_wf s"
proof -
  have "conn_at s' = conn_at s" by (rule ext) (simp add: conn_at_def assms)
  then show ?thesis
    by (simp add: server_wf_def tables_wf_def timers_wf_def conns_wf_def shard_wf_def registered_def
        entry_ok_def[abs_def] timed_def[abs_def] get_shard_idx_def assms)
qed

lemma handle_timer_fd_wf [preserves]:
  assumes "server_wf s"
  shows "server_wf (handle_timer_fd w s)"
proof -
  define s2 where "s2 = (let s1 = flush_all_queues (\<lambda>cid. cid \<in> set (w_locks w)) s
    in s1\<lparr>stats_timer_accumulator := stats_timer_accumulator s1 + w_expirations w, ticks := ticks s1 + w_expirations w\<rparr>)"
  have eq: "handle_timer_fd w s = (if stats_timer_accumulator s2 \<ge> 6000
      then (check_timeouts (w_now w) s2)\<lparr>stats_timer_accumulator := 0\<rparr> else s2)"
    by (simp only: handle_timer_fd_def s2_def Let_def)
  have s2: "server_wf s2"
    using flush_all_queues_wf[OF assms] by (rule server_wf_cong[THEN iffD2, rotated 3]) (simp_all add: s2_def Let_def)
  have "server_wf (check_timeouts (w_now w) s2)" using check_timeouts_spec[OF s2] by blast
  then have "server_wf ((check_timeouts (w_now w) s2)\<lparr>stats_timer_accumulator := 0\<rparr>)"
    by (rule server_wf_cong[THEN iffD2, rotated 3]) simp_all
  with s2 show ?thesis unfolding eq by simp
qed

lemma handle_read_at:
  shows "length (store (handle_read now cid s)) = length (store s)"
    and "length (shards (handle_read now cid s)) = length (shards s)"
proof -
  obtain cl msgs m c where r: "read_loop now (metrics s) (conn_at s cid) = (cl, msgs, m, c)"
    by (metis prod_cases4)
  show "length (store (handle_read now cid s)) = length (store s)"
    and "length (shards (handle_read now cid s)) = length (shards s)"
    unfolding handle_read_result[OF r] by (simp_all add: conn_result_def Let_def)
qed

lemma handle_conn_event_wf [preserves]:
  assumes "server_wf s" "clock_ok (w_now w) s"
  shows "server_wf (handle_conn_event w s)"
proof (cases "map_of (connections (shards s ! get_shard_idx s (w_fd w))) (w_fd w)")
  case None
  with assms show ?thesis by (simp add: handle_conn_event_def)
next
  case (Some cid)
  note t = server_wfD(1)[OF assms(1)]
  note cid = tables_lookup[OF t get_shard_idx_less[OF t] Some]
  let ?r = "if has_event (w_events w) EPOLLIN then handle_read (w_now w) cid s else s"
  have r: "server_wf ?r" "cid < length (store ?r)"
    using handle_read_wf[OF assms(1) cid(1) assms(2)] assms(1) handle_read_at[of "w_now w" cid s] cid(1) by simp_all
  show ?thesis
    using Some r close_conn_wf[OF assms(1) cid(1)] handle_write_wf[OF r]
    by (simp add: handle_conn_event_def Let_def)
qed

definition handle_wakeup :: "wakeup \<Rightarrow> 'u web_server \<Rightarrow> 'u web_server" where
  "handle_wakeup w s =
     (case fd_kind s (w_fd w) of
        ListenFd \<Rightarrow> accept_loop (w_now w) (w_accepted w) s
      | TimerFd \<Rightarrow> handle_timer_fd w s
      | SigFd \<Rightarrow> s\<lparr>running := False\<rparr>
      | NotifyFd \<Rightarrow> s\<lparr>notify_count := 0\<rparr>
      | ConnFd \<Rightarrow> handle_conn_event w s)"

lemma handle_ready_Cons:
  "handle_ready (w # ws) pending s0 =
     (let s = fold kernel_answers (w_answers w) s0
      in if fd_kind s (w_fd w) = SigFd then (pending, handle_wakeup w s)
         else handle_ready ws (pending \<or> fd_kind s (w_fd w) = NotifyFd) (handle_wakeup w s))"
  by (simp add: handle_wakeup_def Let_def split: fd_role.split)

lemma handle_wakeup_wf [preserves]:
  assumes "server_wf s" "wakeup_ok w s"
  shows "server_wf (handle_wakeup w s)"
proof (cases "fd_kind s (w_fd w)")
  case ListenFd
  then show ?thesis using assms by (simp add: handle_wakeup_def wakeup_ok_def accept_loop_wf)
next
  case TimerFd
  then show ?thesis using assms by (simp add: handle_wakeup_def handle_timer_fd_wf)
next
  case ConnFd
  then show ?thesis using assms by (simp add: handle_wakeup_def wakeup_ok_def handle_conn_event_wf)
next
  case SigFd
  have "server_wf (s\<lparr>running := False\<rparr>)"
    using assms(1) by (rule server_wf_cong[THEN iffD2, rotated 3]) simp_all
  with SigFd show ?thesis by (simp add: handle_wakeup_def)
next
  case NotifyFd
  have "server_wf (s\<lparr>notify_count := 0\<rparr>)"
    using assms(1) by (rule server_wf_cong[THEN iffD2, rotated 3]) simp_all
  with NotifyFd show ?thesis by (simp add: handle_wakeup_def)
qed

text \<open>The assumptions on the kernel along a batch and along a run.\<close>

fun ready_ok :: "wakeup list \<Rightarrow> 'u web_server \<Rightarrow> bool" where
  "ready_ok [] s = True"
| "ready_ok (w # ws) s0 =
     (let s = fold kernel_answers (w_answers w) s0
      in wakeup_ok w s \<and> (fd_kind s (w_fd w) \<noteq> SigFd \<longrightarrow> ready_ok ws (handle_wakeup w s)))"

fun run_ok :: "epoll_result list \<Rightarrow> 'u web_server \<Rightarrow> bool" where
  "run_ok [] s = True"
| "run_ok (EIntr # rs) s = run_ok rs s"
| "run_ok (EpollFailed # rs) s = True"
| "run_ok (Ready ws # rs) s = (ready_ok ws s \<and> (running (run_batch ws s) \<longrightarrow> run_ok rs (run_batch ws s)))"

lemma kernel_answers_fold_wf: "server_wf s \<Longrightarrow> server_wf (fold kernel_answers as s)"
  by (rule fold_preserves) (auto intro: kernel_answers_wf)

lemma handle_ready_wf [preserves]:
  assumes "server_wf s" "ready_ok ws s"
  shows "server_wf (snd (handle_ready ws pending s))"
  using assms
proof (induction ws arbitrary: pending s)
  case (Cons w ws)
  let ?s = "fold kernel_answers (w_answers w) s"
  have ok: "wakeup_ok w ?s" "fd_kind ?s (w_fd w) \<noteq> SigFd \<Longrightarrow> ready_ok ws (handle_wakeup w ?s)"
    using Cons.prems(2) by (simp_all add: Let_def)
  have "server_wf (handle_wakeup w ?s)"
    using handle_wakeup_wf[OF kernel_answers_fold_wf[OF Cons.prems(1)] ok(1)] .
  with ok(2) Cons.IH show ?case by (simp only: handle_ready_Cons Let_def) simp
qed simp

lemma process_global_queue_wf [preserves]:
  assumes "server_wf s"
  shows "server_wf (process_global_queue s)"
  using assms by (rule server_wf_cong[THEN iffD2, rotated 3]) (simp_all add: process_global_queue_def Let_def)

lemma run_batch_wf [preserves]:
  assumes "server_wf s" "ready_ok ws s"
  shows "server_wf (run_batch ws s)"
  using handle_ready_wf[OF assms, of False] process_global_queue_wf
  by (auto simp: run_batch_def split: prod.split)

text \<open>\<open>Run\<close> either still waits, with the invariant, or has stopped everything.\<close>

definition stopped :: "'u web_server \<Rightarrow> bool" where
  "stopped s \<longleftrightarrow> \<not> running s \<and> \<not> pool_running (threadpool s) \<and> (\<forall>sh\<in>set (shards s). connections sh = [])"

lemma Stop_stopped: "stopped (Stop s)"
  by (auto simp: stopped_def Stop_def Let_def tp_shutdown_def)

lemma Run_outcome:
  assumes "server_wf s" "run_ok rs s"
  shows "case Run rs s of (returned, s') \<Rightarrow> if returned then stopped s' else server_wf s' \<and> running s'"
  using assms
proof (induction rs arbitrary: s)
  case Nil
  then show ?case by (simp add: Run.simps[of "[]"] Stop_stopped)
next
  case (Cons r rs)
  show ?case
  proof (cases "running s")
    case False
    then show ?thesis by (simp add: Run.simps[of "r # rs"] Stop_stopped)
  next
    case True
    show ?thesis
    proof (cases r)
      case (Ready ws)
      have wf: "server_wf (run_batch ws s)"
        by (rule run_batch_wf) (use Cons.prems Ready in simp_all)
      have eq: "Run (r # rs) s = Run rs (run_batch ws s)"
        using Ready True by (simp add: Run.simps[of "Ready ws # rs" s])
      show ?thesis
      proof (cases "running (run_batch ws s)")
        case True
        with Cons.prems(2) Ready have "run_ok rs (run_batch ws s)" by simp
        then show ?thesis unfolding eq using Cons.IH[OF wf] by simp
      next
        case False
        then show ?thesis unfolding eq by (simp add: Run.simps[of rs] Stop_stopped)
      qed
    qed (use Cons True in \<open>simp_all add: Run.simps[of "EIntr # rs"] Run.simps[of "EpollFailed # rs"] Stop_stopped\<close>)
  qed
qed

definition same_core :: "'u web_server \<Rightarrow> 'u web_server \<Rightarrow> bool" where
  "same_core s s' \<longleftrightarrow> shards s' = shards s \<and> store s' = store s \<and> metrics s' = metrics s \<and>
     event_queue s' = event_queue s \<and> running s' = running s"

lemma add_server_fd_core: "same_core s (add_server_fd fd ev s')  \<longleftrightarrow> same_core s s'"
  by (simp add: same_core_def add_server_fd_def)

lemma setup_core:
  "setup_signalfd env s = Some s' \<Longrightarrow> same_core s s'"
  "setup_server_socket env s = Some s' \<Longrightarrow> same_core s s'"
  "setup_epoll env s = Some s' \<Longrightarrow> same_core s s'"
  "setup_eventfd env s = Some s' \<Longrightarrow> same_core s s'"
  "setup_timerfd env s = Some s' \<Longrightarrow> same_core s s'"
  by (auto simp: setup_signalfd_def setup_server_socket_def setup_epoll_def setup_eventfd_def
      setup_timerfd_def Let_def add_server_fd_core split: if_splits) (auto simp: same_core_def)

lemma new_server_core: "new_server env = Some s \<Longrightarrow> same_core blank_server s"
  by (auto simp: new_server_def bind_eq_Some_conv dest!: setup_core) (simp add: same_core_def)

lemma new_server_wf:
  assumes "new_server env = Some s"
  shows "server_wf s"
proof -
  have "shards s = shards (blank_server :: 'a web_server)" "store s = []" "metrics s = metrics_init"
    using new_server_core[OF assms] by (simp_all add: same_core_def blank_server_def)
  then show ?thesis
    by (simp add: server_wf_def tables_wf_def timers_wf_def conns_wf_def registered_def shard_wf_def
        blank_server_def NUM_SHARDS_def heap_wf_def closed_balance_def metrics_init_def)
qed

end
