(* ===== verification/Multicast.thy ===== *)
theory Multicast
  imports ServerInvariant
begin

text \<open>
  The interface the application has of the server: an operation that appends one packet to
  the byte stream of one connection and leaves every other stream alone. A loop that sends
  a packet to a list of connections is a multicast.
\<close>

section \<open>The contract\<close>

locale packet_sink =
  fixes send :: "'c \<Rightarrow> 'a list \<Rightarrow> 's \<Rightarrow> 's"
    and stream :: "'s \<Rightarrow> 'c \<Rightarrow> 'a list"
    and live :: "'s \<Rightarrow> 'c \<Rightarrow> bool"
  assumes send_stream: "stream (send c p s) d = (if d = c \<and> live s c then stream s d @ p else stream s d)"
    and send_live: "live (send c p s) d = live s d"
begin

definition multicast :: "'c list \<Rightarrow> 'a list \<Rightarrow> 's \<Rightarrow> 's" where
  "multicast cs p s = fold (\<lambda>c. send c p) cs s"

lemma multicast_live: "live (multicast cs p s) d = live s d"
  unfolding multicast_def by (induction cs arbitrary: s) (simp_all add: send_live)

lemma multicast_stream:
  "stream (multicast cs p s) d =
     stream s d @ (if live s d then concat (replicate (count_list cs d) p) else [])"
  unfolding multicast_def
  by (induction cs arbitrary: s) (auto simp: send_stream send_live concat_replicate_comm)

text \<open>On distinct targets everyone in the list gets the packet once and nobody else gets it.\<close>

lemma multicast_distinct:
  "distinct cs \<Longrightarrow> stream (multicast cs p s) d = stream s d @ (if d \<in> set cs \<and> live s d then p else [])"
  by (auto simp: multicast_stream count_list_distinct)

lemma multicast_append: "multicast (cs @ ds) p s = multicast ds p (multicast cs p s)"
  by (simp add: multicast_def)

end

section \<open>SendPreEncoded\<close>

definition server_stream :: "'u web_server \<Rightarrow> conn_id \<Rightarrow> byte list" where
  "server_stream s cid = out_stream (conn_at s cid)"

definition server_live :: "'u web_server \<Rightarrow> conn_id \<Rightarrow> bool" where
  "server_live s cid \<longleftrightarrow> cid < length (store s) \<and> \<not> closed (conn_at s cid)"

lemma SendPreEncoded_sends:
  "sends (if closed (conn_at s cid) then [] else packet) (metrics s) (conn_at s cid)
     (fst (send_pre_encoded packet (metrics s) (conn_at s cid)))
     (snd (send_pre_encoded packet (metrics s) (conn_at s cid)))"
  by (rule sends_send_pre_encoded) simp

interpretation sink: packet_sink SendPreEncoded server_stream server_live
proof
  fix c p d and s :: "'u web_server"
  note snd_c = SendPreEncoded_sends[of s c p, unfolded sends_def send_frame_def]
  show "server_stream (SendPreEncoded c p s) d =
      (if d = c \<and> server_live s c then server_stream s d @ p else server_stream s d)"
    using snd_c by (auto simp: server_stream_def server_live_def SendPreEncoded_def upd_conn_at)
  show "server_live (SendPreEncoded c p s) d = server_live s d"
    using snd_c by (auto simp: server_live_def SendPreEncoded_def upd_conn_at)
qed

text \<open>What a send leaves alone.\<close>

lemma SendPreEncoded_keeps:
  "user_data (conn_at (SendPreEncoded cid p s) d) = user_data (conn_at s d)"
  "closed (conn_at (SendPreEncoded cid p s) d) = closed (conn_at s d)"
  "sock (conn_at (SendPreEncoded cid p s) d) = sock (conn_at s d)"
  "length (store (SendPreEncoded cid p s)) = length (store s)"
  "shards (SendPreEncoded cid p s) = shards s"
  "event_queue (SendPreEncoded cid p s) = event_queue s"
  "global_queue (SendPreEncoded cid p s) = global_queue s"
  using SendPreEncoded_sends[of s cid p]
  by (simp_all add: SendPreEncoded_def upd_conn_at sends_def send_frame_def)

end
