(* ===== verification/ChatApp.thy ===== *)
theory ChatApp
  imports Complex_Main Multicast
begin

text \<open>
  The application: \<open>v4/chatapp.h\<close> over the messages of \<open>v4/chat.proto\<close>. A session is the
  \<open>user_data\<close> of its connection. The generated protobuf code is a parameter: how a server
  message is serialised and a client message parsed. \<open>std::unordered_map\<close> is a partial map
  and the member set of a room a list without duplicates, in the order of joining; the
  library leaves the order of iteration open, and no lemma depends on it.

  \<open>double\<close> arithmetic goes through a rounding function \<open>fl\<close> on the rationals, a
  parameter as well.
\<close>

section \<open>Messages\<close>

datatype client_message =
  LoginRequest string
| ChatRequest string
| PrivateChatRequest string string
| JoinRoomRequest string
| RoomChatRequest string string
| PayloadNotSet

datatype server_message =
  LoginResponse bool string
| ChatBroadcast (b_sender: string) (b_text: string) (b_origin_room: string) (b_timestamp: u64)
| PrivateChatIncoming string string u64
| ErrorResponse string
| NoServerPayload

record protobuf =
  ser :: "server_message \<Rightarrow> byte list"
  par :: "byte list \<Rightarrow> client_message option"

section \<open>Sessions and state\<close>

record chat_session =
  username :: string
  is_logged_in :: bool
  current_room :: string
  tokens :: rat
  last_refill :: nat

definition new_session :: "nat \<Rightarrow> chat_session" where
  "new_session now = \<lparr>username = '''', is_logged_in = False, current_room = '''', tokens = 60, last_refill = now\<rparr>"

record chat_app =
  server :: "chat_session web_server"
  app_running :: bool
  online_users :: "string \<Rightarrow> conn_id option"
  rooms :: "string \<Rightarrow> string list option"

definition new_chat_app :: "setup_env \<Rightarrow> chat_app option" where
  "new_chat_app env = map_option
     (\<lambda>s. \<lparr>server = s, app_running = True, online_users = (\<lambda>_. None), rooms = (\<lambda>_. None)\<rparr>) (new_server env)"

definition session_of :: "conn_id \<Rightarrow> chat_app \<Rightarrow> chat_session option" where
  "session_of cid app = user_data (conn_at (server app) cid)"

definition set_session :: "conn_id \<Rightarrow> chat_session \<Rightarrow> chat_app \<Rightarrow> chat_app" where
  "set_session cid s app =
     app\<lparr>server := upd_conn cid (\<lambda>m c. (m, c\<lparr>user_data := Some s\<rparr>)) (server app)\<rparr>"

text \<open>\<open>rooms_[r]\<close> makes the entry if there is none.\<close>

definition room_ref :: "string \<Rightarrow> (string \<Rightarrow> string list option) \<Rightarrow> string list" where
  "room_ref r rs = (case rs r of None \<Rightarrow> [] | Some ms \<Rightarrow> ms)"

definition room_erase :: "string \<Rightarrow> string \<Rightarrow> chat_app \<Rightarrow> chat_app" where
  "room_erase r name app = app\<lparr>rooms := (rooms app)(r \<mapsto> removeAll name (room_ref r (rooms app)))\<rparr>"

definition room_insert :: "string \<Rightarrow> string \<Rightarrow> chat_app \<Rightarrow> chat_app" where
  "room_insert r name app =
     app\<lparr>rooms := (rooms app)(r \<mapsto> (let ms = room_ref r (rooms app)
                                   in if name \<in> set ms then ms else ms @ [name]))\<rparr>"

section \<open>Sending\<close>

definition SendProto :: "protobuf \<Rightarrow> conn_id \<Rightarrow> server_message \<Rightarrow> chat_app \<Rightarrow> chat_app" where
  "SendProto pb cid msg app =
     (let packet = pb_encode (ser pb) msg in app\<lparr>server := SendPreEncoded cid packet (server app)\<rparr>)"

definition BroadcastProto :: "protobuf \<Rightarrow> server_message \<Rightarrow> chat_app \<Rightarrow> chat_app" where
  "BroadcastProto pb msg app =
     (let packet = pb_encode (ser pb) msg in app\<lparr>server := Broadcast packet (-1) (server app)\<rparr>)"

text \<open>The loops over the members of a room.\<close>

definition send_member :: "protobuf \<Rightarrow> server_message \<Rightarrow> string \<Rightarrow> chat_app \<Rightarrow> chat_app" where
  "send_member pb msg member app =
     (case online_users app member of None \<Rightarrow> app | Some cid \<Rightarrow> SendProto pb cid msg app)"

definition send_members :: "protobuf \<Rightarrow> server_message \<Rightarrow> string list \<Rightarrow> chat_app \<Rightarrow> chat_app" where
  "send_members pb msg members app = fold (send_member pb msg) members app"

section \<open>Handlers\<close>

definition HandleConnect :: "nat \<Rightarrow> conn_id \<Rightarrow> chat_app \<Rightarrow> chat_app" where
  "HandleConnect now cid app = set_session cid (new_session now) app"

text \<open>The part common to leaving by disconnect and by joining another room.\<close>

definition leave_room :: "protobuf \<Rightarrow> string \<Rightarrow> string \<Rightarrow> string \<Rightarrow> chat_app \<Rightarrow> chat_app" where
  "leave_room pb room name notice app =
     (let app1 = room_erase room name app;
          leave_msg = ChatBroadcast ''Server'' notice room 0
      in case rooms app1 room of
          None \<Rightarrow> app1
        | Some members \<Rightarrow>
            (let app2 = send_members pb leave_msg members app1
             in if members = [] then app2\<lparr>rooms := (rooms app2)(room := None)\<rparr> else app2))"

definition HandleDisconnect :: "protobuf \<Rightarrow> conn_id \<Rightarrow> chat_app \<Rightarrow> chat_app" where
  "HandleDisconnect pb cid app =
     (case session_of cid app of
        None \<Rightarrow> app
      | Some session \<Rightarrow>
          if is_logged_in session \<and> username session \<noteq> ''''
          then let app1 = app\<lparr>online_users := (online_users app)(username session := None)\<rparr>;
                   room = current_room session
               in if room \<noteq> ''''
                  then leave_room pb room (username session)
                         (username session @ '' has left the room.'' @ [CHR 0x0A]) app1
                  else app1
          else app)"

definition HandleLogin :: "protobuf \<Rightarrow> conn_id \<Rightarrow> chat_session \<Rightarrow> string \<Rightarrow> chat_app \<Rightarrow> chat_app" where
  "HandleLogin pb cid session name app =
     (if online_users app name \<noteq> None \<or> name = ''''
      then SendProto pb cid (LoginResponse False ''Invalid username or already taken.'') app
      else let app1 = set_session cid (session\<lparr>username := name, is_logged_in := True\<rparr>) app;
               app2 = app1\<lparr>online_users := (online_users app1)(name \<mapsto> cid)\<rparr>
           in SendProto pb cid (LoginResponse True ''Login successful.'') app2)"

definition HandleGlobalChat :: "protobuf \<Rightarrow> u64 \<Rightarrow> chat_session \<Rightarrow> string \<Rightarrow> chat_app \<Rightarrow> chat_app" where
  "HandleGlobalChat pb time s text app =
     (if \<not> is_logged_in s then app
      else BroadcastProto pb (ChatBroadcast (username s) text '''' time) app)"

definition HandlePrivateChat ::
  "protobuf \<Rightarrow> u64 \<Rightarrow> conn_id \<Rightarrow> chat_session \<Rightarrow> string \<Rightarrow> string \<Rightarrow> chat_app \<Rightarrow> chat_app" where
  "HandlePrivateChat pb time cid s target text app =
     (if \<not> is_logged_in s then app
      else case online_users app target of
          Some target_cid \<Rightarrow>
            (let app1 = SendProto pb target_cid (PrivateChatIncoming (username s) text time) app
             in SendProto pb cid
                  (ChatBroadcast ''Server'' (''Message sent to ['' @ target @ '']: '' @ text) '''' 0) app1)
        | None \<Rightarrow> SendProto pb cid (ErrorResponse (''User '' @ target @ '' not found.'')) app)"

definition HandleJoinRoom :: "protobuf \<Rightarrow> conn_id \<Rightarrow> chat_session \<Rightarrow> string \<Rightarrow> chat_app \<Rightarrow> chat_app" where
  "HandleJoinRoom pb cid s new_room app =
     (if \<not> is_logged_in s then app
      else let old_room = current_room s;
               app1 = (if old_room \<noteq> ''''
                       then leave_room pb old_room (username s) (username s @ '' has left the room.'') app
                       else app);
               app2 = set_session cid (s\<lparr>current_room := new_room\<rparr>) app1;
               app3 = (if new_room \<noteq> ''''
                       then let app' = room_insert new_room (username s) app2;
                                join_msg = ChatBroadcast ''Server'' (username s @ '' has joined the room. '') new_room 0
                            in send_members pb join_msg
                                 (filter (\<lambda>member. member \<noteq> username s) (room_ref new_room (rooms app'))) app'
                       else app2);
               resp = (if new_room = ''''
                       then ChatBroadcast ''Server'' ''You have entered the global room!'' '''' 0
                       else ChatBroadcast ''Server'' (''You have joined room: '' @ new_room @ '' !!'') new_room 0)
           in SendProto pb cid resp app3)"

definition HandleRoomChat ::
  "protobuf \<Rightarrow> conn_id \<Rightarrow> chat_session \<Rightarrow> string \<Rightarrow> string \<Rightarrow> chat_app \<Rightarrow> chat_app" where
  "HandleRoomChat pb cid s room_name text app =
     (if \<not> is_logged_in s \<or> current_room s = ''''
      then SendProto pb cid
             (ErrorResponse ''You must be logged in and in a room to send room chat messages.'') app
      else if current_room s \<noteq> room_name then app
      else let members = room_ref (current_room s) (rooms app);
               app1 = app\<lparr>rooms := (rooms app)(current_room s \<mapsto> members)\<rparr>
           in send_members pb (ChatBroadcast (username s) text (current_room s) 0) members app1)"

section \<open>Rate limiting\<close>

text \<open>\<open>duration<double>\<close>: nanoseconds to seconds, one rounded division.\<close>

definition elapsed_seconds :: "(rat \<Rightarrow> rat) \<Rightarrow> nat \<Rightarrow> nat \<Rightarrow> rat" where
  "elapsed_seconds fl now before = fl (rat_of_int (int now - int before) / 1000000000)"

definition refill :: "(rat \<Rightarrow> rat) \<Rightarrow> nat \<Rightarrow> chat_session \<Rightarrow> chat_session" where
  "refill fl now session =
     (let t = fl (tokens session + elapsed_seconds fl now (last_refill session))
      in session\<lparr>tokens := (if t > 60 then 60 else t), last_refill := now\<rparr>)"

definition RATE_NOTICE :: string where
  "RATE_NOTICE = ''You are sending messages too quickly, upgrade to premium! Bye :)''"

definition HandleMessage ::
  "(rat \<Rightarrow> rat) \<Rightarrow> protobuf \<Rightarrow> nat \<Rightarrow> u64 \<Rightarrow> conn_id \<Rightarrow> byte list \<Rightarrow> chat_app \<Rightarrow> chat_app" where
  "HandleMessage fl pb now time cid raw_data app =
     (case session_of cid app of
        None \<Rightarrow> app
      | Some session0 \<Rightarrow>
          (case pb_decode_data (par pb) raw_data of
             None \<Rightarrow> app
           | Some msg \<Rightarrow>
               (let session = refill fl now session0
                in if tokens session < 1
                   then let app1 = SendProto pb cid (ErrorResponse RATE_NOTICE) (set_session cid session app)
                        in app1\<lparr>server := Close cid (server app1)\<rparr>
                   else let s = session\<lparr>tokens := fl (tokens session - 1)\<rparr>;
                            app1 = set_session cid s app
                        in case msg of
                            LoginRequest name \<Rightarrow> HandleLogin pb cid s name app1
                          | ChatRequest text \<Rightarrow> HandleGlobalChat pb time s text app1
                          | PrivateChatRequest target text \<Rightarrow> HandlePrivateChat pb time cid s target text app1
                          | JoinRoomRequest room \<Rightarrow> HandleJoinRoom pb cid s room app1
                          | RoomChatRequest room text \<Rightarrow> HandleRoomChat pb cid s room text app1
                          | PayloadNotSet \<Rightarrow> app1)))"

section \<open>The logic thread\<close>

definition ProcessEvent ::
  "(rat \<Rightarrow> rat) \<Rightarrow> protobuf \<Rightarrow> nat \<Rightarrow> u64 \<Rightarrow> network_event \<Rightarrow> chat_app \<Rightarrow> chat_app" where
  "ProcessEvent fl pb now time evt app =
     (if closed (conn_at (server app) (ev_conn evt)) \<and> ev_type evt \<noteq> DISCONNECT then app
      else case ev_type evt of
          CONNECT \<Rightarrow> HandleConnect now (ev_conn evt) app
        | DISCONNECT \<Rightarrow> HandleDisconnect pb (ev_conn evt) app
        | MESSAGE \<Rightarrow> (case ev_payload evt of
                        None \<Rightarrow> app
                      | Some p \<Rightarrow> HandleMessage fl pb now time (ev_conn evt) p app))"

text \<open>
  One round of \<open>LogicLoop\<close>, and the rounds for a list of clock readings. The loop condition
  \<open>running_\<close> is never reset.
\<close>

definition logic_round :: "(rat \<Rightarrow> rat) \<Rightarrow> protobuf \<Rightarrow> nat \<Rightarrow> u64 \<Rightarrow> chat_app \<Rightarrow> chat_app" where
  "logic_round fl pb now time app =
     (case sq_pop (event_queue (server app)) of
        (Popped evt, q) \<Rightarrow> ProcessEvent fl pb now time evt (app\<lparr>server := (server app)\<lparr>event_queue := q\<rparr>\<rparr>)
      | _ \<Rightarrow> app)"

fun LogicLoop :: "(rat \<Rightarrow> rat) \<Rightarrow> protobuf \<Rightarrow> (nat \<times> u64) list \<Rightarrow> chat_app \<Rightarrow> chat_app" where
  "LogicLoop fl pb [] app = app"
| "LogicLoop fl pb ((now, time) # clock) app =
     (if app_running app then LogicLoop fl pb clock (logic_round fl pb now time app) else app)"

end
