(* ===== verification/Directory.thy ===== *)
theory Directory
  imports ChatApp
begin

text \<open>
  The directory of the chat application: who is online under which name and who is in which
  room, seen apart from connections and bytes. First the pure view with its invariant and
  the five changes the handlers make to it, then the handlers of \<open>ChatApp\<close> as such changes.
\<close>

section \<open>The view and its invariant\<close>

type_synonym sessions = "conn_id \<Rightarrow> chat_session option"
type_synonym online_map = "string \<Rightarrow> conn_id option"
type_synonym room_map = "string \<Rightarrow> string list option"

text \<open>
  A logged-in session owns its current name; a session in a room is a member under one of
  its names; the current name is a member of no other room; rooms are non-empty and hold
  online names only.
\<close>

definition owns_name :: "online_map \<Rightarrow> conn_id \<Rightarrow> chat_session \<Rightarrow> bool" where
  "owns_name online cid s \<longleftrightarrow>
     (if is_logged_in s then username s \<noteq> '''' \<and> online (username s) = Some cid else current_room s = '''')"

definition in_its_room :: "online_map \<Rightarrow> room_map \<Rightarrow> conn_id \<Rightarrow> chat_session \<Rightarrow> bool" where
  "in_its_room online rs cid s \<longleftrightarrow>
     (current_room s \<noteq> '''' \<longrightarrow> (\<exists>m\<in>set (room_ref (current_room s) rs). online m = Some cid)) \<and>
     (is_logged_in s \<longrightarrow> (\<forall>r. username s \<in> set (room_ref r rs) \<longrightarrow> r = current_room s))"

definition room_ok :: "online_map \<Rightarrow> string list \<Rightarrow> bool" where
  "room_ok online ms \<longleftrightarrow> ms \<noteq> [] \<and> distinct ms \<and> (\<forall>m\<in>set ms. online m \<noteq> None)"

definition directory_wf :: "sessions \<Rightarrow> online_map \<Rightarrow> room_map \<Rightarrow> bool" where
  "directory_wf L online rs \<longleftrightarrow>
     (\<forall>cid s. L cid = Some s \<longrightarrow> owns_name online cid s \<and> in_its_room online rs cid s) \<and>
     (\<forall>r ms. rs r = Some ms \<longrightarrow> r \<noteq> '''' \<and> room_ok online ms)"

lemmas directory_defs = directory_wf_def owns_name_def in_its_room_def room_ok_def

definition drop_member :: "string \<Rightarrow> string \<Rightarrow> room_map \<Rightarrow> room_map" where
  "drop_member r n rs =
     (let ms = removeAll n (room_ref r rs) in if ms = [] then rs(r := None) else rs(r \<mapsto> ms))"

definition add_member :: "string \<Rightarrow> string \<Rightarrow> room_map \<Rightarrow> room_map" where
  "add_member r n rs = (let ms = room_ref r rs in rs(r \<mapsto> (if n \<in> set ms then ms else ms @ [n])))"

lemma room_ref_upd [simp]:
  "room_ref r (rs(r' \<mapsto> ms)) = (if r = r' then ms else room_ref r rs)"
  "room_ref r (rs(r' := None)) = (if r = r' then [] else room_ref r rs)"
  by (simp_all add: room_ref_def)

lemma room_ref_drop [simp]:
  "room_ref r (drop_member r' n rs) = (if r = r' then removeAll n (room_ref r rs) else room_ref r rs)"
  by (auto simp: drop_member_def Let_def)

lemma room_ref_add [simp]:
  "set (room_ref r (add_member r' n rs)) = set (room_ref r rs) \<union> (if r = r' then {n} else {})"
  by (auto simp: add_member_def Let_def)

lemma directory_wfI:
  assumes "\<And>cid s. L cid = Some s \<Longrightarrow> owns_name online cid s \<and> in_its_room online rs cid s"
    and "\<And>r ms. rs r = Some ms \<Longrightarrow> r \<noteq> '''' \<and> room_ok online ms"
  shows "directory_wf L online rs"
  using assms by (simp add: directory_wf_def)

lemma directory_update:
  assumes "\<And>d t. L d = Some t \<Longrightarrow> d \<noteq> cid \<Longrightarrow> owns_name online d t"
    and "\<And>d t. L d = Some t \<Longrightarrow> d \<noteq> cid \<Longrightarrow> in_its_room online rs d t"
    and "owns_name online cid s \<and> in_its_room online rs cid s"
    and "\<And>r ms. rs r = Some ms \<Longrightarrow> r \<noteq> ''''" "\<And>r ms. rs r = Some ms \<Longrightarrow> room_ok online ms"
  shows "directory_wf (L(cid \<mapsto> s)) online rs"
proof (rule directory_wfI)
  fix d t assume "(L(cid \<mapsto> s)) d = Some t"
  then have "d = cid \<and> t = s \<or> d \<noteq> cid \<and> L d = Some t" by (simp split: if_splits)
  then show "owns_name online d t \<and> in_its_room online rs d t" using assms(1-3) by blast
qed (use assms(4,5) in blast)

lemma directoryD:
  assumes "directory_wf L online rs"
  shows "L cid = Some s \<Longrightarrow> owns_name online cid s" "L cid = Some s \<Longrightarrow> in_its_room online rs cid s"
    "rs r = Some ms \<Longrightarrow> r \<noteq> ''''" "rs r = Some ms \<Longrightarrow> room_ok online ms"
  using assms unfolding directory_wf_def by blast+

lemma directory_room_ok: "directory_wf L online rs \<Longrightarrow> room_ref r rs \<noteq> [] \<Longrightarrow> r \<noteq> '''' \<and> room_ok online (room_ref r rs)"
  by (auto simp: directory_wf_def room_ref_def split: option.splits)

lemma directory_members:
  assumes "directory_wf L online rs"
  shows "distinct (room_ref r rs)" "\<And>m. m \<in> set (room_ref r rs) \<Longrightarrow> online m \<noteq> None"
  using directory_room_ok[OF assms, of r] by (cases "room_ref r rs = []"; force simp: room_ok_def)+

text \<open>Two sessions never have the same current name.\<close>

lemma directory_unique:
  "directory_wf L online rs \<Longrightarrow> L a = Some s \<Longrightarrow> L b = Some t \<Longrightarrow> is_logged_in s \<Longrightarrow> is_logged_in t \<Longrightarrow>
   username s = username t \<Longrightarrow> a = b"
  unfolding directory_wf_def owns_name_def by (metis option.inject)

section \<open>The changes\<close>

definition same_identity :: "chat_session \<Rightarrow> chat_session \<Rightarrow> bool" where
  "same_identity s t \<longleftrightarrow> username t = username s \<and> is_logged_in t = is_logged_in s \<and> current_room t = current_room s"

lemma directory_refresh:
  assumes "directory_wf L online rs" "L cid = Some s" "same_identity s t"
  shows "directory_wf (L(cid \<mapsto> t)) online rs"
proof -
  have w: "owns_name online cid s" "in_its_room online rs cid s"
    using assms(1,2) by (simp_all add: directory_wf_def)
  have "owns_name online cid t \<and> in_its_room online rs cid t"
    using w assms(3) unfolding owns_name_def in_its_room_def same_identity_def by metis
  from directory_update[OF directoryD(1,2)[OF assms(1)] this directoryD(3,4)[OF assms(1)]]
  show ?thesis .
qed

lemma directory_connect:
  assumes "directory_wf L online rs"
  shows "directory_wf (L(cid \<mapsto> new_session now)) online rs"
proof -
  have "owns_name online cid (new_session now) \<and> in_its_room online rs cid (new_session now)"
    by (simp add: owns_name_def in_its_room_def new_session_def)
  from directory_update[OF directoryD(1,2)[OF assms] this directoryD(3,4)[OF assms]] show ?thesis .
qed

lemma directory_login:
  assumes wf: "directory_wf L online rs" and s: "L cid = Some s" and n: "online n = None" "n \<noteq> ''''"
  shows "directory_wf (L(cid \<mapsto> s\<lparr>username := n, is_logged_in := True\<rparr>)) (online(n \<mapsto> cid)) rs"
proof -
  have fresh: "n \<notin> set (room_ref r rs)" for r using directory_members(2)[OF wf, of n r] n(1) by blast
  have own: "owns_name (online(n \<mapsto> cid)) d t" "in_its_room (online(n \<mapsto> cid)) rs d t"
    if t: "L d = Some t" for d t
  proof -
    have new: "m \<noteq> n" if "online m = Some d" for m using that n(1) by auto
    show "owns_name (online(n \<mapsto> cid)) d t"
      using directoryD(1)[OF wf t] new[of "username t"] by (auto simp: owns_name_def)
    have "\<exists>m\<in>set (room_ref (current_room t) rs). (online(n \<mapsto> cid)) m = Some d"
      if "\<exists>m\<in>set (room_ref (current_room t) rs). online m = Some d"
      using that new by (metis fun_upd_other)
    then show "in_its_room (online(n \<mapsto> cid)) rs d t"
      using directoryD(2)[OF wf t] unfolding in_its_room_def by blast
  qed
  have "in_its_room (online(n \<mapsto> cid)) rs cid (s\<lparr>username := n, is_logged_in := True\<rparr>)"
    using own(2)[OF s] fresh by (simp add: in_its_room_def)
  moreover have "room_ok (online(n \<mapsto> cid)) ms" if "room_ok online ms" for ms
    using that by (auto simp: room_ok_def)
  ultimately show ?thesis using wf n own by (auto simp: directory_wf_def owns_name_def)
qed

lemma drop_member_ok:
  assumes "directory_wf L online rs" "drop_member r n rs q = Some ms"
  shows "q \<noteq> '''' \<and> ms \<noteq> [] \<and> distinct ms \<and> (\<forall>m\<in>set ms. online m \<noteq> None \<and> (q = r \<longrightarrow> m \<noteq> n)) \<and>
    set ms \<subseteq> set (room_ref q rs)"
proof -
  have ms: "ms = room_ref q (drop_member r n rs)" "ms \<noteq> []"
    using assms by (auto simp: room_ref_def drop_member_def Let_def directory_defs split: if_splits)
  then have sub: "set ms \<subseteq> set (room_ref q rs)" "ms = (if q = r then removeAll n (room_ref q rs) else room_ref q rs)"
    by auto
  moreover have "room_ref q rs \<noteq> []" using sub(1) ms(2) by auto
  ultimately show ?thesis using directory_room_ok[OF assms(1), of q] ms(2)
    by (auto simp: room_ok_def distinct_removeAll split: if_splits)
qed

text \<open>A session that leaves for good.\<close>

lemma directory_leave:
  assumes wf: "directory_wf L online rs" and s: "L cid = Some s" "is_logged_in s"
  shows "directory_wf (L(cid := None)) (online(username s := None))
    (if current_room s \<noteq> '''' then drop_member (current_room s) (username s) rs else rs)"
    (is "directory_wf _ ?o ?rs")
proof -
  let ?n = "username s"
  have own: "online ?n = Some cid" and only: "\<And>r. ?n \<in> set (room_ref r rs) \<Longrightarrow> r = current_room s"
    using wf s by (auto simp: directory_defs)
  have none: "?n \<notin> set (room_ref r rs)" if "current_room s = ''''" for r
    using only[of r] that directory_room_ok[OF wf, of r] by force
  have other: "m \<noteq> ?n" if "online m = Some d" "d \<noteq> cid" for m d using that own by auto
  have "owns_name ?o d t \<and> in_its_room ?o ?rs d t" if t: "L d = Some t" "d \<noteq> cid" for d t
  proof -
    have w: "owns_name online d t" "in_its_room online rs d t" using directoryD(1,2)[OF wf t(1)] by simp_all
    have "owns_name ?o d t" using w(1) other[of "username t" d] t(2) by (auto simp: owns_name_def)
    moreover have "in_its_room ?o ?rs d t"
      using w(2) other[OF _ t(2)] by (fastforce simp: in_its_room_def)
    ultimately show ?thesis by blast
  qed
  moreover have "q \<noteq> '''' \<and> room_ok ?o ms" if "?rs q = Some ms" for q ms
  proof (cases "current_room s = ''''")
    case True
    then have "rs q = Some ms" using that by simp
    then have "q \<noteq> '''' \<and> room_ok online ms" "ms = room_ref q rs"
      using directoryD(3,4)[OF wf] by (simp_all add: room_ref_def)
    then show ?thesis using none[OF True, of q] by (auto simp: room_ok_def)
  next
    case False
    then have d: "drop_member (current_room s) ?n rs q = Some ms" using that by simp
    have "?n \<notin> set ms" using drop_member_ok[OF wf d] only[of q] by auto
    then show ?thesis using drop_member_ok[OF wf d] by (auto simp: room_ok_def)
  qed
  moreover have "d \<noteq> cid \<and> L d = Some t" if "(L(cid := None)) d = Some t" for d t
    using that by (simp split: if_splits)
  ultimately show ?thesis by (intro directory_wfI) blast+
qed

lemma directory_join:
  assumes wf: "directory_wf L online rs" and s: "L cid = Some s" "is_logged_in s"
  defines "rs1 \<equiv> (if current_room s \<noteq> '''' then drop_member (current_room s) (username s) rs else rs)"
  shows "directory_wf (L(cid \<mapsto> s\<lparr>current_room := new\<rparr>)) online
    (if new \<noteq> '''' then add_member new (username s) rs1 else rs1)" (is "directory_wf _ _ ?rs")
proof -
  let ?n = "username s"
  have own: "online ?n = Some cid" "?n \<noteq> ''''" and only: "\<And>r. ?n \<in> set (room_ref r rs) \<Longrightarrow> r = current_room s"
    using wf s by (auto simp: directory_defs)
  have gone: "?n \<notin> set (room_ref r rs1)" for r
  proof (cases "current_room s = ''''")
    case True
    then show ?thesis using only[of r] directory_room_ok[OF wf, of r] by (force simp: rs1_def)
  next
    case False
    then show ?thesis using only[of r] by (cases "r = current_room s") (auto simp: rs1_def)
  qed
  have ref: "set (room_ref r ?rs) = set (room_ref r rs) - {?n} \<union> (if r = new \<and> new \<noteq> '''' then {?n} else {})" for r
    using gone[of r] only[of r] by (auto simp: rs1_def split: if_splits)
  have others: "in_its_room online ?rs d t" if t: "L d = Some t" "d \<noteq> cid" for d t
  proof -
    have w: "owns_name online d t" "in_its_room online rs d t" using directoryD(1,2)[OF wf t(1)] by simp_all
    have u: "username t \<noteq> ?n" if "is_logged_in t" using w(1) own t(2) that by (auto simp: owns_name_def)
    have "\<exists>m\<in>set (room_ref (current_room t) ?rs). online m = Some d" if ne: "current_room t \<noteq> ''''"
    proof -
      obtain m where m: "m \<in> set (room_ref (current_room t) rs)" "online m = Some d"
        using w(2) ne unfolding in_its_room_def by blast
      then have "m \<noteq> ?n" using own(1) t(2) by auto
      with m show ?thesis unfolding ref by blast
    qed
    moreover have "r = current_room t" if "is_logged_in t" "username t \<in> set (room_ref r ?rs)" for r
    proof -
      have "username t \<in> set (room_ref r rs)" using that(2) u[OF that(1)] unfolding ref by (auto split: if_splits)
      then show ?thesis using w(2) that(1) unfolding in_its_room_def by blast
    qed
    ultimately show ?thesis unfolding in_its_room_def by blast
  qed
  have self: "owns_name online cid (s\<lparr>current_room := new\<rparr>)" using own s(2) by (simp add: owns_name_def)
  have room: "in_its_room online ?rs cid (s\<lparr>current_room := new\<rparr>)"
    unfolding in_its_room_def ref using own only by (auto split: if_splits)
  have rooms: "q \<noteq> '''' \<and> room_ok online ms" if q: "?rs q = Some ms" for q ms
  proof -
    have r1: "q' \<noteq> '''' \<and> room_ok online ms'" if "rs1 q' = Some ms'" for q' ms'
    proof (cases "current_room s = ''''")
      case True
      then show ?thesis using that directoryD(3,4)[OF wf] by (simp add: rs1_def)
    next
      case False
      then show ?thesis using that drop_member_ok[OF wf] by (auto simp: rs1_def room_ok_def)
    qed
    show ?thesis
    proof (cases "q = new \<and> new \<noteq> ''''")
      case True
      then have ms: "ms = (if ?n \<in> set (room_ref new rs1) then room_ref new rs1 else room_ref new rs1 @ [?n])"
        using q by (simp add: add_member_def Let_def)
      have "room_ref new rs1 = [] \<or> room_ok online (room_ref new rs1)"
        using r1 by (simp add: room_ref_def split: option.splits)
      then show ?thesis using True ms own(1) gone[of new] by (auto simp: room_ok_def)
    next
      case False
      then have "rs1 q = Some ms" using q by (auto simp: add_member_def Let_def split: if_splits)
      then show ?thesis by (rule r1)
    qed
  qed
  show ?thesis
    by (rule directory_update[OF directoryD(1)[OF wf] others conjI[OF self room] conjunct1[OF rooms] conjunct2[OF rooms]])
qed

end
