(* ===== verification/Lifecycle.thy ===== *)
theory Lifecycle
  imports ServerInvariant
begin

text \<open>
  What the reactor tells the application: for every connection the events pushed so far are
  one CONNECT, then its messages, and one DISCONNECT exactly when it is closed. The history
  is what has been popped from \<open>event_queue_\<close> followed by what is still in it.
\<close>

section \<open>Histories\<close>

definition conn_history :: "conn_id \<Rightarrow> network_event list \<Rightarrow> event_type list" where
  "conn_history cid h = map ev_type (filter (\<lambda>e. ev_conn e = cid) h)"

lemma conn_history_simps [simp]:
  "conn_history cid [] = []"
  "conn_history cid (e # h) = (if ev_conn e = cid then [ev_type e] else []) @ conn_history cid h"
  "conn_history cid (h @ h') = conn_history cid h @ conn_history cid h'"
  by (simp_all add: conn_history_def)

lemma event_fields [simp]:
  "ev_conn (connect_event cid) = cid" "ev_type (connect_event cid) = CONNECT"
  "ev_conn (disconnect_event cid) = cid" "ev_type (disconnect_event cid) = DISCONNECT"
  "ev_conn (message_event cid p) = cid" "ev_type (message_event cid p) = MESSAGE"
  by (simp_all add: connect_event_def disconnect_event_def message_event_def)

lemma conn_history_messages:
  "conn_history j (map (message_event cid) ps) = (if j = cid then replicate (length ps) MESSAGE else [])"
  by (induction ps) auto

text \<open>The words of a connection that is unknown, open or closed.\<close>

definition lifecycle :: "'u web_server \<Rightarrow> conn_id \<Rightarrow> event_type list \<Rightarrow> bool" where
  "lifecycle s cid ts \<longleftrightarrow>
     (if cid < length (store s)
      then \<exists>n. ts = CONNECT # replicate n MESSAGE @ (if closed (conn_at s cid) then [DISCONNECT] else [])
      else ts = [])"

definition history_ok :: "'u web_server \<Rightarrow> network_event list \<Rightarrow> bool" where
  "history_ok s h \<longleftrightarrow> (\<forall>cid. lifecycle s cid (conn_history cid h))"

definition emits :: "'u web_server \<Rightarrow> network_event list \<Rightarrow> 'u web_server \<Rightarrow> bool" where
  "emits s es s' \<longleftrightarrow> queue (event_queue s') = queue (event_queue s) @ es \<and>
     finished (event_queue s') = finished (event_queue s) \<and>
     (\<forall>h. history_ok s h \<longrightarrow> history_ok s' (h @ es))"

lemma emits_refl: "emits s [] s"
  by (simp add: emits_def)

lemma emits_trans: "emits s es s1 \<Longrightarrow> emits s1 es' s2 \<Longrightarrow> emits s (es @ es') s2"
  unfolding emits_def by (metis append.assoc)

definition emits_some :: "'u web_server \<Rightarrow> 'u web_server \<Rightarrow> bool" where
  "emits_some s s' \<longleftrightarrow> (\<exists>es. emits s es s')"

lemma emits_some_refl [simp]: "emits_some s s"
  unfolding emits_some_def using emits_refl by blast

lemma emits_some_trans: "emits_some s s1 \<Longrightarrow> emits_some s1 s2 \<Longrightarrow> emits_some s s2"
  unfolding emits_some_def using emits_trans by blast

lemma emits_someI: "emits s es s' \<Longrightarrow> emits_some s s'"
  unfolding emits_some_def by blast

lemma emits_some_fold:
  assumes "\<And>x s. x \<in> set xs \<Longrightarrow> emits_some s (f x s)"
  shows "emits_some s (fold f xs s)"
  using assms by (induction xs arbitrary: s) (auto intro: emits_some_trans)

section \<open>Steps\<close>

lemma history_same:
  assumes "length (store s') = length (store s)"
    and "\<And>cid. cid < length (store s) \<Longrightarrow> closed (conn_at s' cid) = closed (conn_at s cid)"
  shows "history_ok s' h \<longleftrightarrow> history_ok s h"
  using assms by (simp add: history_ok_def lifecycle_def)

lemma emits_silent:
  assumes "length (store s') = length (store s)" "event_queue s' = event_queue s"
    and "\<And>cid. cid < length (store s) \<Longrightarrow> closed (conn_at s' cid) = closed (conn_at s cid)"
  shows "emits s [] s'"
  using history_same[of s' s] assms by (simp add: emits_def)

lemma emits_frame: "tables_frame s s' \<Longrightarrow> event_queue s' = event_queue s \<Longrightarrow> emits s [] s'"
  by (rule emits_silent) (auto simp: tables_frame_def conn_keeps_def)

lemma emits_upd_conn: "conn_op f \<Longrightarrow> emits s [] (upd_conn cid f s)"
  by (rule emits_frame) (simp_all add: upd_conn_frame)

lemma emits_close:
  assumes "cid < length (store s)"
  shows "emits s (if closed (conn_at s cid) then [] else [disconnect_event cid]) (close_conn cid s)"
proof (cases "closed (conn_at s cid)")
  case True
  then show ?thesis by (simp add: close_conn_closed emits_refl)
next
  case False
  have "history_ok (close_conn cid s) (h @ [disconnect_event cid])" if "history_ok s h" for h
    unfolding history_ok_def
  proof
    fix j
    have "lifecycle s j (conn_history j h)" using that by (simp add: history_ok_def)
    then show "lifecycle (close_conn cid s) j (conn_history j (h @ [disconnect_event cid]))"
      using False assms close_conn_at[OF assms, of j] by (auto simp: lifecycle_def)
  qed
  then show ?thesis using False assms by (simp add: emits_def close_conn_open sq_push_def)
qed

lemma emits_accept: "emits s [connect_event (length (store s))] (accept_one now fd k s)"
proof -
  have "history_ok (accept_one now fd k s) (h @ [connect_event (length (store s))])" if "history_ok s h" for h
    unfolding history_ok_def
  proof
    fix j
    have "lifecycle s j (conn_history j h)" using that by (simp add: history_ok_def)
    then show "lifecycle (accept_one now fd k s) j (conn_history j (h @ [connect_event (length (store s))]))"
      using accept_one_at[of now fd k s j]
      by (auto simp: lifecycle_def accept_one_fields(1) split: if_splits)
  qed
  then show ?thesis by (simp add: emits_def accept_one_fields(3) sq_push_def)
qed

text \<open>Messages may only come from an open connection.\<close>

lemma emits_messages:
  assumes "cid < length (store s)" "\<not> closed (conn_at s cid)"
    and "length (store s') = length (store s)"
    and "\<And>j. j < length (store s) \<Longrightarrow> closed (conn_at s' j) = closed (conn_at s j)"
    and "queue (event_queue s') = queue (event_queue s) @ map (message_event cid) ps"
    and "finished (event_queue s') = finished (event_queue s)"
  shows "emits s (map (message_event cid) ps) s'"
proof -
  have "history_ok s' (h @ map (message_event cid) ps)" if "history_ok s h" for h
    unfolding history_ok_def
  proof
    fix j
    have l: "lifecycle s j (conn_history j h)" using that by (simp add: history_ok_def)
    show "lifecycle s' j (conn_history j (h @ map (message_event cid) ps))"
    proof (cases "j = cid")
      case True
      then obtain n where "conn_history cid h = CONNECT # replicate n MESSAGE"
        using l assms(1,2) by (auto simp: lifecycle_def)
      then show ?thesis using True assms(1-4)
        by (auto simp: lifecycle_def conn_history_messages simp flip: replicate_add)
    next
      case False
      then show ?thesis using l assms(3,4) by (simp add: lifecycle_def conn_history_messages)
    qed
  qed
  then show ?thesis using assms(5,6) by (simp add: emits_def)
qed

lemma emits_conn_result:
  assumes "cid < length (store s)" "conn_keeps (conn_at s cid) c" "\<not> closed (conn_at s cid) \<or> ps = []"
  shows "emits_some s (conn_result cl (map (message_event cid) ps) m c cid s)"
proof -
  let ?s = "fold push_event (map (message_event cid) ps) (s\<lparr>metrics := m, store := (store s)[cid := c]\<rparr>)"
  have cl: "closed (conn_at ?s j) = closed (conn_at s j)" for j
    using assms(1,2) by (simp add: conn_at_def nth_list_update conn_keeps_def)
  have "emits s (map (message_event cid) ps) ?s"
  proof (cases "ps = []")
    case True
    then show ?thesis using cl by (simp add: emits_silent)
  next
    case False
    then show ?thesis using assms cl by (intro emits_messages) auto
  qed
  moreover have "emits_some ?s (close_conn cid ?s)"
    using emits_close[of cid ?s] assms(1) by (intro emits_someI) simp
  ultimately show ?thesis
    by (simp add: conn_result_def Let_def emits_someI) (meson emits_someI emits_some_trans)
qed

section \<open>Handlers\<close>

lemma emits_accept_loop: "emits_some s (accept_loop now accepted s)"
  by (induction now accepted s rule: accept_loop.induct)
    (auto intro: emits_some_trans emits_someI emits_accept)

lemma emits_handle_read:
  assumes "server_wf s" "cid < length (store s)" "\<not> closed (conn_at s cid)" "clock_ok now s"
  shows "emits_some s (handle_read now cid s)"
proof -
  obtain cl msgs m c where r: "read_loop now (metrics s) (conn_at s cid) = (cl, msgs, m, c)"
    by (metis prod_cases4)
  have "rb_wf (in_buf (conn_at s cid))" using assms(1,2) by (simp add: server_wf_def conns_wf_def conn_wf_def)
  then have "conn_keeps (conn_at s cid) c"
    using read_loop_spec[OF r] read_loop_activity[OF r] assms(2,4)
    by (simp add: conn_keeps_def read_frame_def clock_ok_def)
  then show ?thesis unfolding handle_read_result[OF r] using assms(2,3) by (intro emits_conn_result) auto
qed

lemma emits_handle_write:
  assumes "cid < length (store s)"
  shows "emits_some s (handle_write cid s)"
proof -
  obtain cl m c where r: "handle_write_conn (metrics s) (conn_at s cid) = (cl, m, c)"
    by (metis prod_cases3)
  have "conn_keeps (conn_at s cid) c" using handle_write_conn_spec[OF r] by (auto intro: send_frame_keeps)
  then show ?thesis unfolding handle_write_result[OF r]
    using emits_conn_result[of cid s c "[]" cl m] assms by simp
qed

lemma emits_upd_some: "conn_op f \<Longrightarrow> emits_some s (upd_conn cid f s)"
  using emits_upd_conn by (rule emits_someI)

lemma emits_flush: "emits_some s (flush_all_queues locks s)"
  unfolding flush_all_queues_def flush_shard_def Let_def
  by (rule emits_some_fold, rule emits_some_fold, rule emits_upd_some[OF conn_ops(2)])

lemma emits_task: "emits_some s (run_task t s)"
  unfolding run_task_def task_deliver_def
  by (rule emits_some_fold, rule emits_upd_some[OF conn_ops(3)])

lemma emits_close_some: "cid < length (store s) \<Longrightarrow> emits_some s (close_conn cid s)"
  using emits_close by (rule emits_someI)

lemma emits_timeouts:
  "set out \<subseteq> {..<length (store s)} \<Longrightarrow> emits_some s (fold timeout_conn out s)"
proof (induction out arbitrary: s)
  case (Cons cid out)
  let ?m = "s\<lparr>metrics := on_timeout (metrics s)\<rparr>"
  have "emits s [] ?m" by (rule emits_silent) (simp_all add: conn_at_def)
  moreover have "emits_some ?m (close_conn cid ?m)" using Cons.prems by (intro emits_close_some) simp
  ultimately have "emits_some s (timeout_conn cid s)"
    unfolding timeout_conn_def using emits_someI emits_some_trans by blast
  moreover have "length (store (timeout_conn cid s)) = length (store s)" by (simp add: timeout_conn_def)
  ultimately show ?case using Cons by (auto intro: emits_some_trans)
qed simp

lemma emits_check_timeouts:
  assumes "server_wf s"
  shows "emits_some s (check_timeouts now s)"
proof -
  obtain out s1 where sw: "sweep_shards now [0..<length (shards s)] s = (out, s1)" by force
  have sub: "set [0..<length (shards s)] \<subseteq> {..<length (shards s)}" by auto
  note spec = sweep_shards_spec[OF sw server_wfD(1,2)[OF assms] sub]
  have "emits s [] s1" by (rule emits_silent) (use spec in \<open>simp_all add: conn_at_def\<close>)
  moreover have "emits_some s1 (fold timeout_conn out s1)" using spec by (intro emits_timeouts) auto
  ultimately show ?thesis
    by (simp add: check_timeouts_def sw) (meson emits_someI emits_some_trans)
qed

lemma emits_fields:
  assumes "store s' = store s" "event_queue s' = event_queue s"
  shows "emits_some s s'"
  by (rule emits_someI, rule emits_silent) (simp_all add: assms conn_at_def)

lemma emits_timer_fd:
  assumes "server_wf s"
  shows "emits_some s (handle_timer_fd w s)"
proof -
  define s2 where "s2 = (let s1 = flush_all_queues (\<lambda>cid. cid \<in> set (w_locks w)) s
    in s1\<lparr>stats_timer_accumulator := stats_timer_accumulator s1 + w_expirations w, ticks := ticks s1 + w_expirations w\<rparr>)"
  have eq: "handle_timer_fd w s = (if stats_timer_accumulator s2 \<ge> 6000
      then (check_timeouts (w_now w) s2)\<lparr>stats_timer_accumulator := 0\<rparr> else s2)"
    by (simp only: handle_timer_fd_def s2_def Let_def)
  have s2: "server_wf s2"
    using flush_all_queues_wf[OF assms] by (rule server_wf_cong[THEN iffD2, rotated 3]) (simp_all add: s2_def Let_def)
  have "emits_some (flush_all_queues (\<lambda>cid. cid \<in> set (w_locks w)) s) s2"
    by (rule emits_fields) (simp_all add: s2_def Let_def)
  then have e2: "emits_some s s2" using emits_flush emits_some_trans by blast
  have "emits_some (check_timeouts (w_now w) s2) ((check_timeouts (w_now w) s2)\<lparr>stats_timer_accumulator := 0\<rparr>)"
    by (rule emits_fields) simp_all
  then have "emits_some s2 ((check_timeouts (w_now w) s2)\<lparr>stats_timer_accumulator := 0\<rparr>)"
    by (rule emits_some_trans[OF emits_check_timeouts[OF s2]])
  then show ?thesis unfolding eq using e2 by (auto intro: emits_some_trans)
qed

lemma emits_conn_event:
  assumes "server_wf s" "clock_ok (w_now w) s"
  shows "emits_some s (handle_conn_event w s)"
proof (cases "map_of (connections (shards s ! get_shard_idx s (w_fd w))) (w_fd w)")
  case None
  then show ?thesis by (simp add: handle_conn_event_def)
next
  case (Some cid)
  note t = server_wfD(1)[OF assms(1)]
  note cid = tables_lookup[OF t get_shard_idx_less[OF t] Some]
  define r where "r = (if has_event (w_events w) EPOLLIN then handle_read (w_now w) cid s else s)"
  have "emits_some s r" using emits_handle_read[OF assms(1) cid(1,3) assms(2)] by (simp add: r_def)
  moreover have "emits_some r (handle_write cid r)"
    by (rule emits_handle_write) (use cid(1) in \<open>simp add: handle_read_at r_def\<close>)
  ultimately have "emits_some s r" "emits_some s (handle_write cid r)"
    by (blast intro: emits_some_trans)+
  moreover have "handle_conn_event w s = (if has_event (w_events w) (EPOLLERR OR EPOLLHUP) then close_conn cid s
      else if has_event (w_events w) EPOLLOUT then handle_write cid r else r)"
    by (simp only: handle_conn_event_def Some option.case Let_def r_def)
  ultimately show ?thesis using emits_close_some[OF cid(1)] by simp
qed

lemma emits_wakeup:
  assumes "server_wf s" "wakeup_ok w s"
  shows "emits_some s (handle_wakeup w s)"
  using assms emits_timer_fd emits_accept_loop emits_conn_event emits_fields[of _ s]
  by (auto simp: handle_wakeup_def wakeup_ok_def split: fd_role.split)

lemma emits_answers: "emits_some s (fold kernel_answers as s)"
proof (rule emits_some_fold)
  fix a s show "emits_some s (kernel_answers a s)"
    unfolding kernel_answers_def by (cases a) (simp add: emits_upd_some kernel_answers_conn_op)
qed

lemma emits_ready:
  assumes "server_wf s" "ready_ok ws s"
  shows "emits_some s (snd (handle_ready ws pending s))"
  using assms
proof (induction ws arbitrary: pending s)
  case (Cons w ws)
  let ?s = "fold kernel_answers (w_answers w) s"
  have ok: "wakeup_ok w ?s" "fd_kind ?s (w_fd w) \<noteq> SigFd \<Longrightarrow> ready_ok ws (handle_wakeup w ?s)"
    using Cons.prems(2) by (simp_all add: Let_def)
  note wf = kernel_answers_fold_wf[OF Cons.prems(1), of "w_answers w"]
  have "emits_some s (handle_wakeup w ?s)"
    using emits_wakeup[OF wf ok(1)] emits_answers emits_some_trans by blast
  moreover have "emits_some (handle_wakeup w ?s) (snd (handle_ready ws p (handle_wakeup w ?s)))"
    if "fd_kind ?s (w_fd w) \<noteq> SigFd" for p
    using Cons.IH[OF handle_wakeup_wf[OF wf ok(1)] ok(2)[OF that]] .
  ultimately show ?case
    by (simp only: handle_ready_Cons Let_def) (auto intro: emits_some_trans)
qed simp

lemma emits_batch:
  assumes "server_wf s" "ready_ok ws s"
  shows "emits_some s (run_batch ws s)"
proof -
  have "emits_some s1 (process_global_queue s1)" for s1 :: "'a web_server"
    by (rule emits_fields) (simp_all add: process_global_queue_def Let_def)
  moreover have "emits_some s (snd (handle_ready ws False s))" by (rule emits_ready[OF assms])
  ultimately show ?thesis
    by (auto simp: run_batch_def split: prod.split intro: emits_some_trans)
qed

end
