(* ===== verification/ServerProperties.thy ===== *)
theory ServerProperties
  imports Lifecycle
begin

text \<open>
  The properties of the reactor over whole runs and of its handlers one by one, from the
  invariant (\<open>ServerInvariant\<close>) and the event discipline (\<open>Lifecycle\<close>).
\<close>

section \<open>Runs\<close>

definition sample_env :: setup_env where
  "sample_env = \<lparr>sigprocmask_ok = True, signalfd_ret = 3, socket_ret = 4, setsockopt_ok = True, bind_ok = True,
     listen_ok = True, epoll_create_ret = 5, eventfd_ret = 6, timerfd_ret = 7, timerfd_settime_ok = True\<rparr>"

definition sample_socket :: kernel_socket where
  "sample_socket = \<lparr>interest = None, wire = [], wscript = [], rscript = []\<rparr>"

definition sample_accept :: wakeup where
  "sample_accept = \<lparr>w_fd = 4, w_events = EPOLLIN, w_now = 0, w_accepted = [(8, sample_socket)],
     w_expirations = 0, w_locks = [], w_answers = []\<rparr>"

definition sample_server :: "unit web_server" where
  "sample_server = the (new_server sample_env)"

lemma sample_server: "new_server sample_env = Some sample_server"
proof -
  have "new_server sample_env \<noteq> (None :: unit web_server option)"
    by (simp add: new_server_def sample_env_def setup_signalfd_def setup_server_socket_def setup_epoll_def
        setup_eventfd_def setup_timerfd_def Let_def)
  then show ?thesis by (auto simp: sample_server_def)
qed

lemma sample_server_empty: "store sample_server = []" "running sample_server" "event_queue sample_server = sq_new"
  using new_server_core[OF sample_server] by (simp_all add: same_core_def blank_server_def)

lemma sample_run_ok: "run_ok [EIntr, Ready [sample_accept]] sample_server"
  by (simp add: Let_def sample_accept_def wakeup_ok_def fresh_fd_def clock_ok_def sample_server_empty)

lemma add_server_fd_listen [simp]: "listen_fd (add_server_fd fd ev s) = listen_fd s"
  by (simp add: add_server_fd_def)

lemma setup_listen_fd:
  "setup_signalfd env s = Some s' \<Longrightarrow> listen_fd s' = listen_fd s"
  "setup_server_socket env s = Some s' \<Longrightarrow> listen_fd s' = socket_ret env"
  "setup_epoll env s = Some s' \<Longrightarrow> listen_fd s' = listen_fd s"
  "setup_eventfd env s = Some s' \<Longrightarrow> listen_fd s' = listen_fd s"
  "setup_timerfd env s = Some s' \<Longrightarrow> listen_fd s' = listen_fd s"
  by (auto simp: setup_signalfd_def setup_server_socket_def setup_epoll_def setup_eventfd_def
      setup_timerfd_def Let_def split: if_splits)

lemma new_server_listen_fd: "new_server env = Some s \<Longrightarrow> listen_fd s = socket_ret env"
  by (auto simp: new_server_def bind_eq_Some_conv dest!: setup_listen_fd)

text \<open>The concrete run: one client accepted.\<close>

lemma sample_run_store:
  "\<exists>s'. Run [EIntr, Ready [sample_accept]] sample_server = (False, s') \<and>
     store s' = [accepted_conn 8 0 sample_socket] \<and> queue (event_queue s') = [connect_event 0]"
proof -
  have k: "fd_kind sample_server 4 = ListenFd"
    using new_server_listen_fd[OF sample_server] by (simp add: fd_kind_def sample_env_def)
  have "run_batch [sample_accept] sample_server = accept_one 0 8 sample_socket sample_server"
    by (simp add: run_batch_def Let_def sample_accept_def k)
  moreover have "running (accept_one 0 8 sample_socket sample_server)"
    using sample_server_empty(2) by (simp add: accept_one_def Let_def push_event_def upd_shard_def)
  ultimately have "Run [EIntr, Ready [sample_accept]] sample_server = (False, accept_one 0 8 sample_socket sample_server)"
    using sample_server_empty(2) by (simp add: Run.simps)
  then show ?thesis by (simp add: accept_one_fields sample_server_empty sq_push_def sq_new_def)
qed

text \<open>C3: In every state a run of the server can be waiting in, the shard tables are exactly the open
  connections: a descriptor is looked up successfully iff an open connection has it, two open
  connections never share a descriptor, and total minus active connections counts the closed
  ones.\<close>

theorem run_tables_exact:
  assumes "new_server env = Some s" "run_ok rs s" "Run rs s = (False, s')"
  shows "(\<forall>fd cid. map_of (connections (shards s' ! get_shard_idx s' fd)) fd = Some cid \<longleftrightarrow>
      cid < length (store s') \<and> \<not> closed (conn_at s' cid) \<and> sock (conn_at s' cid) = fd) \<and>
    closed_balance (metrics s') = of_nat (length (filter closed (store s')))"
proof -
  have wf: "server_wf s'" using Run_outcome[OF new_server_wf[OF assms(1)] assms(2)] assms(3) by simp
  note t = server_wfD(1)[OF wf]
  have "map_of (connections (shards s' ! get_shard_idx s' fd)) fd = Some cid \<longleftrightarrow>
      cid < length (store s') \<and> \<not> closed (conn_at s' cid) \<and> sock (conn_at s' cid) = fd" for fd cid
    using tables_lookup[OF t get_shard_idx_less[OF t], of fd fd cid] open_lookup[OF t, of cid] by blast
  with t show ?thesis by (simp add: tables_wf_def)
qed

theorem run_tables_exact_witness:
  "\<exists>s'. Run [EIntr, Ready [sample_accept]] sample_server = (False, s') \<and>
     closed_balance (metrics s') = of_nat (length (filter closed (store s')))"
proof -
  obtain s' where "Run [EIntr, Ready [sample_accept]] sample_server = (False, s')"
    using sample_run_store by blast
  from run_tables_exact[OF sample_server sample_run_ok this] this show ?thesis by blast
qed







section \<open>Handlers\<close>

definition one_client :: "kernel_socket \<Rightarrow> unit web_server" where
  "one_client k = accept_one 0 8 k sample_server"

lemma one_client:
  "server_wf (one_client k)" "store (one_client k) = [accepted_conn 8 0 k]"
  "conn_at (one_client k) 0 = accepted_conn 8 0 k"
proof -
  show "store (one_client k) = [accepted_conn 8 0 k]"
    by (simp add: one_client_def accept_one_fields sample_server_empty)
  then show "conn_at (one_client k) 0 = accepted_conn 8 0 k" by (simp add: conn_at_def)
  show "server_wf (one_client k)"
    unfolding one_client_def
    by (intro accept_one_wf new_server_wf[OF sample_server]) (simp add: fresh_fd_def sample_server_empty)
qed

text \<open>C8: The idle sweep closes exactly the connections whose last activity lies the whole timeout
  back, and leaves every other connection untouched; the invariant survives.\<close>

theorem check_timeouts_exact:
  assumes "server_wf s" "cid < length (store s)"
  shows "server_wf (check_timeouts now s) \<and>
    (closed (conn_at (check_timeouts now s) cid) \<longleftrightarrow>
       closed (conn_at s cid) \<or> last_activity (conn_at s cid) + 600 * 1000000000 \<le> now) \<and>
    (now < last_activity (conn_at s cid) + 600 * 1000000000 \<longrightarrow> conn_at (check_timeouts now s) cid = conn_at s cid)"
  using check_timeouts_spec[OF assms(1), of now] assms(2)
  by (auto simp: idle_since_def CONNECTION_TIMEOUT_def)

theorem check_timeouts_exact_witness:
  "closed (conn_at (check_timeouts 600000000000 (one_client sample_socket)) 0) \<and>
   \<not> closed (conn_at (check_timeouts 599999999999 (one_client sample_socket)) 0)"
  using check_timeouts_exact[OF one_client(1), of 0 sample_socket 600000000000]
    check_timeouts_exact[OF one_client(1), of 0 sample_socket 599999999999]
  by (simp add: one_client)

text \<open>Closing an open connection marks it closed, removes it from its shard and from epoll, pushes
  exactly one DISCONNECT and counts it once; closing it again changes nothing, and no other
  connection is touched.\<close>

theorem close_conn_once:
  assumes "server_wf s" "cid < length (store s)" "\<not> closed (conn_at s cid)"
  defines "s' \<equiv> close_conn cid s"
  shows "server_wf s' \<and> closed (conn_at s' cid) \<and> interest (ksock (conn_at s' cid)) = None \<and>
    map_of (connections (shards s' ! get_shard_idx s' (sock (conn_at s cid)))) (sock (conn_at s cid)) = None \<and>
    queue (event_queue s') = queue (event_queue s) @ [disconnect_event cid] \<and>
    closed_balance (metrics s') = closed_balance (metrics s) + 1 \<and>
    close_conn cid s' = s' \<and> (\<forall>j. j \<noteq> cid \<longrightarrow> conn_at s' j = conn_at s j)"
proof -
  have wf: "server_wf s'" unfolding s'_def using assms(1,2) by (rule close_conn_wf)
  have at: "conn_at s' j = (if j = cid then shut_down (conn_at s cid) else conn_at s j)" for j
    using close_conn_at[OF assms(2), of j] assms(3) by (simp add: s'_def)
  let ?fd = "sock (conn_at s cid)"
  have "map_of (connections (shards s' ! get_shard_idx s' ?fd)) ?fd = None"
  proof (rule ccontr)
    assume "\<not> ?thesis"
    then obtain d where d: "map_of (connections (shards s' ! get_shard_idx s' ?fd)) ?fd = Some d" by auto
    note t = server_wfD(1)[OF wf]
    note l = tables_lookup[OF t get_shard_idx_less[OF t] d]
    have "d \<noteq> cid" "d < length (store s)" using l(1,3) at[of d] by (auto simp: s'_def split: if_splits)
    then have "d = cid"
      using open_fd_inj[OF server_wfD(1)[OF assms(1)], of d cid] l(2,3) at[of d] assms(2,3) by simp
    with \<open>d \<noteq> cid\<close> show False by simp
  qed
  then show ?thesis
    using wf at assms(2,3) close_conn_open[OF assms(3,2)] close_conn_idem[OF assms(2)]
    by (simp add: s'_def sq_push_def) (simp add: shut_down_def)
qed

theorem close_conn_once_witness:
  "closed (conn_at (close_conn 0 (one_client sample_socket)) 0) \<and>
   close_conn 0 (close_conn 0 (one_client sample_socket)) = close_conn 0 (one_client sample_socket)"
  using close_conn_once[OF one_client(1), of 0 sample_socket] by (simp add: one_client)

text \<open>C6: Whatever the chunks in which the kernel hands the bytes over, and however they wrap around
  in the ring, reading an open connection pushes the packets that are complete, in order and each
  once, as MESSAGE events of that connection, and keeps the incomplete rest for the next time.\<close>

theorem handle_read_reassembles:
  assumes "server_wf s" "cid < length (store s)" "\<not> closed (conn_at s cid)"
    and "rb_capacity (in_buf (conn_at s cid)) = 8192" "parse_frame (rb_contents (in_buf (conn_at s cid))) = Incomplete"
    and "\<forall>p\<in>set packets. length p \<le> 8188" "data_only (rscript (ksock (conn_at s cid)))"
    and "rb_contents (in_buf (conn_at s cid)) @ incoming (rscript (ksock (conn_at s cid))) @ future =
      concat (map frame packets)"
  shows "\<exists>got todo. packets = got @ todo \<and>
    queue (event_queue (handle_read now cid s)) = queue (event_queue s) @ map (message_event cid) got \<and>
    \<not> closed (conn_at (handle_read now cid s) cid) \<and>
    rb_contents (in_buf (conn_at (handle_read now cid s) cid)) @ future = concat (map frame todo) \<and>
    parse_frame (rb_contents (in_buf (conn_at (handle_read now cid s) cid))) = Incomplete"
proof -
  let ?c = "conn_at s cid"
  have wf: "rb_wf (in_buf ?c)" using assms(1,2) by (simp add: server_wf_def conns_wf_def conn_wf_def)
  have fit: "list_all (fits (rb_capacity (in_buf ?c))) packets"
    using assms(4,6) by (auto simp: fits_def packet_ok_def list_all_iff)
  obtain got todo m c where r: "packets = got @ todo" "read_loop now (metrics s) ?c = (False, got, m, c)"
    "rb_contents (in_buf c) @ future = concat (map frame todo)" "parse_frame (rb_contents (in_buf c)) = Incomplete"
    using read_loop_reassembles[OF wf assms(5) fit assms(7,8)] by blast
  have eq: "handle_read now cid s = conn_result False (map (message_event cid) got) m c cid s"
    using handle_read_result[OF r(2)] .
  have "\<not> closed c" using read_loop_spec[OF r(2) wf] assms(3) by (simp add: read_frame_def)
  moreover have "conn_at (handle_read now cid s) cid = c"
    using assms(2) by (simp add: eq conn_result_def) (simp add: conn_at_def)
  moreover have "queue (event_queue (handle_read now cid s)) = queue (event_queue s) @ map (message_event cid) got"
    by (simp add: eq conn_result_def)
  ultimately show ?thesis using r by blast
qed

theorem handle_read_reassembles_witness:
  "\<exists>got todo. [[42], [7, 8]] = got @ todo \<and>
     queue (event_queue (handle_read 1 0 (one_client (sample_socket\<lparr>rscript := [Bytes [0, 0], Bytes [0, 1, 42, 0]]\<rparr>)))) =
       [connect_event 0] @ map (message_event 0) got"
proof -
  let ?k = "sample_socket\<lparr>rscript := [Bytes [0, 0], Bytes [0, 1, 42, 0]]\<rparr>"
  let ?s = "one_client ?k" and ?c = "accepted_conn 8 0 (sample_socket\<lparr>rscript := [Bytes [0, 0], Bytes [0, 1, 42, 0]]\<rparr>)"
  have k: "ksock ?c = ?k\<lparr>interest := Some (EPOLLIN OR EPOLLET)\<rparr>"
    by (simp add: accepted_conn_def add_fd_to_epoll_def new_connection_def)
  have r: "rscript (ksock (conn_at ?s 0)) = [Bytes [0, 0], Bytes [0, 1, 42, 0]]" by (simp add: one_client k)
  have c: "rb_contents (in_buf (conn_at ?s 0)) = []" "rb_capacity (in_buf (conn_at ?s 0)) = 8192"
    using rb_wf_new[of 8192] by (simp_all add: one_client rb_capacity_def) (simp add: rb_new_def)
  have q: "queue (event_queue ?s) = [connect_event 0]"
    by (simp add: one_client_def accept_one_fields sample_server_empty sq_push_def sq_new_def)
  have "\<exists>got todo. [[42], [7, 8]] = got @ todo \<and>
      queue (event_queue (handle_read 1 0 ?s)) = queue (event_queue ?s) @ map (message_event 0) got \<and>
      \<not> closed (conn_at (handle_read 1 0 ?s) 0) \<and>
      rb_contents (in_buf (conn_at (handle_read 1 0 ?s) 0)) @ [0, 0, 2, 7, 8] = concat (map frame todo) \<and>
      parse_frame (rb_contents (in_buf (conn_at (handle_read 1 0 ?s) 0))) = Incomplete"
    by (rule handle_read_reassembles[OF one_client(1)])
      (use c r in \<open>simp_all add: one_client data_only_def frame_def htonl_bytes_def parse_frame_def\<close>)
  then show ?thesis unfolding q by blast
qed

text \<open>The ring bounds what a client may send: once the kernel delivers as many bytes as the ring
  holds of a packet that announces more, although within the codec's ten megabyte limit, the
  connection is closed and no message of it is delivered.\<close>

theorem handle_read_overflow_closes:
  assumes "server_wf s" "cid < length (store s)" "\<not> closed (conn_at s cid)" "data_only (rscript (ksock (conn_at s cid)))"
    and "stream = rb_contents (in_buf (conn_at s cid)) @ incoming (rscript (ksock (conn_at s cid)))"
    and "4 \<le> length stream" "unat (ntohl_bytes (take 4 stream)) \<le> 10485760"
    and "rb_capacity (in_buf (conn_at s cid)) < 4 + unat (ntohl_bytes (take 4 stream))"
    and "rb_capacity (in_buf (conn_at s cid)) \<le> length stream"
  shows "closed (conn_at (handle_read now cid s) cid) \<and>
    queue (event_queue (handle_read now cid s)) = queue (event_queue s) @ [disconnect_event cid]"
proof -
  let ?c = "conn_at s cid"
  have wf: "rb_wf (in_buf ?c)" using assms(1,2) by (simp add: server_wf_def conns_wf_def conn_wf_def)
  obtain m c where r: "read_loop now (metrics s) ?c = (True, [], m, c)"
    using read_loop_overflow[OF wf assms(4,6,5,7-9)] by blast
  let ?s = "s\<lparr>metrics := m, store := (store s)[cid := c]\<rparr>"
  have "\<not> closed c" using read_loop_spec[OF r wf] assms(3) by (simp add: read_frame_def)
  then have op: "\<not> closed (conn_at ?s cid)" and len: "cid < length (store ?s)"
    using assms(2) by (simp_all add: conn_at_def)
  have "handle_read now cid s = close_conn cid ?s" by (simp add: handle_read_result[OF r] conn_result_def)
  then show ?thesis using close_conn_at[OF len, of cid] op close_conn_open(4)[OF op len]
    by (simp add: sq_push_def)
qed

theorem handle_read_overflow_closes_witness:
  "closed (conn_at (handle_read 1 0
     (one_client (sample_socket\<lparr>rscript := [Bytes ([0, 0, 32, 0] @ replicate 8188 0)]\<rparr>))) 0)"
proof -
  let ?k = "sample_socket\<lparr>rscript := [Bytes ([0, 0, 32, 0] @ replicate 8188 0)]\<rparr>"
  let ?s = "one_client ?k" and ?stream = "[0, 0, 32, 0] @ replicate 8188 0 :: byte list"
  have k: "rscript (ksock (accepted_conn 8 0 ?k)) = [Bytes ?stream]"
    by (simp add: accepted_conn_def add_fd_to_epoll_def new_connection_def)
  have r: "rscript (ksock (conn_at ?s 0)) = [Bytes ?stream]" using k by (simp only: one_client)
  have c: "rb_contents (in_buf (conn_at ?s 0)) = []" "rb_capacity (in_buf (conn_at ?s 0)) = 8192"
    using rb_wf_new[of 8192] by (simp_all add: one_client rb_capacity_def) (simp add: rb_new_def)
  have len: "length ?stream = 8192" by simp
  have "take 4 ?stream = [0, 0, 32, 0]" by simp
  then have h: "unat (ntohl_bytes (take 4 ?stream)) = 8192" by simp
  have d: "data_only (rscript (ksock (conn_at ?s 0)))" unfolding r by (simp add: data_only_def)
  have s: "?stream = rb_contents (in_buf (conn_at ?s 0)) @ incoming (rscript (ksock (conn_at ?s 0)))"
    unfolding r c by simp
  have "0 < length (store ?s)" "\<not> closed (conn_at ?s 0)" by (simp_all add: one_client)
  from handle_read_overflow_closes[OF one_client(1) this d s] show ?thesis
    unfolding len h c by simp
qed

end
