(* ===== verification/Broadcasting.thy ===== *)
theory Broadcasting
  imports ServerProperties Multicast
begin

text \<open>
  A broadcast from end to end: \<open>Broadcast\<close> queues it, \<open>process_global_queue\<close> turns the
  queue into one task per shard, and each task delivers to the connections of its shard.
  The tasks are run here one after the other, in any order the caller chooses by the list
  of shards; \<open>System\<close> interleaves them with the other threads.
\<close>

section \<open>One task\<close>

text \<open>What a task adds to the stream of a connection, given its state before.\<close>

definition task_bytes :: "broadcast_event list \<Rightarrow> 'u connection \<Rightarrow> byte list" where
  "task_bytes evts c = (if closed c then [] else concat (map bpayload (accepted_broadcasts evts c)))"

lemma task_deliver_at:
  "conn_at (task_deliver t cid s) j =
     (if j = cid \<and> cid < length (store s)
      then snd (deliver_conn (task_events t) (metrics s) (conn_at s cid)) else conn_at s j)"
  by (simp add: task_deliver_def upd_conn_at)

lemma task_deliver_fields [simp]:
  "shards (task_deliver t cid s) = shards s" "length (store (task_deliver t cid s)) = length (store s)"
  "event_queue (task_deliver t cid s) = event_queue s" "threadpool (task_deliver t cid s) = threadpool s"
  by (simp_all add: task_deliver_def)

lemma task_deliver_stream:
  assumes "cid < length (store s)"
  shows "out_stream (conn_at (task_deliver t cid s) cid) = out_stream (conn_at s cid) @ task_bytes (task_events t) (conn_at s cid)"
    and "send_frame (conn_at s cid) (conn_at (task_deliver t cid s) cid)"
  using deliver_conn_sends[of "task_events t" "metrics s" "conn_at s cid"] assms
  by (auto simp: task_deliver_at sends_def task_bytes_def split: prod.splits)
    (metis (lifting) prod.collapse)+

lemma deliver_all:
  assumes "distinct cids" "set cids \<subseteq> {..<length (store s)}"
  shows "(\<forall>j. j \<notin> set cids \<longrightarrow> conn_at (fold (task_deliver t) cids s) j = conn_at s j) \<and>
    (\<forall>j\<in>set cids. send_frame (conn_at s j) (conn_at (fold (task_deliver t) cids s) j) \<and>
       out_stream (conn_at (fold (task_deliver t) cids s) j) =
         out_stream (conn_at s j) @ task_bytes (task_events t) (conn_at s j)) \<and>
    shards (fold (task_deliver t) cids s) = shards s \<and>
    length (store (fold (task_deliver t) cids s)) = length (store s)"
  using assms
proof (induction cids arbitrary: s)
  case (Cons cid cids)
  let ?s = "task_deliver t cid s"
  have len: "cid < length (store s)" using Cons.prems(2) by simp
  have other: "conn_at ?s j = conn_at s j" if "j \<noteq> cid" for j using that by (simp add: task_deliver_at)
  have IH: "(\<forall>j. j \<notin> set cids \<longrightarrow> conn_at (fold (task_deliver t) cids ?s) j = conn_at ?s j) \<and>
    (\<forall>j\<in>set cids. send_frame (conn_at ?s j) (conn_at (fold (task_deliver t) cids ?s) j) \<and>
       out_stream (conn_at (fold (task_deliver t) cids ?s) j) =
         out_stream (conn_at ?s j) @ task_bytes (task_events t) (conn_at ?s j)) \<and>
    shards (fold (task_deliver t) cids ?s) = shards ?s \<and>
    length (store (fold (task_deliver t) cids ?s)) = length (store ?s)"
    using Cons by (intro Cons.IH) simp_all
  have "j \<noteq> cid" if "j \<in> set cids" for j using that Cons.prems(1) by auto
  then show ?case using IH other task_deliver_stream[OF len, of t] Cons.prems(1) by auto
qed simp

section \<open>All tasks of a batch\<close>

definition batch_tasks :: "broadcast_event list \<Rightarrow> nat list \<Rightarrow> broadcast_task list" where
  "batch_tasks evts is = map (\<lambda>i. \<lparr>task_shard = i, task_events = evts\<rparr>) is"

lemma process_global_queue_tasks:
  assumes "shards s \<noteq> []" "global_queue s \<noteq> []"
  shows "task_queue (threadpool (process_global_queue s)) =
      task_queue (threadpool s) @ batch_tasks (global_queue s) [0..<length (shards s)]"
    and "global_queue (process_global_queue s) = []"
  using assms by (simp_all add: process_global_queue_def Let_def tp_push_batch_items batch_tasks_def)

lemma snapshot_wf:
  assumes "tables_wf s" "task_shard t < length (shards s)"
  shows "distinct (task_snapshot t s)" "set (task_snapshot t s) \<subseteq> {..<length (store s)}"
    and "j \<in> set (task_snapshot t s) \<longleftrightarrow>
      j < length (store s) \<and> \<not> closed (conn_at s j) \<and> get_shard_idx s (sock (conn_at s j)) = task_shard t"
proof -
  let ?cs = "connections (shards s ! task_shard t)"
  have wf: "shard_wf s (task_shard t) (shards s ! task_shard t)" using assms by (simp add: tables_wf_def)
  have entry: "entry_ok s (task_shard t) p" if "p \<in> set ?cs" for p using tables_entry[OF assms that] .
  have "inj_on snd (set ?cs)"
  proof (rule inj_onI)
    fix p q assume "p \<in> set ?cs" "q \<in> set ?cs" "snd p = snd q"
    then have "fst p = fst q" using entry[of p] entry[of q] by (simp add: entry_ok_def)
    with \<open>snd p = snd q\<close> show "p = q" by (simp add: prod_eq_iff)
  qed
  moreover have "distinct ?cs" using wf by (simp add: shard_wf_def distinct_map)
  ultimately have "distinct (map snd ?cs)" by (simp add: distinct_map)
  then show "distinct (task_snapshot t s)" by (simp add: task_snapshot_def shard_conns_def)
  show "set (task_snapshot t s) \<subseteq> {..<length (store s)}"
    using entry by (force simp: task_snapshot_def shard_conns_def entry_ok_def)
  show "j \<in> set (task_snapshot t s) \<longleftrightarrow>
      j < length (store s) \<and> \<not> closed (conn_at s j) \<and> get_shard_idx s (sock (conn_at s j)) = task_shard t"
  proof
    assume "j \<in> set (task_snapshot t s)"
    then obtain p where p: "p \<in> set ?cs" "snd p = j" by (auto simp: task_snapshot_def shard_conns_def)
    with entry[OF p(1)] show "j < length (store s) \<and> \<not> closed (conn_at s j) \<and>
        get_shard_idx s (sock (conn_at s j)) = task_shard t"
      by (auto simp: entry_ok_def)
  next
    assume j: "j < length (store s) \<and> \<not> closed (conn_at s j) \<and> get_shard_idx s (sock (conn_at s j)) = task_shard t"
    have "registered s" using assms(1) by (simp add: tables_wf_def)
    then have "(sock (conn_at s j), j) \<in> set ?cs" using j unfolding registered_def by metis
    then show "j \<in> set (task_snapshot t s)" using j by (force simp: task_snapshot_def shard_conns_def)
  qed
qed

lemma run_task_spec:
  assumes "tables_wf s" "task_shard t < length (shards s)"
  shows "tables_frame s (run_task t s)"
    and "out_stream (conn_at (run_task t s) j) = out_stream (conn_at s j) @
      (if j < length (store s) \<and> \<not> closed (conn_at s j) \<and> get_shard_idx s (sock (conn_at s j)) = task_shard t
       then concat (map bpayload (accepted_broadcasts (task_events t) (conn_at s j))) else [])"
    and "get_shard_idx s (sock (conn_at s j)) \<noteq> task_shard t \<Longrightarrow> conn_at (run_task t s) j = conn_at s j"
proof -
  note snap = snapshot_wf[OF assms]
  note d = deliver_all[OF snap(1,2), of t]
  show "tables_frame s (run_task t s)"
    unfolding run_task_def
    by (rule fold_preserves) (auto intro: tables_frame_trans simp: task_deliver_def upd_conn_frame conn_ops(3))
  show "out_stream (conn_at (run_task t s) j) = out_stream (conn_at s j) @
      (if j < length (store s) \<and> \<not> closed (conn_at s j) \<and> get_shard_idx s (sock (conn_at s j)) = task_shard t
       then concat (map bpayload (accepted_broadcasts (task_events t) (conn_at s j))) else [])"
    using d snap(3)[of j] by (cases "j \<in> set (task_snapshot t s)") (auto simp: run_task_def task_bytes_def)
  show "get_shard_idx s (sock (conn_at s j)) \<noteq> task_shard t \<Longrightarrow> conn_at (run_task t s) j = conn_at s j"
    using d snap(3)[of j] by (simp add: run_task_def)
qed

lemma run_tasks_spec:
  assumes "tables_wf s" "distinct is" "set is \<subseteq> {..<length (shards s)}"
  shows "out_stream (conn_at (fold run_task (batch_tasks evts is) s) j) = out_stream (conn_at s j) @
      (if j < length (store s) \<and> \<not> closed (conn_at s j) \<and> get_shard_idx s (sock (conn_at s j)) \<in> set is
       then concat (map bpayload (accepted_broadcasts evts (conn_at s j))) else [])"
  using assms
proof (induction "is" arbitrary: s)
  case (Cons i "is")
  let ?t = "\<lparr>task_shard = i, task_events = evts\<rparr>"
  let ?s = "run_task ?t s"
  have i: "task_shard ?t < length (shards s)" using Cons.prems(3) by simp
  note rt = run_task_spec[OF Cons.prems(1) i]
  have fr: "shards ?s = shards s" "length (store ?s) = length (store s)"
    "\<And>k. k < length (store s) \<Longrightarrow> sock (conn_at ?s k) = sock (conn_at s k) \<and> closed (conn_at ?s k) = closed (conn_at s k)"
    using rt(1) by (simp_all add: tables_frame_def conn_keeps_def)
  have idx: "get_shard_idx ?s fd = get_shard_idx s fd" for fd using fr(1) by (simp add: get_shard_idx_def)
  have IH: "out_stream (conn_at (fold run_task (batch_tasks evts is) ?s) j) = out_stream (conn_at ?s j) @
      (if j < length (store ?s) \<and> \<not> closed (conn_at ?s j) \<and> get_shard_idx ?s (sock (conn_at ?s j)) \<in> set is
       then concat (map bpayload (accepted_broadcasts evts (conn_at ?s j))) else [])"
    using Cons.prems fr(1) tables_frame_wf[OF rt(1)] by (intro Cons.IH) simp_all
  show ?case
  proof (cases "get_shard_idx s (sock (conn_at s j)) = i")
    case True
    then have "i \<notin> set is \<and> j < length (store s) \<longrightarrow> get_shard_idx ?s (sock (conn_at ?s j)) \<notin> set is"
      using fr(3) idx by simp
    with True IH rt(2)[of j] Cons.prems(2) fr(2) show ?thesis by (auto simp: batch_tasks_def)
  next
    case False
    then have "conn_at ?s j = conn_at s j" using rt(3)[of j] by simp
    with False IH fr(2) idx show ?thesis by (simp add: batch_tasks_def)
  qed
qed (simp add: batch_tasks_def)

lemma setup_queues:
  "setup_signalfd env s = Some s' \<Longrightarrow> global_queue s' = global_queue s"
  "setup_server_socket env s = Some s' \<Longrightarrow> global_queue s' = global_queue s"
  "setup_epoll env s = Some s' \<Longrightarrow> global_queue s' = global_queue s"
  "setup_eventfd env s = Some s' \<Longrightarrow> global_queue s' = global_queue s"
  "setup_timerfd env s = Some s' \<Longrightarrow> global_queue s' = global_queue s"
  by (auto simp: setup_signalfd_def setup_server_socket_def setup_epoll_def setup_eventfd_def
      setup_timerfd_def Let_def add_server_fd_def split: if_splits)

lemma new_server_queues: "new_server env = Some s \<Longrightarrow> threadpool s = tp_new \<and> global_queue s = []"
  by (auto simp: new_server_def bind_eq_Some_conv dest!: setup_queues) (simp add: blank_server_def)

text \<open>The queue becomes tasks, and the tasks run.\<close>

lemma queued_broadcasts_delivered:
  assumes "server_wf s" "global_queue s \<noteq> []" "task_queue (threadpool s) = []" "cid < length (store s)"
  defines "s' \<equiv> process_global_queue s"
  shows "global_queue s' = [] \<and>
    out_stream (conn_at (fold run_task (task_queue (threadpool s')) s') cid) = out_stream (conn_at s cid) @
      (if closed (conn_at s cid) then []
       else concat (map bpayload (take (MAX_OUTGOING_QUEUE_SIZE - length (outgoing_queue (conn_at s cid)))
         (filter (\<lambda>evt. sender_fd evt = -1 \<or> sock (conn_at s cid) \<noteq> sender_fd evt) (global_queue s)))))"
proof -
  have ne: "shards s \<noteq> []" using assms(1) by (simp add: server_wf_def tables_wf_def)
  have core: "shards s' = shards s" "store s' = store s" "metrics s' = metrics s"
    by (simp_all add: s'_def process_global_queue_def Let_def)
  have t: "tables_wf s'" using process_global_queue_wf[OF assms(1)] by (simp add: server_wf_def s'_def)
  have tasks: "task_queue (threadpool s') = batch_tasks (global_queue s) [0..<length (shards s')]"
    using process_global_queue_tasks[OF ne assms(2)] assms(3) core(1) by (simp add: s'_def)
  have at: "conn_at s' cid = conn_at s cid" using core(2) by (simp add: conn_at_def)
  have "get_shard_idx s' (sock (conn_at s' cid)) \<in> set [0..<length (shards s')]"
    using get_shard_idx_less[OF t] by simp
  moreover have "set [0..<length (shards s')] \<subseteq> {..<length (shards s')}" by auto
  ultimately show ?thesis
    using run_tasks_spec[OF t distinct_upt, of 0 "length (shards s')" "global_queue s" cid]
      process_global_queue_tasks(2)[OF ne assms(2)] assms(4) core(2)
    unfolding tasks by (simp add: at accepted_broadcasts_def) (simp add: s'_def)
qed

section \<open>Properties\<close>

text \<open>C7: A broadcast reaches everybody: once the queued broadcasts have been turned into tasks and the
  tasks have run, every open connection has in its stream, in the order of the broadcasts, the
  payload of each one it did not send itself, as far as its queue has room; closed connections get
  nothing, and the global queue is empty.\<close>

theorem broadcast_reaches_all:
  assumes "server_wf s" "global_queue s \<noteq> []" "task_queue (threadpool s) = []" "cid < length (store s)"
  defines "s' \<equiv> process_global_queue s"
  shows "global_queue s' = [] \<and>
    out_stream (conn_at (fold run_task (task_queue (threadpool s')) s') cid) = out_stream (conn_at s cid) @
      (if closed (conn_at s cid) then []
       else concat (map bpayload (take (MAX_OUTGOING_QUEUE_SIZE - length (outgoing_queue (conn_at s cid)))
         (filter (\<lambda>evt. sender_fd evt = -1 \<or> sock (conn_at s cid) \<noteq> sender_fd evt) (global_queue s)))))"
  using assms(1-4) unfolding s'_def by (rule queued_broadcasts_delivered)

theorem broadcast_reaches_all_witness:
  "out_stream (conn_at
     (fold run_task (task_queue (threadpool (process_global_queue (Broadcast [1, 2] (-1) (one_client sample_socket)))))
        (process_global_queue (Broadcast [1, 2] (-1) (one_client sample_socket)))) 0) = [1, 2]"
proof -
  let ?s = "Broadcast [1, 2] (-1) (one_client sample_socket)"
  have wf: "server_wf ?s" using one_client(1)[of sample_socket]
    by (rule server_wf_cong[THEN iffD2, rotated 3]) (simp_all add: Broadcast_def)
  have core: "store ?s = [accepted_conn 8 0 sample_socket]" by (simp add: Broadcast_def one_client)
  have pool: "threadpool (new_server_state :: unit web_server) = tp_new \<and> global_queue (new_server_state :: unit web_server) = []"
    if "new_server sample_env = Some new_server_state" for new_server_state :: "unit web_server"
    using that new_server_queues by blast
  have q: "task_queue (threadpool ?s) = []" "global_queue ?s = [\<lparr>sender_fd = -1, bpayload = [1, 2]\<rparr>]"
    using pool[OF sample_server]
    by (simp_all add: Broadcast_def one_client_def accept_one_def Let_def push_event_def upd_shard_def tp_new_def)
  have c: "conn_at ?s 0 = accepted_conn 8 0 sample_socket" using core by (simp add: conn_at_def)
  have "out_stream (accepted_conn 8 0 sample_socket) = []"
    by (simp add: out_stream_def accepted_conn_def add_fd_to_epoll_def new_connection_def sample_socket_def)
  with broadcast_reaches_all[OF wf _ q(1), of 0] q(2) core c show ?thesis
    by (simp add: MAX_OUTGOING_QUEUE_SIZE_def)
qed

text \<open>A multicast through \<open>SendPreEncoded\<close> to distinct connections appends the packet once to the
  stream of each open one and to no other stream, and keeps the server's invariant.\<close>

theorem multicast_exact:
  assumes "distinct cids" "server_wf s"
  shows "server_wf (fold (\<lambda>cid. SendPreEncoded cid packet) cids s) \<and>
    out_stream (conn_at (fold (\<lambda>cid. SendPreEncoded cid packet) cids s) d) =
      out_stream (conn_at s d) @ (if d \<in> set cids \<and> d < length (store s) \<and> \<not> closed (conn_at s d) then packet else [])"
proof -
  have "server_wf (fold (\<lambda>cid. SendPreEncoded cid packet) cids s)"
    using assms(2) by (rule fold_preserves) (rule SendPreEncoded_wf)
  then show ?thesis
    using sink.multicast_distinct[OF assms(1), of packet s d]
    by (simp add: sink.multicast_def server_stream_def server_live_def)
qed

theorem multicast_exact_witness:
  "out_stream (conn_at (SendPreEncoded 0 [9] (one_client sample_socket)) 0) = [9]"
proof -
  have "out_stream (accepted_conn 8 0 sample_socket) = []"
    by (simp add: out_stream_def accepted_conn_def add_fd_to_epoll_def new_connection_def sample_socket_def)
  with multicast_exact[of "[0]", OF _ one_client(1), of "[9]" sample_socket 0] show ?thesis
    by (simp add: one_client)
qed

end
