(* ===== verification/ChatInvariant.thy ===== *)
theory ChatInvariant
  imports Directory Broadcasting
begin

text \<open>
  The handlers of \<open>ChatApp\<close> as changes of the directory (\<open>Directory\<close>), and the invariant
  of the whole application: the server is well formed, its event history is in order, and
  the directory is well formed over the sessions that have not yet said goodbye.
\<close>

section \<open>The view of the application\<close>

definition nconns :: "chat_app \<Rightarrow> nat" where
  "nconns app = length (store (server app))"

definition sessions :: "chat_app \<Rightarrow> sessions" where
  "sessions app cid = (if cid < nconns app then session_of cid app else None)"

definition is_closed :: "chat_app \<Rightarrow> conn_id \<Rightarrow> bool" where
  "is_closed app cid = closed (conn_at (server app) cid)"

definition pending_events :: "chat_app \<Rightarrow> network_event list" where
  "pending_events app = queue (event_queue (server app))"

text \<open>Connections, close flags and events stay, and the server stays well formed.\<close>

definition conns_kept :: "chat_app \<Rightarrow> chat_app \<Rightarrow> bool" where
  "conns_kept app app' \<longleftrightarrow> nconns app' = nconns app \<and> (\<forall>cid<nconns app. is_closed app' cid = is_closed app cid) \<and>
     event_queue (server app') = event_queue (server app) \<and> (server_wf (server app) \<longrightarrow> server_wf (server app'))"

lemma conns_kept_refl [simp]: "conns_kept app app"
  by (simp add: conns_kept_def)

lemma conns_kept_trans: "conns_kept a b \<Longrightarrow> conns_kept b c \<Longrightarrow> conns_kept a c"
  by (auto simp: conns_kept_def)

lemma conns_kept_tables [simp]:
  "conns_kept app (app'\<lparr>online_users := W\<rparr>) \<longleftrightarrow> conns_kept app app'"
  "conns_kept app (app'\<lparr>rooms := R\<rparr>) \<longleftrightarrow> conns_kept app app'"
  "conns_kept (app\<lparr>online_users := W\<rparr>) app' \<longleftrightarrow> conns_kept app app'"
  "conns_kept (app\<lparr>rooms := R\<rparr>) app' \<longleftrightarrow> conns_kept app app'"
  by (simp_all add: conns_kept_def nconns_def is_closed_def)

lemma conns_kept_fromI:
  "conns_kept (app\<lparr>online_users := W\<rparr>) app' \<Longrightarrow> conns_kept app app'"
  "conns_kept (app\<lparr>rooms := R\<rparr>) app' \<Longrightarrow> conns_kept app app'"
  by simp_all

lemma view_tables [simp]:
  "sessions (app\<lparr>online_users := W\<rparr>) = sessions app" "sessions (app\<lparr>rooms := R\<rparr>) = sessions app"
  "nconns (app\<lparr>online_users := W\<rparr>) = nconns app" "nconns (app\<lparr>rooms := R\<rparr>) = nconns app"
  by (simp_all add: sessions_def session_of_def nconns_def fun_eq_iff)

section \<open>Sending changes no directory\<close>

lemma SendProto_view [simp]:
  "sessions (SendProto pb cid msg app) = sessions app" "online_users (SendProto pb cid msg app) = online_users app"
  "rooms (SendProto pb cid msg app) = rooms app" "nconns (SendProto pb cid msg app) = nconns app"
  by (simp_all add: SendProto_def Let_def sessions_def session_of_def nconns_def SendPreEncoded_keeps fun_eq_iff)

lemma SendProto_kept [simp]: "conns_kept app (SendProto pb cid msg app)"
  by (simp add: conns_kept_def SendProto_def Let_def nconns_def is_closed_def SendPreEncoded_keeps SendPreEncoded_wf)

lemma BroadcastProto_view [simp]:
  "sessions (BroadcastProto pb msg app) = sessions app" "online_users (BroadcastProto pb msg app) = online_users app"
  "rooms (BroadcastProto pb msg app) = rooms app" "nconns (BroadcastProto pb msg app) = nconns app"
  by (simp_all add: BroadcastProto_def Let_def sessions_def session_of_def nconns_def Broadcast_def conn_at_def fun_eq_iff)

lemma BroadcastProto_kept [simp]: "conns_kept app (BroadcastProto pb msg app)"
proof -
  have "server_wf (Broadcast p fd s) \<longleftrightarrow> server_wf s" for p fd and s :: "chat_session web_server"
    by (rule server_wf_cong) (simp_all add: Broadcast_def)
  then show ?thesis
    by (simp add: conns_kept_def BroadcastProto_def Let_def nconns_def is_closed_def)
      (simp add: Broadcast_def conn_at_def)
qed

lemma send_member_view [simp]:
  "sessions (send_member pb msg m app) = sessions app" "online_users (send_member pb msg m app) = online_users app"
  "rooms (send_member pb msg m app) = rooms app" "nconns (send_member pb msg m app) = nconns app"
  "conns_kept app (send_member pb msg m app)"
  by (simp_all add: send_member_def split: option.split)

lemma send_members_view [simp]:
  "sessions (send_members pb msg ms app) = sessions app" "online_users (send_members pb msg ms app) = online_users app"
  "rooms (send_members pb msg ms app) = rooms app" "nconns (send_members pb msg ms app) = nconns app"
  unfolding send_members_def by (induction ms arbitrary: app) simp_all

lemma send_members_kept [simp]: "conns_kept app (send_members pb msg ms app)"
  unfolding send_members_def
  by (induction ms arbitrary: app) (auto intro: conns_kept_trans send_member_view(5))

lemma set_session_op: "conn_op (\<lambda>m c. (m, c\<lparr>user_data := u\<rparr>))"
  by (auto simp: conn_op_def conn_keeps_def conn_wf_def queue_wf_def interest_defs)

lemma set_session_view [simp]:
  "online_users (set_session cid s app) = online_users app" "rooms (set_session cid s app) = rooms app"
  "nconns (set_session cid s app) = nconns app"
  "cid < nconns app \<Longrightarrow> sessions (set_session cid s app) = (sessions app)(cid \<mapsto> s)"
  by (auto simp: set_session_def nconns_def sessions_def session_of_def upd_conn_at fun_eq_iff)

lemma set_session_kept [simp]: "conns_kept app (set_session cid s app)"
  by (simp add: conns_kept_def set_session_def nconns_def is_closed_def upd_conn_at upd_conn_wf set_session_op)

lemma room_change_view [simp]:
  "sessions (room_erase r n app) = sessions app" "sessions (room_insert r n app) = sessions app"
  "nconns (room_erase r n app) = nconns app" "nconns (room_insert r n app) = nconns app"
  "online_users (room_erase r n app) = online_users app" "online_users (room_insert r n app) = online_users app"
  "rooms (room_insert r n app) = add_member r n (rooms app)"
  "conns_kept app (room_erase r n app)" "conns_kept app (room_insert r n app)"
  by (simp_all add: room_erase_def room_insert_def add_member_def Let_def)

lemma leave_room_view [simp]:
  "sessions (leave_room pb r n notice app) = sessions app" "nconns (leave_room pb r n notice app) = nconns app"
  "online_users (leave_room pb r n notice app) = online_users app"
  "rooms (leave_room pb r n notice app) = drop_member r n (rooms app)"
  "conns_kept app (leave_room pb r n notice app)"
proof -
  let ?ms = "removeAll n (room_ref r (rooms app))" and ?app1 = "room_erase r n app"
  let ?app2 = "send_members pb (ChatBroadcast ''Server'' notice r 0) ?ms ?app1"
  have eq: "leave_room pb r n notice app = (if ?ms = [] then ?app2\<lparr>rooms := (rooms ?app2)(r := None)\<rparr> else ?app2)"
    by (simp add: leave_room_def Let_def room_erase_def)
  have kept: "conns_kept app (send_members pb m ms ?app1)" for m ms by (rule conns_kept_trans[OF room_change_view(8) send_members_kept])
  show "sessions (leave_room pb r n notice app) = sessions app" "nconns (leave_room pb r n notice app) = nconns app"
    "online_users (leave_room pb r n notice app) = online_users app" "conns_kept app (leave_room pb r n notice app)"
    unfolding eq using kept by (simp_all split: if_split)
  show "rooms (leave_room pb r n notice app) = drop_member r n (rooms app)"
    by (auto simp: eq drop_member_def Let_def room_erase_def fun_upd_idem_iff)
qed

section \<open>The handlers\<close>

lemma HandleConnect_view:
  "cid < nconns app \<Longrightarrow> sessions (HandleConnect now cid app) = (sessions app)(cid \<mapsto> new_session now)"
  "online_users (HandleConnect now cid app) = online_users app" "rooms (HandleConnect now cid app) = rooms app"
  "conns_kept app (HandleConnect now cid app)"
  by (simp_all add: HandleConnect_def)

lemma HandleDisconnect_view:
  assumes "cid < nconns app"
  shows "sessions (HandleDisconnect pb cid app) = sessions app" "conns_kept app (HandleDisconnect pb cid app)"
    and "sessions app cid = None \<or> sessions app cid = Some s \<and> (\<not> is_logged_in s \<or> username s = '''') \<Longrightarrow>
      HandleDisconnect pb cid app = app"
    and "sessions app cid = Some s \<Longrightarrow> is_logged_in s \<Longrightarrow> username s \<noteq> '''' \<Longrightarrow>
      online_users (HandleDisconnect pb cid app) = (online_users app)(username s := None) \<and>
      rooms (HandleDisconnect pb cid app) =
        (if current_room s \<noteq> '''' then drop_member (current_room s) (username s) (rooms app) else rooms app)"
proof -
  have kept: "conns_kept app (leave_room pb r n x (app\<lparr>online_users := W\<rparr>))" for r n x W
    by (rule conns_kept_fromI(1), rule leave_room_view(5))
  show "sessions (HandleDisconnect pb cid app) = sessions app" "conns_kept app (HandleDisconnect pb cid app)"
    using kept by (auto simp: HandleDisconnect_def Let_def split: option.split)
qed (use assms in \<open>auto simp: HandleDisconnect_def Let_def sessions_def split: option.split\<close>)

lemma HandleLogin_view:
  assumes "cid < nconns app"
  shows "conns_kept app (HandleLogin pb cid s name app)" "rooms (HandleLogin pb cid s name app) = rooms app"
    and "online_users app name \<noteq> None \<or> name = '''' \<Longrightarrow>
      sessions (HandleLogin pb cid s name app) = sessions app \<and> online_users (HandleLogin pb cid s name app) = online_users app"
    and "online_users app name = None \<Longrightarrow> name \<noteq> '''' \<Longrightarrow>
      sessions (HandleLogin pb cid s name app) = (sessions app)(cid \<mapsto> s\<lparr>username := name, is_logged_in := True\<rparr>) \<and>
      online_users (HandleLogin pb cid s name app) = (online_users app)(name \<mapsto> cid)"
proof -
  let ?app = "set_session cid (s\<lparr>username := name, is_logged_in := True\<rparr>) app"
  have "conns_kept app (SendProto pb cid m (?app\<lparr>online_users := W\<rparr>))" for m W
    by (rule conns_kept_trans[of _ "?app\<lparr>online_users := W\<rparr>"]) simp_all
  then show "conns_kept app (HandleLogin pb cid s name app)" by (simp add: HandleLogin_def Let_def)
qed (use assms in \<open>auto simp: HandleLogin_def Let_def\<close>)

lemma HandleJoinRoom_view:
  assumes "cid < nconns app"
  shows "conns_kept app (HandleJoinRoom pb cid s new app)"
    and "online_users (HandleJoinRoom pb cid s new app) = online_users app"
    and "\<not> is_logged_in s \<Longrightarrow> HandleJoinRoom pb cid s new app = app"
    and "is_logged_in s \<Longrightarrow> sessions (HandleJoinRoom pb cid s new app) = (sessions app)(cid \<mapsto> s\<lparr>current_room := new\<rparr>)"
    and "is_logged_in s \<Longrightarrow> rooms (HandleJoinRoom pb cid s new app) =
      (let rs1 = (if current_room s \<noteq> '''' then drop_member (current_room s) (username s) (rooms app) else rooms app)
       in if new \<noteq> '''' then add_member new (username s) rs1 else rs1)"
proof -
  define app1 where "app1 = (if current_room s \<noteq> ''''
    then leave_room pb (current_room s) (username s) (username s @ '' has left the room.'') app else app)"
  define app2 where "app2 = set_session cid (s\<lparr>current_room := new\<rparr>) app1"
  define app3 where "app3 = (if new \<noteq> '''' then
      send_members pb (ChatBroadcast ''Server'' (username s @ '' has joined the room. '') new 0)
        (filter (\<lambda>member. member \<noteq> username s) (room_ref new (rooms (room_insert new (username s) app2))))
        (room_insert new (username s) app2) else app2)"
  have eq: "HandleJoinRoom pb cid s new app = SendProto pb cid
      (if new = '''' then ChatBroadcast ''Server'' ''You have entered the global room!'' '''' 0
       else ChatBroadcast ''Server'' (''You have joined room: '' @ new @ '' !!'') new 0) app3" if "is_logged_in s"
    using that by (simp add: HandleJoinRoom_def Let_def app1_def app2_def app3_def)
  have v: "nconns app1 = nconns app" "sessions app1 = sessions app" "online_users app1 = online_users app"
    "rooms app1 = (if current_room s \<noteq> '''' then drop_member (current_room s) (username s) (rooms app) else rooms app)"
    by (simp_all add: app1_def)
  have k1: "conns_kept app app1" by (simp add: app1_def)
  have k2: "conns_kept app app2" unfolding app2_def using k1 set_session_kept by (rule conns_kept_trans)
  have "conns_kept app2 app3" unfolding app3_def
    by (simp del: send_members_kept) (auto intro: conns_kept_trans[OF room_change_view(9) send_members_kept])
  then have k3: "conns_kept app app3" using k2 conns_kept_trans by blast
  then show "conns_kept app (HandleJoinRoom pb cid s new app)"
  proof (cases "is_logged_in s")
    case True
    show ?thesis unfolding eq[OF True] by (rule conns_kept_trans[OF k3 SendProto_kept])
  qed (simp add: HandleJoinRoom_def)
  show "\<not> is_logged_in s \<Longrightarrow> HandleJoinRoom pb cid s new app = app" by (simp add: HandleJoinRoom_def)
  show "online_users (HandleJoinRoom pb cid s new app) = online_users app"
  proof (cases "is_logged_in s")
    case True
    then show ?thesis by (simp add: eq app3_def app2_def v(3))
  qed (simp add: HandleJoinRoom_def)
  show "is_logged_in s \<Longrightarrow> sessions (HandleJoinRoom pb cid s new app) = (sessions app)(cid \<mapsto> s\<lparr>current_room := new\<rparr>)"
    using assms v(1,2) by (simp add: eq app3_def app2_def)
  show "is_logged_in s \<Longrightarrow> rooms (HandleJoinRoom pb cid s new app) =
      (let rs1 = (if current_room s \<noteq> '''' then drop_member (current_room s) (username s) (rooms app) else rooms app)
       in if new \<noteq> '''' then add_member new (username s) rs1 else rs1)"
    using v(4) by (simp add: eq app3_def app2_def Let_def)
qed

lemma HandleGlobalChat_view:
  "sessions (HandleGlobalChat pb time s text app) = sessions app" "rooms (HandleGlobalChat pb time s text app) = rooms app"
  "online_users (HandleGlobalChat pb time s text app) = online_users app" "conns_kept app (HandleGlobalChat pb time s text app)"
  by (simp_all add: HandleGlobalChat_def)

lemma HandlePrivateChat_view:
  "sessions (HandlePrivateChat pb time cid s target text app) = sessions app"
  "rooms (HandlePrivateChat pb time cid s target text app) = rooms app"
  "online_users (HandlePrivateChat pb time cid s target text app) = online_users app"
  "conns_kept app (HandlePrivateChat pb time cid s target text app)"
  by (auto simp: HandlePrivateChat_def Let_def intro: conns_kept_trans[OF SendProto_kept SendProto_kept] split: option.split)

lemma HandleRoomChat_view:
  assumes "rooms app (current_room s) \<noteq> None \<or> current_room s = ''''"
  shows "sessions (HandleRoomChat pb cid s r text app) = sessions app" "rooms (HandleRoomChat pb cid s r text app) = rooms app"
    "online_users (HandleRoomChat pb cid s r text app) = online_users app" "conns_kept app (HandleRoomChat pb cid s r text app)"
proof -
  have idem: "(rooms app)(current_room s \<mapsto> room_ref (current_room s) (rooms app)) = rooms app" if "current_room s \<noteq> ''''"
    using assms that by (auto simp: room_ref_def)
  have "conns_kept app (send_members pb m ms (app\<lparr>rooms := R\<rparr>))" for m ms R
    by (rule conns_kept_fromI(2), rule send_members_kept)
  then show "sessions (HandleRoomChat pb cid s r text app) = sessions app" "rooms (HandleRoomChat pb cid s r text app) = rooms app"
    "online_users (HandleRoomChat pb cid s r text app) = online_users app" "conns_kept app (HandleRoomChat pb cid s r text app)"
    using idem by (auto simp: HandleRoomChat_def Let_def)
qed

section \<open>The invariant of the application\<close>

text \<open>A connection is gone when its DISCONNECT has been processed.\<close>

definition gone :: "chat_app \<Rightarrow> conn_id \<Rightarrow> bool" where
  "gone app cid \<longleftrightarrow> is_closed app cid \<and> DISCONNECT \<notin> set (conn_history cid (pending_events app))"

definition live :: "chat_app \<Rightarrow> sessions" where
  "live app cid = (if gone app cid then None else sessions app cid)"

definition chat_wf :: "chat_app \<Rightarrow> bool" where
  "chat_wf app \<longleftrightarrow> server_wf (server app) \<and> (\<exists>h. history_ok (server app) (h @ pending_events app)) \<and>
     directory_wf (live app) (online_users app) (rooms app)"

lemma conns_kept_pending: "conns_kept app app' \<Longrightarrow> pending_events app' = pending_events app"
  by (simp add: conns_kept_def pending_events_def)

lemma conns_kept_gone: "conns_kept app app' \<Longrightarrow> cid < nconns app \<Longrightarrow> gone app' cid \<longleftrightarrow> gone app cid"
  by (simp add: gone_def conns_kept_pending) (simp add: conns_kept_def)

lemma conns_kept_live:
  assumes "conns_kept app app'" "sessions app' = (sessions app)(cid := u)" "cid < nconns app" "\<not> gone app cid"
  shows "live app' = (live app)(cid := u)"
proof
  fix d
  show "live app' d = ((live app)(cid := u)) d"
  proof (cases "d < nconns app")
    case True
    then show ?thesis using assms conns_kept_gone[OF assms(1) True] by (simp add: live_def)
  next
    case False
    then have "sessions app' d = None" "sessions app d = None"
      using assms(1) by (simp_all add: sessions_def conns_kept_def)
    then show ?thesis using False assms(3) by (auto simp: live_def)
  qed
qed

lemma conns_kept_live_same:
  assumes "conns_kept app app'" "sessions app' = sessions app"
  shows "live app' = live app"
proof
  fix d
  show "live app' d = live app d"
    using conns_kept_gone[OF assms(1), of d] assms(2)
    by (cases "d < nconns app") (auto simp: live_def sessions_def)
qed

text \<open>Steps that keep the connections keep the invariant when the directory stays well formed.\<close>

lemma chat_wf_kept:
  assumes "chat_wf app" "conns_kept app app'" "directory_wf (live app') (online_users app') (rooms app')"
  shows "chat_wf app'"
proof -
  have "history_ok (server app') h \<longleftrightarrow> history_ok (server app) h" for h
    using assms(2) by (intro history_same) (auto simp: conns_kept_def nconns_def is_closed_def)
  then show ?thesis using assms conns_kept_pending[OF assms(2)] by (simp add: chat_wf_def) (simp add: conns_kept_def)
qed

lemma chat_directory: "chat_wf app \<Longrightarrow> directory_wf (live app) (online_users app) (rooms app)"
  by (simp add: chat_wf_def)

lemma chat_wf_same:
  assumes "chat_wf app" "conns_kept app app'" "sessions app' = sessions app"
    "online_users app' = online_users app" "rooms app' = rooms app"
  shows "chat_wf app'"
  using assms(1,2) by (rule chat_wf_kept) (use assms chat_directory conns_kept_live_same in simp)

lemma chat_wf_update:
  assumes "chat_wf app" "conns_kept app app'" "sessions app' = (sessions app)(cid := u)"
    "cid < nconns app" "\<not> gone app cid"
    "directory_wf ((live app)(cid := u)) (online_users app') (rooms app')"
  shows "chat_wf app'"
  using assms(1,2) by (rule chat_wf_kept) (use assms(6) conns_kept_live[OF assms(2-5)] in simp)

lemma live_sessions: "\<not> gone app cid \<Longrightarrow> live app cid = sessions app cid"
  by (simp add: live_def)

section \<open>Messages\<close>

lemma HandleLogin_wf [preserves]:
  assumes "chat_wf app" "cid < nconns app" "\<not> gone app cid" "sessions app cid = Some s"
  shows "chat_wf (HandleLogin pb cid s name app)"
proof (cases "online_users app name \<noteq> None \<or> name = ''''")
  case True
  note v = HandleLogin_view(3)[OF assms(2) True, of pb s]
  show ?thesis
    by (rule chat_wf_same[OF assms(1) HandleLogin_view(1)[OF assms(2)] conjunct1[OF v] conjunct2[OF v]
          HandleLogin_view(2)[OF assms(2)]])
next
  case False
  then have n: "online_users app name = None" "name \<noteq> ''''" by auto
  have l: "live app cid = Some s" using assms by (simp add: live_sessions)
  note v = HandleLogin_view(4)[OF assms(2) n, of pb s]
  show ?thesis
    by (rule chat_wf_update[OF assms(1) HandleLogin_view(1)[OF assms(2)] conjunct1[OF v] assms(2,3)])
      (use directory_login[OF chat_directory[OF assms(1)] l n] conjunct2[OF v] HandleLogin_view(2)[OF assms(2)] in simp)
qed

lemma HandleJoinRoom_wf [preserves]:
  assumes "chat_wf app" "cid < nconns app" "\<not> gone app cid" "sessions app cid = Some s"
  shows "chat_wf (HandleJoinRoom pb cid s new app)"
proof (cases "is_logged_in s")
  case False
  then show ?thesis using assms(1) HandleJoinRoom_view(3)[OF assms(2)] by simp
next
  case True
  have l: "live app cid = Some s" using assms by (simp add: live_sessions)
  note v = HandleJoinRoom_view[OF assms(2), where pb = pb and s = s and new = new]
  show ?thesis
    by (rule chat_wf_update[OF assms(1) v(1) v(4)[OF True] assms(2,3)])
      (use directory_join[OF chat_directory[OF assms(1)] l True, of new] in \<open>simp add: v(2) v(5)[OF True] Let_def\<close>)
qed

lemma room_exists:
  assumes "chat_wf app" "\<not> gone app cid" "sessions app cid = Some s" "current_room s \<noteq> ''''"
  shows "rooms app (current_room s) \<noteq> None"
proof -
  have "live app cid = Some s" using assms by (simp add: live_sessions)
  then have "\<exists>m\<in>set (room_ref (current_room s) (rooms app)). online_users app m = Some cid"
    using directoryD(2)[OF chat_directory[OF assms(1)]] assms(4) unfolding in_its_room_def by blast
  then show ?thesis by (cases "rooms app (current_room s)") (auto simp: room_ref_def)
qed

lemma HandleRoomChat_wf [preserves]:
  assumes "chat_wf app" "\<not> gone app cid" "sessions app cid = Some s"
  shows "chat_wf (HandleRoomChat pb cid s r text app)"
proof -
  have "rooms app (current_room s) \<noteq> None \<or> current_room s = ''''" using room_exists[OF assms] by blast
  note v = HandleRoomChat_view[OF this]
  show ?thesis using assms(1) v(4,1,3,2) by (rule chat_wf_same)
qed

lemma HandleGlobalChat_wf [preserves]: "chat_wf app \<Longrightarrow> chat_wf (HandleGlobalChat pb time s text app)"
  by (rule chat_wf_same[OF _ HandleGlobalChat_view(4,1,3,2)])

lemma HandlePrivateChat_wf [preserves]: "chat_wf app \<Longrightarrow> chat_wf (HandlePrivateChat pb time cid s target text app)"
  by (rule chat_wf_same[OF _ HandlePrivateChat_view(4,1,3,2)])

lemma SendProto_wf [preserves]: "chat_wf app \<Longrightarrow> chat_wf (SendProto pb cid msg app)"
  by (rule chat_wf_same) simp_all

text \<open>Only the bookkeeping of a session changes.\<close>

lemma set_session_wf:
  assumes "chat_wf app" "cid < nconns app" "\<not> gone app cid" "sessions app cid = Some s" "same_identity s t"
  shows "chat_wf (set_session cid t app)"
proof -
  have "live app cid = Some s" using assms(3,4) by (simp add: live_sessions)
  from directory_refresh[OF chat_directory[OF assms(1)] this assms(5)]
  have "directory_wf ((live app)(cid \<mapsto> t)) (online_users app) (rooms app)" .
  then show ?thesis
    using chat_wf_update[OF assms(1) set_session_kept _ assms(2,3), where u = "Some t"] assms(2) by simp
qed

text \<open>Closing keeps the session until its DISCONNECT is processed.\<close>

lemma Close_wf [preserves]:
  assumes "chat_wf app" "cid < nconns app" "\<not> is_closed app cid"
  shows "chat_wf (app\<lparr>server := Close cid (server app)\<rparr>)"
proof -
  let ?app = "app\<lparr>server := Close cid (server app)\<rparr>"
  have len: "cid < length (store (server app))" using assms(2) by (simp add: nconns_def)
  have op: "\<not> closed (conn_at (server app) cid)" using assms(3) by (simp add: is_closed_def)
  have em: "emits (server app) [disconnect_event cid] (Close cid (server app))"
    using emits_close[OF len] op by (simp add: Close_def)
  have swf: "server_wf (server ?app)" using assms(1) len by (simp add: chat_wf_def Close_def close_conn_wf)
  have q: "pending_events ?app = pending_events app @ [disconnect_event cid]"
    using em by (simp add: emits_def pending_events_def)
  have hist: "\<exists>h. history_ok (server ?app) (h @ pending_events ?app)"
  proof -
    obtain h where "history_ok (server app) (h @ pending_events app)" using assms(1) by (auto simp: chat_wf_def)
    moreover have "\<forall>k. history_ok (server app) k \<longrightarrow> history_ok (Close cid (server app)) (k @ [disconnect_event cid])"
      using em by (simp add: emits_def)
    ultimately have "history_ok (Close cid (server app)) ((h @ pending_events app) @ [disconnect_event cid])" by blast
    then show ?thesis unfolding q by auto
  qed
  have "gone ?app d \<longleftrightarrow> gone app d" for d
    using close_conn_at[OF len, of d] op unfolding gone_def q by (auto simp: is_closed_def Close_def)
  moreover have "sessions ?app d = sessions app d" for d
    using close_conn_at[OF len, of d] by (simp add: sessions_def session_of_def nconns_def Close_def)
  ultimately have "live ?app d = live app d" for d unfolding live_def by metis
  then have "live ?app = live app" by blast
  moreover have "directory_wf (live app) (online_users ?app) (rooms ?app)" using chat_directory[OF assms(1)] by simp
  ultimately show ?thesis using swf hist unfolding chat_wf_def by metis
qed

lemma same_identity_simps [simp]:
  "same_identity s (refill fl now s)" "same_identity s (t\<lparr>tokens := x\<rparr>) \<longleftrightarrow> same_identity s t"
  by (simp_all add: same_identity_def refill_def Let_def)

text \<open>What a message does once it has been parsed and paid for.\<close>

definition dispatch ::
  "protobuf \<Rightarrow> u64 \<Rightarrow> conn_id \<Rightarrow> chat_session \<Rightarrow> client_message \<Rightarrow> chat_app \<Rightarrow> chat_app" where
  "dispatch pb time cid s msg app = (case msg of
      LoginRequest name \<Rightarrow> HandleLogin pb cid s name app
    | ChatRequest text \<Rightarrow> HandleGlobalChat pb time s text app
    | PrivateChatRequest target text \<Rightarrow> HandlePrivateChat pb time cid s target text app
    | JoinRoomRequest room \<Rightarrow> HandleJoinRoom pb cid s room app
    | RoomChatRequest room text \<Rightarrow> HandleRoomChat pb cid s room text app
    | PayloadNotSet \<Rightarrow> app)"

lemma HandleMessage_cases:
  assumes "session_of cid app = Some s0"
  obtains (unparsed) "par pb raw = None" "HandleMessage fl pb now time cid raw app = app"
  | (too_fast) msg where "par pb raw = Some msg" "tokens (refill fl now s0) < 1"
      "HandleMessage fl pb now time cid raw app =
       (let app1 = SendProto pb cid (ErrorResponse RATE_NOTICE) (set_session cid (refill fl now s0) app)
        in app1\<lparr>server := Close cid (server app1)\<rparr>)"
  | (handled) msg s where "par pb raw = Some msg" "1 \<le> tokens (refill fl now s0)"
      "s = (refill fl now s0)\<lparr>tokens := fl (tokens (refill fl now s0) - 1)\<rparr>"
      "HandleMessage fl pb now time cid raw app = dispatch pb time cid s msg (set_session cid s app)"
proof (cases "par pb raw")
  case None
  show ?thesis by (rule unparsed) (use None assms in \<open>simp_all add: HandleMessage_def pb_decode_data_def\<close>)
next
  case (Some msg)
  show ?thesis
  proof (cases "tokens (refill fl now s0) < 1")
    case True
    show ?thesis
      by (rule too_fast) (use Some assms True in \<open>simp_all add: HandleMessage_def pb_decode_data_def Let_def\<close>)
  next
    case False
    show ?thesis
      by (rule handled) (use Some assms False in
        \<open>simp_all add: HandleMessage_def pb_decode_data_def Let_def dispatch_def split: client_message.split\<close>)
  qed
qed

lemma HandleMessage_wf [preserves]:
  assumes "chat_wf app" "cid < nconns app" "\<not> is_closed app cid"
  shows "chat_wf (HandleMessage fl pb now time cid raw app)"
proof (cases "session_of cid app")
  case None
  then show ?thesis using assms(1) by (simp add: HandleMessage_def)
next
  case (Some s0)
  have ng: "\<not> gone app cid" using assms(3) by (simp add: gone_def)
  have sess: "sessions app cid = Some s0" using Some assms(2) by (simp add: sessions_def)
  have w: "chat_wf (set_session cid t app)" if "same_identity s0 t" for t
    using set_session_wf[OF assms(1,2) ng sess that] .
  have open_t: "\<not> is_closed (set_session cid t app) cid" for t
    using set_session_kept[of app cid t] assms(2,3) by (simp add: conns_kept_def del: set_session_kept)
  show ?thesis
    using Some
  proof (cases rule: HandleMessage_cases[where fl = fl and pb = pb and now = now and time = time and raw = raw])
    case unparsed
    then show ?thesis using assms(1) by simp
  next
    case too_fast
    let ?app = "set_session cid (refill fl now s0) app" and ?m = "ErrorResponse RATE_NOTICE"
    have "chat_wf (SendProto pb cid ?m ?app)" using w by (intro SendProto_wf) simp
    moreover have "\<not> is_closed (SendProto pb cid ?m ?app) cid"
      using SendProto_kept[of ?app pb cid ?m] open_t assms(2) by (simp add: conns_kept_def del: SendProto_kept)
    ultimately show ?thesis unfolding too_fast(3) Let_def using assms(2) by (intro Close_wf) simp_all
  next
    case (handled msg s)
    let ?app = "set_session cid s app"
    have "\<not> gone ?app cid" using open_t[of s] by (simp add: gone_def)
    then have h: "chat_wf ?app" "cid < nconns ?app" "\<not> gone ?app cid" "sessions ?app cid = Some s"
      using w[of s] assms(2) handled(3) by simp_all
    then show ?thesis unfolding handled(4) dispatch_def
      using HandleLogin_wf[OF h] HandleJoinRoom_wf[OF h] HandleRoomChat_wf[OF h(1,3,4)]
        HandleGlobalChat_wf[OF h(1)] HandlePrivateChat_wf[OF h(1)]
      by (simp split: client_message.split)
  qed
qed

section \<open>One round of the logic thread\<close>

lemma directory_drop:
  assumes "directory_wf L online rs"
  shows "directory_wf (L(cid := None)) online rs"
proof (rule directory_wfI)
  fix d s assume "(L(cid := None)) d = Some s"
  then have "L d = Some s" by (simp split: if_splits)
  then show "owns_name online d s \<and> in_its_room online rs d s" using directoryD(1,2)[OF assms] by blast
qed (use directoryD(3,4)[OF assms] in blast)

text \<open>Taking the next event off the queue.\<close>

definition pop_event :: "network_event safe_queue \<Rightarrow> chat_app \<Rightarrow> chat_app" where
  "pop_event q app = app\<lparr>server := (server app)\<lparr>event_queue := q\<rparr>\<rparr>"

lemma pop_event_view:
  "sessions (pop_event q app) = sessions app" "nconns (pop_event q app) = nconns app"
  "online_users (pop_event q app) = online_users app" "rooms (pop_event q app) = rooms app"
  "is_closed (pop_event q app) cid = is_closed app cid" "pending_events (pop_event q app) = queue q"
  "server_wf (server (pop_event q app)) \<longleftrightarrow> server_wf (server app)"
proof -
  have at: "conn_at (server (pop_event q app)) c = conn_at (server app) c" for c
    by (simp add: pop_event_def conn_at_def)
  show "nconns (pop_event q app) = nconns app" by (simp add: pop_event_def nconns_def)
  then show "sessions (pop_event q app) = sessions app" by (simp add: sessions_def session_of_def at fun_eq_iff)
  show "online_users (pop_event q app) = online_users app" "rooms (pop_event q app) = rooms app"
    "pending_events (pop_event q app) = queue q" by (simp_all add: pop_event_def pending_events_def)
  show "is_closed (pop_event q app) cid = is_closed app cid" by (simp add: is_closed_def at)
  show "server_wf (server (pop_event q app)) \<longleftrightarrow> server_wf (server app)"
    by (rule server_wf_cong) (simp_all add: pop_event_def)
qed

lemma history_pop: "history_ok (server (pop_event q app)) h \<longleftrightarrow> history_ok (server app) h"
  by (rule history_same) (simp_all add: pop_event_def conn_at_def)

text \<open>Which connection the event is of, and what is left for it in the queue.\<close>

lemma history_head:
  assumes "history_ok s (h @ e # q)"
  shows "ev_conn e < length (store s)"
    and "ev_type e = DISCONNECT \<Longrightarrow> closed (conn_at s (ev_conn e)) \<and> DISCONNECT \<notin> set (conn_history (ev_conn e) q)"
proof -
  let ?xs = "conn_history (ev_conn e) h" and ?ys = "conn_history (ev_conn e) q"
  have "lifecycle s (ev_conn e) (conn_history (ev_conn e) (h @ e # q))"
    using assms unfolding history_ok_def by blast
  then have l: "lifecycle s (ev_conn e) (?xs @ ev_type e # ?ys)" by simp
  then show len: "ev_conn e < length (store s)" by (cases "ev_conn e < length (store s)") (simp_all add: lifecycle_def)
  assume d: "ev_type e = DISCONNECT"
  obtain n where n: "?xs @ DISCONNECT # ?ys =
      CONNECT # replicate n MESSAGE @ (if closed (conn_at s (ev_conn e)) then [DISCONNECT] else [])"
    using l len d by (auto simp: lifecycle_def)
  have c0: "count_list (CONNECT # replicate n MESSAGE) DISCONNECT = 0" by (induction n) simp_all
  have "count_list (?xs @ DISCONNECT # ?ys) DISCONNECT =
      count_list ((CONNECT # replicate n MESSAGE) @ (if closed (conn_at s (ev_conn e)) then [DISCONNECT] else [])) DISCONNECT"
    using n by simp
  also have "\<dots> = (if closed (conn_at s (ev_conn e)) then 1 else 0)"
    unfolding count_list_append c0 by simp
  finally show "closed (conn_at s (ev_conn e)) \<and> DISCONNECT \<notin> set ?ys"
    by (simp add: count_list_append count_list_0_iff split: if_splits)
qed

lemma HandleDisconnect_wf:
  assumes wf: "server_wf (server app)" "history_ok (server app) (h @ pending_events app)"
    and dir: "directory_wf L (online_users app) (rooms app)" "L cid = sessions app cid" "cid < nconns app"
    and rest: "\<And>d. d \<noteq> cid \<Longrightarrow> live app d = L d" and g: "gone app cid"
  shows "chat_wf (HandleDisconnect pb cid app)"
proof -
  let ?app = "HandleDisconnect pb cid app"
  note v = HandleDisconnect_view[OF dir(3), where pb = pb]
  have lv: "live ?app = L(cid := None)"
  proof
    fix d show "live ?app d = (L(cid := None)) d"
      using conns_kept_live_same[OF v(2,1)] rest[of d] g by (auto simp: live_def)
  qed
  have "directory_wf (L(cid := None)) (online_users ?app) (rooms ?app)"
  proof (cases "\<exists>s. sessions app cid = Some s \<and> is_logged_in s \<and> username s \<noteq> ''''")
    case True
    then obtain s where s: "sessions app cid = Some s" "is_logged_in s" "username s \<noteq> ''''" by blast
    have "L cid = Some s" using dir(2) s(1) by simp
    from directory_leave[OF dir(1) this s(2)] show ?thesis using v(4)[OF s] by simp
  next
    case False
    have "?app = app" by (cases "sessions app cid") (use False v(3) in auto)
    then show ?thesis using directory_drop[OF dir(1)] by simp
  qed
  moreover have "history_ok (server ?app) k \<longleftrightarrow> history_ok (server app) k" for k
    using v(2) by (intro history_same) (auto simp: conns_kept_def nconns_def is_closed_def)
  moreover have "server_wf (server ?app)" using v(2) wf(1) by (simp add: conns_kept_def)
  ultimately show ?thesis using wf(2) conns_kept_pending[OF v(2)] lv by (auto simp: chat_wf_def)
qed

lemma logic_round_wf [preserves]:
  assumes "chat_wf app"
  shows "chat_wf (logic_round fl pb now time app)"
proof (cases "pending_events app")
  case Nil
  then have "logic_round fl pb now time app = app"
    by (simp add: logic_round_def pending_events_def sq_pop_def)
  then show ?thesis using assms by simp
next
  case (Cons e q)
  let ?q = "(event_queue (server app))\<lparr>queue := q\<rparr>" and ?cid = "ev_conn e"
  let ?app = "pop_event ?q app"
  have eq: "logic_round fl pb now time app = ProcessEvent fl pb now time e ?app"
    using Cons by (simp add: logic_round_def pending_events_def sq_pop_def pop_event_def)
  obtain h where h: "history_ok (server app) (h @ e # q)" using assms Cons by (auto simp: chat_wf_def)
  note head = history_head[OF h]
  have pend: "pending_events ?app = q" by (simp add: pop_event_view)
  have hist: "history_ok (server ?app) ((h @ [e]) @ pending_events ?app)" using h by (simp add: history_pop pend)
  have swf: "server_wf (server ?app)" using assms by (simp add: pop_event_view chat_wf_def)
  have "nconns ?app = nconns app" by (rule pop_event_view(2))
  then have len: "?cid < nconns ?app" using head(1) by (simp add: nconns_def[of app])
  note dir = chat_directory[OF assms]
  have gone_other: "gone ?app d \<longleftrightarrow> gone app d" if "d \<noteq> ?cid \<or> ev_type e \<noteq> DISCONNECT" for d
    using that by (auto simp: gone_def pop_event_view Cons)
  have lv: "live ?app d = live app d" if "d \<noteq> ?cid \<or> ev_type e \<noteq> DISCONNECT" for d
    using gone_other[OF that] by (simp add: live_def pop_event_view)
  have cl: "closed (conn_at (server ?app) ?cid) \<longleftrightarrow> is_closed ?app ?cid" by (simp add: is_closed_def)
  show ?thesis
  proof (cases "ev_type e = DISCONNECT")
    case True
    have "\<not> gone app ?cid" using True Cons by (auto simp: gone_def)
    then have L: "live app ?cid = sessions ?app ?cid" by (simp add: live_sessions pop_event_view)
    have g: "gone ?app ?cid" using head(2)[OF True]
      by (simp add: gone_def pend pop_event_view(5)) (simp add: is_closed_def)
    have d: "directory_wf (live app) (online_users ?app) (rooms ?app)" using dir by (simp add: pop_event_view)
    have "chat_wf (HandleDisconnect pb ?cid ?app)"
      by (rule HandleDisconnect_wf[OF swf hist d L len _ g]) (use lv in blast)
    then show ?thesis using True by (simp add: eq ProcessEvent_def)
  next
    case False
    have "live ?app = live app" using lv False by auto
    then have "directory_wf (live ?app) (online_users ?app) (rooms ?app)" using dir by (simp add: pop_event_view(3,4))
    then have w: "chat_wf ?app" using swf hist unfolding chat_wf_def by blast
    show ?thesis
    proof (cases "is_closed ?app ?cid")
      case True
      then show ?thesis using w False cl by (simp add: eq ProcessEvent_def)
    next
      case op: False
      have ng: "\<not> gone ?app ?cid" using op by (simp add: gone_def)
      have "chat_wf (HandleConnect now ?cid ?app)"
        by (rule chat_wf_update[OF w HandleConnect_view(4) HandleConnect_view(1)[OF len] len ng])
          (use directory_connect[OF chat_directory[OF w]] in \<open>simp add: HandleConnect_view\<close>)
      then show ?thesis
        using w op cl False HandleMessage_wf[OF w len op]
        by (cases "ev_type e") (auto simp: eq ProcessEvent_def split: option.split)
    qed
  qed
qed

end
