(* ===== verification/SessionFrame.thy ===== *)
theory SessionFrame
  imports ChatInvariant
begin

text \<open>
  The reactor and the workers never touch the \<open>user_data\<close> of a connection: it belongs to
  the logic thread. With the event discipline of \<open>Lifecycle\<close> this makes every step of
  theirs preserve the invariant of the application.
\<close>

section \<open>Sessions are left alone\<close>

definition keeps_data :: "'u web_server \<Rightarrow> 'u web_server \<Rightarrow> bool" where
  "keeps_data s s' \<longleftrightarrow> length (store s) \<le> length (store s') \<and>
     (\<forall>cid<length (store s'). user_data (conn_at s' cid) =
        (if cid < length (store s) then user_data (conn_at s cid) else None))"

lemma keeps_data_refl [simp]: "keeps_data s s"
  by (simp add: keeps_data_def)

lemma keeps_data_trans: "keeps_data s s1 \<Longrightarrow> keeps_data s1 s2 \<Longrightarrow> keeps_data s s2"
  unfolding keeps_data_def by (intro conjI allI impI) (auto split: if_splits)

lemma keeps_data_fold:
  assumes "\<And>x s. x \<in> set xs \<Longrightarrow> keeps_data s (f x s)"
  shows "keeps_data s (fold f xs s)"
  using assms by (induction xs arbitrary: s) (auto intro: keeps_data_trans)

lemma keeps_dataI:
  assumes "length (store s') = length (store s)"
    and "\<And>cid. cid < length (store s) \<Longrightarrow> user_data (conn_at s' cid) = user_data (conn_at s cid)"
  shows "keeps_data s s'"
  using assms by (simp add: keeps_data_def)

lemma keeps_data_store: "store s' = store s \<Longrightarrow> keeps_data s s'"
  by (rule keeps_dataI) (simp_all add: conn_at_def)

lemma keeps_data_upd:
  assumes "\<And>m c. user_data (snd (f m c)) = user_data c"
  shows "keeps_data s (upd_conn cid f s)"
  by (rule keeps_dataI) (simp_all add: upd_conn_at assms)

lemma sends_data:
  assumes "\<And>m c. \<exists>bs. sends bs m c (fst (f m c)) (snd (f m c))"
  shows "user_data (snd (f m c)) = user_data c"
  using assms[of m c] by (auto simp: sends_def send_frame_def)

lemma conn_ops_data:
  "user_data (snd (flush_conn lk m c)) = user_data c"
  "user_data (snd (deliver_conn evts m c)) = user_data c"
  by (rule sends_data, metis prod.collapse flush_conn_sends deliver_conn_sends)+

lemma keeps_data_close: "cid < length (store s) \<Longrightarrow> keeps_data s (close_conn cid s)"
  by (rule keeps_dataI) (auto simp: close_conn_at shut_down_def)

lemma keeps_data_accept: "keeps_data s (accept_loop now accepted s)"
proof (induction now accepted s rule: accept_loop.induct)
  case (2 now fd k accepted s)
  have "keeps_data s (accept_one now fd k s)"
    by (auto simp: keeps_data_def accept_one_fields conn_at_def nth_append)
  then show ?case using 2 keeps_data_trans by simp
qed simp

lemma keeps_data_result:
  assumes "cid < length (store s)" "user_data c = user_data (conn_at s cid)"
  shows "keeps_data s (conn_result cl es m c cid s)"
proof -
  let ?s = "fold push_event es (s\<lparr>metrics := m, store := (store s)[cid := c]\<rparr>)"
  have "keeps_data s ?s"
    using assms by (intro keeps_dataI) (auto simp: conn_at_def nth_list_update)
  moreover have "keeps_data ?s (close_conn cid ?s)" using assms(1) by (intro keeps_data_close) simp
  ultimately have "keeps_data s ?s" "keeps_data s (close_conn cid ?s)" using keeps_data_trans by blast+
  then show ?thesis unfolding conn_result_def Let_def by (cases cl) simp_all
qed

lemma keeps_data_write:
  assumes "cid < length (store s)"
  shows "keeps_data s (handle_write cid s)"
proof -
  obtain cl m c where r: "handle_write_conn (metrics s) (conn_at s cid) = (cl, m, c)"
    by (metis prod_cases3)
  show ?thesis unfolding handle_write_result[OF r]
    using handle_write_conn_spec[OF r] assms by (intro keeps_data_result) (auto simp: send_frame_def)
qed

lemma keeps_data_read:
  assumes "server_wf s" "cid < length (store s)"
  shows "keeps_data s (handle_read now cid s)"
proof -
  obtain cl msgs m c where r: "read_loop now (metrics s) (conn_at s cid) = (cl, msgs, m, c)"
    by (metis prod_cases4)
  have "rb_wf (in_buf (conn_at s cid))" using assms by (simp add: server_wf_def conns_wf_def conn_wf_def)
  then show ?thesis unfolding handle_read_result[OF r]
    using read_loop_spec[OF r] assms(2) by (intro keeps_data_result) (auto simp: read_frame_def)
qed

lemma keeps_data_timer:
  assumes "server_wf s"
  shows "keeps_data s (handle_timer_fd w s)"
proof -
  let ?s1 = "flush_all_queues (\<lambda>cid. cid \<in> set (w_locks w)) s"
  define s2 where "s2 = ?s1\<lparr>stats_timer_accumulator := stats_timer_accumulator ?s1 + w_expirations w,
    ticks := ticks ?s1 + w_expirations w\<rparr>"
  have eq: "handle_timer_fd w s = (if stats_timer_accumulator s2 \<ge> 6000
      then (check_timeouts (w_now w) s2)\<lparr>stats_timer_accumulator := 0\<rparr> else s2)"
    by (simp only: handle_timer_fd_def s2_def Let_def)
  have "keeps_data s ?s1"
    unfolding flush_all_queues_def flush_shard_def Let_def
    by (rule keeps_data_fold, rule keeps_data_fold, rule keeps_data_upd) (rule conn_ops_data)
  moreover have "keeps_data ?s1 s2" by (rule keeps_data_store) (simp add: s2_def)
  ultimately have k: "keeps_data s s2" by (rule keeps_data_trans)
  have w: "server_wf s2"
    using flush_all_queues_wf[OF assms] by (rule server_wf_cong[THEN iffD2, rotated 3]) (simp_all add: s2_def)
  have "keeps_data s2 (check_timeouts (w_now w) s2)"
    using check_timeouts_spec[OF w, of "w_now w"] by (intro keeps_dataI) (auto simp: shut_down_def)
  moreover have "keeps_data (check_timeouts (w_now w) s2) ((check_timeouts (w_now w) s2)\<lparr>stats_timer_accumulator := 0\<rparr>)"
    by (rule keeps_data_store) simp
  ultimately have "keeps_data s ((check_timeouts (w_now w) s2)\<lparr>stats_timer_accumulator := 0\<rparr>)"
    using k keeps_data_trans by blast
  with k show ?thesis unfolding eq by simp
qed

lemma keeps_data_conn_event:
  assumes "server_wf s" "clock_ok (w_now w) s"
  shows "keeps_data s (handle_conn_event w s)"
proof (cases "map_of (connections (shards s ! get_shard_idx s (w_fd w))) (w_fd w)")
  case None
  then show ?thesis by (simp add: handle_conn_event_def)
next
  case (Some cid)
  note t = server_wfD(1)[OF assms(1)]
  note cid = tables_lookup[OF t get_shard_idx_less[OF t] Some]
  define r where "r = (if has_event (w_events w) EPOLLIN then handle_read (w_now w) cid s else s)"
  have "keeps_data s r" using keeps_data_read[OF assms(1) cid(1)] by (simp add: r_def)
  moreover have "keeps_data r (handle_write cid r)"
    by (rule keeps_data_write) (use cid(1) in \<open>simp add: handle_read_at r_def\<close>)
  ultimately have "keeps_data s r" "keeps_data s (handle_write cid r)" by (blast intro: keeps_data_trans)+
  moreover have "handle_conn_event w s = (if has_event (w_events w) (EPOLLERR OR EPOLLHUP) then close_conn cid s
      else if has_event (w_events w) EPOLLOUT then handle_write cid r else r)"
    by (simp only: handle_conn_event_def Some option.case Let_def r_def)
  ultimately show ?thesis using keeps_data_close[OF cid(1)] by simp
qed

lemma keeps_data_wakeup:
  assumes "server_wf s" "wakeup_ok w s"
  shows "keeps_data s (handle_wakeup w s)"
  using assms keeps_data_timer keeps_data_accept keeps_data_conn_event keeps_data_store[of _ s]
  by (auto simp: handle_wakeup_def wakeup_ok_def split: fd_role.split)

lemma keeps_data_answers: "keeps_data s (fold kernel_answers as s)"
proof (rule keeps_data_fold)
  fix a s show "keeps_data s (kernel_answers a s)"
    unfolding kernel_answers_def by (cases a) (simp add: keeps_data_upd)
qed

lemma keeps_data_deliver: "keeps_data s (task_deliver t cid s)"
  unfolding task_deliver_def by (rule keeps_data_upd) (rule conn_ops_data)

section \<open>Steps of the server keep the application's invariant\<close>

lemma history_disconnects:
  assumes "history_ok s h"
  shows "count_list (conn_history cid h) DISCONNECT = (if cid < length (store s) \<and> closed (conn_at s cid) then 1 else 0)"
proof -
  have c0: "count_list (replicate n MESSAGE) DISCONNECT = 0" for n by (induction n) simp_all
  have "lifecycle s cid (conn_history cid h)" using assms unfolding history_ok_def by blast
  then show ?thesis by (auto simp: lifecycle_def c0 split: if_splits)
qed

lemma server_step_gone:
  assumes h: "history_ok (server app) (h @ pending_events app)"
    and e: "emits (server app) es s'" and c: "cid < nconns app" "cid < length (store s')"
  shows "gone (app\<lparr>server := s'\<rparr>) cid \<longleftrightarrow> gone app cid"
proof -
  let ?w = "\<lambda>xs. count_list (conn_history cid xs) DISCONNECT"
  have "history_ok s' ((h @ pending_events app) @ es)" using e h unfolding emits_def by blast
  from history_disconnects[OF this, of cid] history_disconnects[OF h, of cid]
  have "?w h + ?w (pending_events app) = (if is_closed app cid then 1 else 0)"
    "?w h + ?w (pending_events app) + ?w es = (if is_closed (app\<lparr>server := s'\<rparr>) cid then 1 else 0)"
    using c by (simp_all add: nconns_def is_closed_def)
  moreover have "pending_events (app\<lparr>server := s'\<rparr>) = pending_events app @ es"
    using e by (simp add: emits_def pending_events_def)
  moreover have "DISCONNECT \<notin> set (conn_history cid xs) \<longleftrightarrow> ?w xs = 0" for xs
    by (simp add: count_list_0_iff)
  ultimately show ?thesis by (auto simp: gone_def split: if_splits)
qed

lemma chat_wf_server_step:
  assumes "chat_wf app" "server_wf s'" "emits_some (server app) s'" "keeps_data (server app) s'"
  shows "chat_wf (app\<lparr>server := s'\<rparr>)"
proof -
  let ?app = "app\<lparr>server := s'\<rparr>"
  obtain h where h: "history_ok (server app) (h @ pending_events app)" using assms(1) by (auto simp: chat_wf_def)
  obtain es where e: "emits (server app) es s'" using assms(3) by (auto simp: emits_some_def)
  have "history_ok s' ((h @ pending_events app) @ es)" using e h unfolding emits_def by blast
  moreover have "pending_events ?app = pending_events app @ es" using e by (simp add: emits_def pending_events_def)
  ultimately have hist: "\<exists>h. history_ok (server ?app) (h @ pending_events ?app)" by auto
  have data: "sessions ?app cid = sessions app cid" for cid
    using assms(4) by (auto simp: sessions_def session_of_def nconns_def keeps_data_def)
  have "live ?app cid = live app cid" for cid
  proof (cases "cid < nconns app")
    case True
    then have "cid < length (store s')" using assms(4) by (auto simp: keeps_data_def nconns_def)
    then show ?thesis using server_step_gone[OF h e True] data by (simp add: live_def)
  next
    case False
    then have "sessions app cid = None" by (simp add: sessions_def)
    then show ?thesis using data by (simp add: live_def)
  qed
  then have "live ?app = live app" by blast
  then have "directory_wf (live ?app) (online_users ?app) (rooms ?app)" using chat_directory[OF assms(1)] by simp
  then show ?thesis using assms(2) hist unfolding chat_wf_def by simp
qed

end
