(* ===== verification/Reachability.thy ===== *)
theory Reachability
  imports Main
begin

text \<open>
  Reachable states of a step relation, and the interface of an inductive invariant: it
  holds in the initial states and every step keeps it. The thread systems of the server
  and of the client are its providers.
\<close>

definition reachable :: "('s \<Rightarrow> bool) \<Rightarrow> ('s \<Rightarrow> 's \<Rightarrow> bool) \<Rightarrow> 's \<Rightarrow> bool" where
  "reachable init step s \<longleftrightarrow> (\<exists>s0. init s0 \<and> step\<^sup>*\<^sup>* s0 s)"

lemma reachable_init: "init s \<Longrightarrow> reachable init step s"
  unfolding reachable_def by blast

lemma reachable_step: "reachable init step s \<Longrightarrow> step s s' \<Longrightarrow> reachable init step s'"
  unfolding reachable_def by (meson rtranclp.rtrancl_into_rtrancl)

locale inductive_invariant =
  fixes init :: "'s \<Rightarrow> bool" and step :: "'s \<Rightarrow> 's \<Rightarrow> bool" and inv :: "'s \<Rightarrow> bool"
  assumes inv_init: "init s \<Longrightarrow> inv s"
    and inv_step: "inv s \<Longrightarrow> step s s' \<Longrightarrow> inv s'"
begin

lemma inv_steps: "step\<^sup>*\<^sup>* s s' \<Longrightarrow> inv s \<Longrightarrow> inv s'"
  by (induction rule: rtranclp_induct) (auto intro: inv_step)

lemma inv_reachable: "reachable init step s \<Longrightarrow> inv s"
  using inv_steps inv_init by (auto simp: reachable_def)

end

text \<open>Two invariants of one system hold together.\<close>

locale invariant_pair =
  first: inductive_invariant init step inv + second: inductive_invariant init step inv'
  for init :: "'s \<Rightarrow> bool" and step :: "'s \<Rightarrow> 's \<Rightarrow> bool" and inv :: "'s \<Rightarrow> bool" and inv' :: "'s \<Rightarrow> bool"

sublocale invariant_pair \<subseteq> both: inductive_invariant init step "\<lambda>s. inv s \<and> inv' s"
  by unfold_locales (auto intro: first.inv_init second.inv_init first.inv_step second.inv_step)

end
