(* ===== verification/ChatSystem.thy ===== *)
theory ChatSystem
  imports SessionFrame ServerProperties Reachability
begin

text \<open>
  All threads of the server together: the reactor (\<open>net_thread_\<close>), the logic thread, and
  the workers of the pool, interleaved. A step of the reactor is one iteration of the loop
  over the ready descriptors, a step of a worker is one critical section, a step of the
  logic thread is one event: its tables and the sessions are its own, and what it shares
  are the connections it sends to, each send being one operation under the connection's
  mutex, and the two queues.
\<close>

section \<open>States\<close>

datatype reactor_state = Waiting | Handling "wakeup list" bool | Returned

datatype worker_state = Idle | Fetched broadcast_task | Delivering broadcast_task "conn_id list"

record system =
  chat :: chat_app
  reactor :: reactor_state
  workers :: "worker_state list"

definition set_server :: "chat_session web_server \<Rightarrow> system \<Rightarrow> system" where
  "set_server s' s = s\<lparr>chat := (chat s)\<lparr>server := s'\<rparr>\<rparr>"

definition set_worker :: "nat \<Rightarrow> worker_state \<Rightarrow> system \<Rightarrow> system" where
  "set_worker i w s = s\<lparr>workers := (workers s)[i := w]\<rparr>"

text \<open>The constructor makes a server with five workers; \<open>Run\<close> starts the reactor.\<close>

definition new_system :: "setup_env \<Rightarrow> system option" where
  "new_system env = map_option (\<lambda>app. \<lparr>chat = app, reactor = Waiting, workers = replicate 5 Idle\<rparr>) (new_chat_app env)"

definition sys_init :: "system \<Rightarrow> bool" where
  "sys_init s \<longleftrightarrow> (\<exists>env. new_system env = Some s)"

section \<open>Steps\<close>

text \<open>
  \<open>Stop\<close> joins the workers, so it ends when all of them are idle. A failing \<open>epoll_wait\<close>
  makes \<open>Run\<close> return as well, therefore \<open>returns\<close> has no condition on \<open>running\<close>.
\<close>

inductive sys_step :: "(rat \<Rightarrow> rat) \<Rightarrow> protobuf \<Rightarrow> system \<Rightarrow> system \<Rightarrow> bool" for fl pb where
  polls: "reactor s = Waiting \<Longrightarrow> running (server (chat s)) \<Longrightarrow>
     sys_step fl pb s (s\<lparr>reactor := Handling ws False\<rparr>)"
| handles: "reactor s = Handling (w # ws) pending \<Longrightarrow>
     sv = fold kernel_answers (w_answers w) (server (chat s)) \<Longrightarrow> wakeup_ok w sv \<Longrightarrow>
     sys_step fl pb s ((set_server (handle_wakeup w sv) s)\<lparr>reactor :=
       (if fd_kind sv (w_fd w) = SigFd then Handling [] pending
        else Handling ws (pending \<or> fd_kind sv (w_fd w) = NotifyFd))\<rparr>)"
| batch_ends: "reactor s = Handling [] pending \<Longrightarrow>
     sys_step fl pb s ((set_server (if pending then process_global_queue (server (chat s)) else server (chat s)) s)
       \<lparr>reactor := Waiting\<rparr>)"
| returns: "reactor s = Waiting \<Longrightarrow> \<forall>w\<in>set (workers s). w = Idle \<Longrightarrow>
     sys_step fl pb s ((set_server (Stop (server (chat s))) s)\<lparr>reactor := Returned\<rparr>)"
| logic: "app_running (chat s) \<Longrightarrow> sys_step fl pb s (s\<lparr>chat := logic_round fl pb now time (chat s)\<rparr>)"
| fetches: "i < length (workers s) \<Longrightarrow> workers s ! i = Idle \<Longrightarrow>
     worker_fetch (threadpool (server (chat s))) = (Popped t, p) \<Longrightarrow>
     sys_step fl pb s (set_worker i (Fetched t) (set_server ((server (chat s))\<lparr>threadpool := p\<rparr>) s))"
| snapshots: "i < length (workers s) \<Longrightarrow> workers s ! i = Fetched t \<Longrightarrow>
     sys_step fl pb s (set_worker i (Delivering t (task_snapshot t (server (chat s)))) s)"
| delivers: "i < length (workers s) \<Longrightarrow> workers s ! i = Delivering t (cid # cids) \<Longrightarrow>
     sys_step fl pb s (set_worker i (Delivering t cids) (set_server (task_deliver t cid (server (chat s))) s))"
| finishes: "i < length (workers s) \<Longrightarrow> workers s ! i = Delivering t [] \<Longrightarrow>
     sys_step fl pb s (set_worker i Idle s)"

inductive_cases sys_stepE: "sys_step fl pb s s'"

lemma set_fields [simp]:
  "chat (set_server sv s) = (chat s)\<lparr>server := sv\<rparr>" "reactor (set_server sv s) = reactor s"
  "chat (set_worker i w s) = chat s" "reactor (set_worker i w s) = reactor s"
  "workers (set_server sv s) = workers s" "workers (set_worker i w s) = (workers s)[i := w]"
  by (simp_all add: set_server_def set_worker_def)

section \<open>The application's invariant in every reachable state\<close>

definition sys_wf :: "system \<Rightarrow> bool" where
  "sys_wf s \<longleftrightarrow> reactor s = Returned \<or> chat_wf (chat s)"

lemma new_chat_app_fields:
  "new_chat_app env = Some app \<Longrightarrow> \<exists>s. new_server env = Some s \<and>
     app = \<lparr>server = s, app_running = True, online_users = (\<lambda>_. None), rooms = (\<lambda>_. None)\<rparr>"
  by (auto simp: new_chat_app_def)

lemma new_server_blank: "new_server env = Some s \<Longrightarrow> store s = [] \<and> event_queue s = sq_new"
  using new_server_core by (force simp: same_core_def blank_server_def)

lemma new_chat_app_wf:
  assumes "new_chat_app env = Some app"
  shows "chat_wf app"
proof -
  obtain s where s: "new_server env = Some s"
    "app = \<lparr>server = s, app_running = True, online_users = (\<lambda>_. None), rooms = (\<lambda>_. None)\<rparr>"
    using new_chat_app_fields[OF assms] by blast
  note b = new_server_blank[OF s(1)]
  have "live app cid = None" for cid using b s(2) by (simp add: live_def sessions_def nconns_def)
  then have dir: "directory_wf (live app) (online_users app) (rooms app)" using s(2) by (simp add: directory_wf_def)
  have "history_ok (server app) ([] @ pending_events app)"
    using b s(2) by (simp add: history_ok_def lifecycle_def pending_events_def sq_new_def)
  moreover have "server_wf (server app)" using new_server_wf[OF s(1)] s(2) by simp
  ultimately show ?thesis using dir unfolding chat_wf_def by blast
qed

text \<open>Steps of reactor and workers; \<open>Stop\<close> is the one that ends it.\<close>

lemma handles_wf:
  assumes "chat_wf app" "wakeup_ok w (fold kernel_answers as (server app))"
  shows "chat_wf (app\<lparr>server := handle_wakeup w (fold kernel_answers as (server app))\<rparr>)"
proof -
  let ?s = "fold kernel_answers as (server app)"
  have wf: "server_wf (server app)" using assms(1) by (simp add: chat_wf_def)
  note k = kernel_answers_fold_wf[OF wf, of as]
  show ?thesis
    using assms(1) handle_wakeup_wf[OF k assms(2)]
      emits_some_trans[OF emits_answers emits_wakeup[OF k assms(2)]]
      keeps_data_trans[OF keeps_data_answers keeps_data_wakeup[OF k assms(2)]]
    by (rule chat_wf_server_step)
qed

lemma silent_wf:
  assumes "chat_wf app" "shards s' = shards (server app)" "store s' = store (server app)"
    "metrics s' = metrics (server app)" "event_queue s' = event_queue (server app)"
  shows "chat_wf (app\<lparr>server := s'\<rparr>)"
proof -
  have "server_wf s'" using assms(1) server_wf_cong[OF assms(2-4)] by (simp add: chat_wf_def)
  with assms(1) show ?thesis
    by (rule chat_wf_server_step) (use assms(3,5) in \<open>simp_all add: emits_fields keeps_data_store\<close>)
qed

lemma delivers_wf:
  assumes "chat_wf app"
  shows "chat_wf (app\<lparr>server := task_deliver t cid (server app)\<rparr>)"
proof -
  have "server_wf (task_deliver t cid (server app))"
    using assms by (simp add: task_deliver_def upd_conn_wf conn_ops chat_wf_def)
  moreover have "emits_some (server app) (task_deliver t cid (server app))"
    unfolding task_deliver_def by (rule emits_upd_some[OF conn_ops(3)])
  ultimately show ?thesis using assms keeps_data_deliver by (intro chat_wf_server_step)
qed

lemma sys_wf_step:
  assumes "sys_wf s" "sys_step fl pb s s'"
  shows "sys_wf s'"
  using assms(2,1)
proof (induction rule: sys_step.induct)
  case (handles s w ws pending sv)
  then show ?case using handles_wf[of "chat s" w "w_answers w"] by (simp add: sys_wf_def)
next
  case (batch_ends s pending)
  then show ?case
    using silent_wf[of "chat s" "process_global_queue (server (chat s))"]
    by (simp add: sys_wf_def process_global_queue_def Let_def)
next
  case (logic s now time)
  then show ?case by (auto simp: sys_wf_def logic_round_wf)
next
  case (fetches i s t p)
  then show ?case
    using silent_wf[of "chat s" "(server (chat s))\<lparr>threadpool := p\<rparr>"] by (auto simp: sys_wf_def)
next
  case (delivers i s t cid cids)
  then show ?case using delivers_wf[of "chat s" t cid] by (auto simp: sys_wf_def)
qed (auto simp: sys_wf_def)

lemma sys_init_wf: "sys_init s \<Longrightarrow> sys_wf s"
  using new_chat_app_wf by (auto simp: sys_init_def new_system_def sys_wf_def)

interpretation chat_inv: inductive_invariant sys_init "sys_step fl pb" sys_wf
  by unfold_locales (use sys_init_wf sys_wf_step in blast)+

section \<open>The logic thread never sees the end\<close>

text \<open>Nothing resets \<open>running_\<close> of the application, and nothing stops the event queue.\<close>

definition unending :: "chat_app \<Rightarrow> bool" where
  "unending app \<longleftrightarrow> app_running app \<and> \<not> finished (event_queue (server app))"

lemma unending_simps [simp]:
  "unending (app\<lparr>online_users := W\<rparr>) \<longleftrightarrow> unending app" "unending (app\<lparr>rooms := R\<rparr>) \<longleftrightarrow> unending app"
  "unending (SendProto pb cid msg app) \<longleftrightarrow> unending app" "unending (BroadcastProto pb msg app) \<longleftrightarrow> unending app"
  "unending (set_session cid s app) \<longleftrightarrow> unending app"
  "unending (room_erase r n app) \<longleftrightarrow> unending app" "unending (room_insert r n app) \<longleftrightarrow> unending app"
  by (simp_all add: unending_def SendProto_def BroadcastProto_def set_session_def Let_def SendPreEncoded_keeps
      Broadcast_def room_erase_def room_insert_def)

lemma unending_close: "unending (app\<lparr>server := Close cid (server app)\<rparr>) \<longleftrightarrow> unending app"
  by (simp add: unending_def Close_def close_conn_def Let_def upd_shard_def push_event_def sq_push_def)

lemma unending_members [simp]: "unending (send_members pb msg ms app) \<longleftrightarrow> unending app"
  unfolding send_members_def
  by (induction ms arbitrary: app) (simp_all add: send_member_def split: option.split)

lemma unending_leave [simp]: "unending (leave_room pb r n notice app) \<longleftrightarrow> unending app"
  by (simp add: leave_room_def Let_def split: option.split)

lemma unending_handlers [simp]:
  "unending (HandleLogin pb cid s name app) \<longleftrightarrow> unending app"
  "unending (HandleGlobalChat pb time s text app) \<longleftrightarrow> unending app"
  "unending (HandlePrivateChat pb time cid s target text app) \<longleftrightarrow> unending app"
  "unending (HandleJoinRoom pb cid s room app) \<longleftrightarrow> unending app"
  "unending (HandleRoomChat pb cid s room text app) \<longleftrightarrow> unending app"
  "unending (HandleDisconnect pb cid app) \<longleftrightarrow> unending app"
  "unending (HandleConnect now cid app) \<longleftrightarrow> unending app"
  by (simp_all add: HandleLogin_def HandleGlobalChat_def HandlePrivateChat_def HandleJoinRoom_def
      HandleRoomChat_def HandleDisconnect_def HandleConnect_def Let_def split: option.split)

lemma unending_message [simp]: "unending (HandleMessage fl pb now time cid raw app) \<longleftrightarrow> unending app"
proof (cases "session_of cid app")
  case (Some s0)
  then show ?thesis
  proof (cases rule: HandleMessage_cases[where fl = fl and pb = pb and now = now and time = time and raw = raw])
    case (handled msg s)
    then show ?thesis by (simp add: dispatch_def split: client_message.split)
  qed (simp_all add: Let_def unending_close)
qed (simp add: HandleMessage_def)

lemma unending_event [simp]: "unending (ProcessEvent fl pb now time e app) \<longleftrightarrow> unending app"
  by (simp add: ProcessEvent_def split: event_type.split option.split)

lemma unending_round [simp]: "unending (logic_round fl pb now time app) \<longleftrightarrow> unending app"
proof (cases "sq_pop (event_queue (server app))")
  case (Pair r q)
  have "finished q = finished (event_queue (server app))" using Pair by (auto simp: sq_pop_def split: if_splits)
  then have "unending (app\<lparr>server := (server app)\<lparr>event_queue := q\<rparr>\<rparr>) \<longleftrightarrow> unending app" by (simp add: unending_def)
  then show ?thesis by (simp add: logic_round_def Pair split: pop_result.split)
qed

lemma unending_loop: "unending (LogicLoop fl pb clock app) \<longleftrightarrow> unending app"
  by (induction fl pb clock app rule: LogicLoop.induct) simp_all

text \<open>The reactor pushes, and never stops, the queue.\<close>

lemma finished_push [simp]: "finished (event_queue (fold push_event es s)) = finished (event_queue s)"
  by (induction es arbitrary: s) (simp_all add: push_event_def sq_push_def)

lemma close_finished [simp]: "finished (event_queue (close_conn cid s)) = finished (event_queue s)"
  by (simp add: close_conn_def Let_def upd_shard_def push_event_def sq_push_def)

lemma finished_fold:
  assumes "\<And>x s. finished (event_queue (f x s)) = finished (event_queue s)"
  shows "finished (event_queue (fold f xs s)) = finished (event_queue s)"
  by (induction xs arbitrary: s) (simp_all add: assms)

lemma answers_finished [simp]: "finished (event_queue (fold kernel_answers as s)) = finished (event_queue s)"
  by (rule finished_fold) (simp add: kernel_answers_def split: prod.split)

lemma accept_finished [simp]: "finished (event_queue (accept_loop now xs s)) = finished (event_queue s)"
  by (induction now xs s rule: accept_loop.induct) (simp_all add: accept_one_fields sq_push_def)

lemma conn_finished [simp]:
  "finished (event_queue (handle_read now cid s)) = finished (event_queue s)"
  "finished (event_queue (handle_write cid s)) = finished (event_queue s)"
  by (simp_all add: handle_read_def handle_write_def Let_def finished_fold push_event_def sq_push_def split: prod.split)

lemma sweep_finished: "sweep_shards now is s = (out, s') \<Longrightarrow> event_queue s' = event_queue s"
  by (induction now "is" s arbitrary: out s' rule: sweep_shards.induct)
    (auto simp: sweep_shard_def upd_shard_def split: prod.splits)

lemma timer_finished [simp]:
  fixes s :: "chat_session web_server"
  shows "finished (event_queue (handle_timer_fd w s)) = finished (event_queue s)"
proof -
  have "finished (event_queue (check_timeouts now s)) = finished (event_queue s)" for now and s :: "chat_session web_server"
    by (auto simp: check_timeouts_def finished_fold timeout_conn_def dest: sweep_finished split: prod.split)
  moreover have "finished (event_queue (flush_all_queues lk s)) = finished (event_queue s)" for lk and s :: "chat_session web_server"
    by (simp add: flush_all_queues_def flush_shard_def Let_def finished_fold)
  ultimately show ?thesis by (simp add: handle_timer_fd_def Let_def)
qed

lemma handle_wakeup_finished:
  fixes s :: "chat_session web_server"
  shows "finished (event_queue (handle_wakeup w s)) = finished (event_queue s)"
  by (simp add: handle_wakeup_def handle_conn_event_def Let_def split: fd_role.split option.split)

lemma unending_step:
  assumes "unending (chat s)" "sys_step fl pb s s'"
  shows "unending (chat s')"
  using assms(2,1)
proof (induction rule: sys_step.induct)
  case (batch_ends s pending)
  then show ?case by (simp add: unending_def process_global_queue_def Let_def)
next
  case (returns s)
  then show ?case by (simp add: unending_def Stop_def Let_def)
next
  case (handles s w ws pending sv)
  have "finished (event_queue (handle_wakeup w sv)) = finished (event_queue (server (chat s)))"
    using handle_wakeup_finished[of w sv] handles(2) by (simp add: answers_finished)
  then show ?case using handles by (simp add: unending_def)
qed (simp_all add: unending_def[of "_\<lparr>server := _\<rparr>"] task_deliver_def, simp_all add: unending_def)

interpretation unending_inv: inductive_invariant sys_init "sys_step fl pb" "\<lambda>s. unending (chat s)"
proof
  fix s assume "sys_init s"
  then obtain env app where app: "new_chat_app env = Some app" "chat s = app"
    by (auto simp: sys_init_def new_system_def)
  obtain sv where "new_server env = Some sv" "server app = sv" "app_running app"
    using new_chat_app_fields[OF app(1)] by auto
  then show "unending (chat s)" using new_server_blank[of env sv] app(2) by (simp add: unending_def sq_new_def)
qed (use unending_step in blast)

interpretation chat_pair: invariant_pair sys_init "sys_step fl pb" sys_wf "\<lambda>s. unending (chat s)"
  by unfold_locales

end
