(* ===== verification/Delivery.thy ===== *)
theory Delivery
  imports ChatInvariant
begin

text \<open>
  What the handlers of the application put into the byte streams of the connections: each
  answer is one packet to one connection, each notice to a room a multicast to the
  connections its members are mapped to (\<open>Multicast\<close>).
\<close>

section \<open>The application as a packet sink\<close>

definition chat_stream :: "chat_app \<Rightarrow> conn_id \<Rightarrow> byte list" where
  "chat_stream app cid = server_stream (server app) cid"

definition chat_open :: "chat_app \<Rightarrow> conn_id \<Rightarrow> bool" where
  "chat_open app cid = server_live (server app) cid"

definition chat_send :: "conn_id \<Rightarrow> byte list \<Rightarrow> chat_app \<Rightarrow> chat_app" where
  "chat_send cid packet app = app\<lparr>server := SendPreEncoded cid packet (server app)\<rparr>"

interpretation chat_sink: packet_sink chat_send chat_stream chat_open
  by unfold_locales
    (simp_all add: chat_send_def chat_stream_def chat_open_def sink.send_stream sink.send_live)

text \<open>\<open>n\<close> copies of a packet for one that is open.\<close>

definition copies :: "chat_app \<Rightarrow> conn_id \<Rightarrow> nat \<Rightarrow> byte list \<Rightarrow> byte list" where
  "copies app d n p = (if chat_open app d then concat (replicate n p) else [])"

lemma copies_0 [simp]: "copies app d 0 p = []"
  by (simp add: copies_def)

text \<open>How many members of a list are mapped to a connection.\<close>

definition reach :: "online_map \<Rightarrow> string list \<Rightarrow> conn_id \<Rightarrow> nat" where
  "reach online ms d = length (filter (\<lambda>m. online m = Some d) ms)"

lemma reach_count: "reach online ms d = count_list (List.map_filter online ms) d"
  by (induction ms) (auto simp: reach_def split: option.split)

lemma SendProto_sink: "SendProto pb cid msg app = chat_send cid (pb_encode (ser pb) msg) app"
  by (simp add: SendProto_def Let_def chat_send_def)

lemma SendProto_stream [simp]:
  "chat_stream (SendProto pb cid msg app) d =
     chat_stream app d @ copies app d (if d = cid then 1 else 0) (pb_encode (ser pb) msg)"
  by (auto simp: SendProto_sink chat_sink.send_stream copies_def)

lemma SendProto_open [simp]: "chat_open (SendProto pb cid msg app) d = chat_open app d"
  by (simp add: SendProto_sink chat_sink.send_live)

lemma send_members_multicast:
  "send_members pb msg ms app =
     chat_sink.multicast (List.map_filter (online_users app) ms) (pb_encode (ser pb) msg) app"
proof (induction ms arbitrary: app)
  case Nil
  then show ?case by (simp add: send_members_def chat_sink.multicast_def)
next
  case (Cons m ms)
  have eq: "send_members pb msg (m # ms) app = send_members pb msg ms (send_member pb msg m app)"
    by (simp add: send_members_def)
  have "send_member pb msg m app = (case online_users app m of None \<Rightarrow> app
      | Some c \<Rightarrow> chat_send c (pb_encode (ser pb) msg) app)"
    by (simp add: send_member_def SendProto_sink split: option.split)
  moreover have "online_users (chat_send c p app) = online_users app" for c p by (simp add: chat_send_def)
  ultimately show ?case unfolding eq Cons.IH
    by (simp add: chat_sink.multicast_def split: option.split)
qed

lemma send_members_stream [simp]:
  "chat_stream (send_members pb msg ms app) d =
     chat_stream app d @ copies app d (reach (online_users app) ms d) (pb_encode (ser pb) msg)"
  by (simp add: send_members_multicast chat_sink.multicast_stream copies_def reach_count)

lemma send_members_open [simp]: "chat_open (send_members pb msg ms app) d = chat_open app d"
  by (simp add: send_members_multicast chat_sink.multicast_live)

lemma sink_tables [simp]:
  "chat_stream (app\<lparr>online_users := W\<rparr>) d = chat_stream app d" "chat_stream (app\<lparr>rooms := R\<rparr>) d = chat_stream app d"
  "chat_open (app\<lparr>online_users := W\<rparr>) d = chat_open app d" "chat_open (app\<lparr>rooms := R\<rparr>) d = chat_open app d"
  "copies (app\<lparr>online_users := W\<rparr>) d n p = copies app d n p" "copies (app\<lparr>rooms := R\<rparr>) d n p = copies app d n p"
  by (simp_all add: chat_stream_def chat_open_def copies_def)

lemma sink_session [simp]:
  "chat_stream (set_session cid s app) d = chat_stream app d" "chat_open (set_session cid s app) d = chat_open app d"
  by (auto simp: chat_stream_def chat_open_def set_session_def server_stream_def server_live_def upd_conn_at out_stream_def)

lemma sink_rooms [simp]:
  "chat_stream (room_erase r n app) d = chat_stream app d" "chat_open (room_erase r n app) d = chat_open app d"
  "chat_stream (room_insert r n app) d = chat_stream app d" "chat_open (room_insert r n app) d = chat_open app d"
  by (simp_all add: room_erase_def room_insert_def)

lemma copies_cong: "(\<And>d. chat_open app' d = chat_open app d) \<Longrightarrow> copies app' d n p = copies app d n p"
  by (simp add: copies_def)

lemma leave_room_open [simp]: "chat_open (leave_room pb r n notice app) d = chat_open app d"
  by (simp add: leave_room_def Let_def split: option.split)

lemma leave_room_stream [simp]:
  "chat_stream (leave_room pb r n notice app) d = chat_stream app d @
     copies app d (reach (online_users app) (removeAll n (room_ref r (rooms app))) d)
       (pb_encode (ser pb) (ChatBroadcast ''Server'' notice r 0))"
proof -
  let ?ms = "removeAll n (room_ref r (rooms app))" and ?app1 = "room_erase r n app"
  let ?app2 = "send_members pb (ChatBroadcast ''Server'' notice r 0) ?ms ?app1"
  have eq: "leave_room pb r n notice app = (if ?ms = [] then ?app2\<lparr>rooms := (rooms ?app2)(r := None)\<rparr> else ?app2)"
    by (simp add: leave_room_def Let_def room_erase_def)
  show ?thesis unfolding eq by (simp add: copies_cong[of ?app1 app])
qed

section \<open>Whom a room reaches\<close>

lemma reach_pos: "m \<in> set ms \<Longrightarrow> online m = Some d \<Longrightarrow> 1 \<le> reach online ms d"
  by (induction ms) (auto simp: reach_def)

text \<open>A client with one name only is reached once by the room it is in and by no other.\<close>

lemma reach_once:
  assumes wf: "directory_wf L online rs" and t: "L d = Some t" "is_logged_in t"
    and only: "\<And>n. online n = Some d \<Longrightarrow> n = username t"
  shows "reach online (room_ref r rs) d = (if current_room t = r \<and> r \<noteq> '''' then 1 else 0)"
proof -
  have own: "online (username t) = Some d" using directoryD(1)[OF wf t(1)] t(2) by (simp add: owns_name_def)
  have "filter (\<lambda>m. online m = Some d) (room_ref r rs) = filter (\<lambda>m. m = username t) (room_ref r rs)"
    using only own by (intro filter_cong) blast+
  then have "reach online (room_ref r rs) d = length (filter (\<lambda>m. username t = m) (room_ref r rs))"
    by (simp add: reach_def eq_commute)
  also have "\<dots> = (if username t \<in> set (room_ref r rs) then 1 else 0)"
    using count_list_distinct[OF directory_members(1)[OF wf]] by (simp add: count_list_eq_length_filter)
  also have "username t \<in> set (room_ref r rs) \<longleftrightarrow> current_room t = r \<and> r \<noteq> ''''"
  proof
    assume m: "username t \<in> set (room_ref r rs)"
    then have "room_ref r rs \<noteq> []" by auto
    then have "r \<noteq> ''''" using directory_room_ok[OF wf] by blast
    moreover have "r = current_room t" using directoryD(2)[OF wf t(1)] t(2) m by (simp add: in_its_room_def)
    ultimately show "current_room t = r \<and> r \<noteq> ''''" by blast
  next
    assume "current_room t = r \<and> r \<noteq> ''''"
    then obtain m where "m \<in> set (room_ref r rs)" "online m = Some d"
      using directoryD(2)[OF wf t(1)] by (auto simp: in_its_room_def)
    then show "username t \<in> set (room_ref r rs)" using only[of m] by blast
  qed
  finally show ?thesis .
qed

section \<open>The streams of the handlers\<close>

lemma HandleRoomChat_stream:
  assumes "is_logged_in s" "current_room s = r" "r \<noteq> ''''"
  shows "chat_stream (HandleRoomChat pb cid s r text app) d = chat_stream app d @
    copies app d (reach (online_users app) (room_ref r (rooms app)) d)
      (pb_encode (ser pb) (ChatBroadcast (username s) text r 0))"
  using assms by (simp add: HandleRoomChat_def Let_def)

text \<open>The notices of joining and leaving go to everybody but the one who moves.\<close>

lemma removeAll_add_member: "removeAll n (room_ref r (add_member r n rs)) = removeAll n (room_ref r rs)"
  by (simp add: add_member_def Let_def)

lemma HandleJoinRoom_stream:
  assumes "is_logged_in s"
  shows "chat_stream (HandleJoinRoom pb cid s new app) d = chat_stream app d @
    (if current_room s = '''' then [] else
       copies app d (reach (online_users app) (removeAll (username s) (room_ref (current_room s) (rooms app))) d)
         (pb_encode (ser pb) (ChatBroadcast ''Server'' (username s @ '' has left the room.'') (current_room s) 0))) @
    (if new = '''' then [] else
       copies app d (reach (online_users app) (removeAll (username s) (room_ref new (rooms app))) d)
         (pb_encode (ser pb) (ChatBroadcast ''Server'' (username s @ '' has joined the room. '') new 0))) @
    copies app d (if d = cid then 1 else 0) (pb_encode (ser pb)
      (if new = '''' then ChatBroadcast ''Server'' ''You have entered the global room!'' '''' 0
       else ChatBroadcast ''Server'' (''You have joined room: '' @ new @ '' !!'') new 0))"
proof -
  define app1 where "app1 = (if current_room s \<noteq> ''''
    then leave_room pb (current_room s) (username s) (username s @ '' has left the room.'') app else app)"
  define app2 where "app2 = set_session cid (s\<lparr>current_room := new\<rparr>) app1"
  have o: "chat_open app2 e = chat_open app e" for e by (simp add: app2_def app1_def)
  have f: "filter (\<lambda>m. m \<noteq> username s) ms = removeAll (username s) ms" for ms
    by (induction ms) auto
  have v: "online_users app2 = online_users app"
    "removeAll (username s) (room_ref new (rooms app2)) = removeAll (username s) (room_ref new (rooms app))"
    by (simp_all add: app2_def app1_def)
  define join where "join = ChatBroadcast ''Server'' (username s @ '' has joined the room. '') new 0"
  define resp where "resp = (if new = '''' then ChatBroadcast ''Server'' ''You have entered the global room!'' '''' 0
       else ChatBroadcast ''Server'' (''You have joined room: '' @ new @ '' !!'') new 0)"
  define app3 where "app3 = (if new = '''' then app2 else send_members pb join
      (removeAll (username s) (room_ref new (add_member new (username s) (rooms app2)))) (room_insert new (username s) app2))"
  have eq: "HandleJoinRoom pb cid s new app = SendProto pb cid resp app3"
    using assms by (simp add: HandleJoinRoom_def Let_def app1_def app2_def app3_def join_def resp_def f)
  have s2: "chat_stream app2 d = chat_stream app d @ (if current_room s = '''' then [] else
       copies app d (reach (online_users app) (removeAll (username s) (room_ref (current_room s) (rooms app))) d)
         (pb_encode (ser pb) (ChatBroadcast ''Server'' (username s @ '' has left the room.'') (current_room s) 0)))"
    by (simp add: app2_def app1_def)
  have s3: "chat_stream app3 d = chat_stream app2 d @ (if new = '''' then [] else
      copies app d (reach (online_users app) (removeAll (username s) (room_ref new (rooms app))) d) (pb_encode (ser pb) join))"
    using o by (simp add: app3_def removeAll_add_member v copies_def)
  have "chat_open app3 e = chat_open app e" for e using o by (simp add: app3_def)
  then have "chat_stream (SendProto pb cid resp app3) d =
      chat_stream app3 d @ copies app d (if d = cid then 1 else 0) (pb_encode (ser pb) resp)"
    by (simp add: copies_def)
  then show ?thesis unfolding eq s3 s2 by (simp only: append_assoc join_def resp_def)
qed

end
