(* ===== verification/ChatProperties.thy ===== *)
theory ChatProperties
  imports ChatSystem Delivery
begin

text \<open>
  The properties of the chat application: the directory in every reachable state of the
  threads, and what each kind of message does to the directory and to the streams.
\<close>

section \<open>A concrete system\<close>

text \<open>One client is accepted and its CONNECT has been processed.\<close>

definition fresh_chat :: chat_app where
  "fresh_chat = the (new_chat_app sample_env)"

definition sample_chat :: chat_app where
  "sample_chat = logic_round (\<lambda>x. x) \<lparr>ser = \<lambda>_. [], par = \<lambda>_. None\<rparr> 0 0
     (fresh_chat\<lparr>server := accept_one 0 8 sample_socket (server fresh_chat)\<rparr>)"

lemma fresh_chat: "new_chat_app sample_env = Some fresh_chat"
proof -
  have "new_server sample_env \<noteq> (None :: chat_session web_server option)"
    by (simp add: new_server_def sample_env_def setup_signalfd_def setup_server_socket_def setup_epoll_def
        setup_eventfd_def setup_timerfd_def Let_def)
  then show ?thesis by (auto simp: fresh_chat_def new_chat_app_def)
qed

lemma fresh_chat_fields:
  "new_server sample_env = Some (server fresh_chat)" "store (server fresh_chat) = []"
  "event_queue (server fresh_chat) = sq_new" "app_running fresh_chat"
  "online_users fresh_chat = (\<lambda>_. None)" "rooms fresh_chat = (\<lambda>_. None)"
proof -
  obtain s where s: "new_server sample_env = Some s"
    "fresh_chat = \<lparr>server = s, app_running = True, online_users = (\<lambda>_. None), rooms = (\<lambda>_. None)\<rparr>"
    using new_chat_app_fields[OF fresh_chat] by blast
  show "new_server sample_env = Some (server fresh_chat)" "store (server fresh_chat) = []"
    "event_queue (server fresh_chat) = sq_new" "app_running fresh_chat"
    "online_users fresh_chat = (\<lambda>_. None)" "rooms fresh_chat = (\<lambda>_. None)"
    using s(1) new_server_blank[OF s(1)] unfolding s(2) by simp_all
qed

lemma sample_chat_eq:
  "\<exists>q. queue q = [] \<and> sample_chat = HandleConnect 0 0
     (fresh_chat\<lparr>server := (accept_one 0 8 sample_socket (server fresh_chat))\<lparr>event_queue := q\<rparr>\<rparr>)"
  by (rule exI[of _ sq_new])
    (simp add: sample_chat_def logic_round_def accept_one_fields fresh_chat_fields sq_new_def sq_push_def sq_pop_def
      ProcessEvent_def connect_event_def conn_at_def)

lemma sample_chat:
  "sessions sample_chat 0 = Some (new_session 0)" "nconns sample_chat = 1" "\<not> is_closed sample_chat 0"
  "pending_events sample_chat = []" "online_users sample_chat = (\<lambda>_. None)" "rooms sample_chat = (\<lambda>_. None)"
  "chat_open sample_chat 0" "chat_stream sample_chat 0 = []"
proof -
  obtain q where q: "queue q = []" and eq: "sample_chat = HandleConnect 0 0
     (fresh_chat\<lparr>server := (accept_one 0 8 sample_socket (server fresh_chat))\<lparr>event_queue := q\<rparr>\<rparr>)" 
    using sample_chat_eq by blast
  let ?a = "fresh_chat\<lparr>server := (accept_one 0 8 sample_socket (server fresh_chat))\<lparr>event_queue := q\<rparr>\<rparr>"
  have at: "conn_at (server ?a) 0 = accepted_conn 8 0 sample_socket" and n: "nconns ?a = 1"
    by (simp_all add: conn_at_def nconns_def accept_one_fields fresh_chat_fields)
  note v = HandleConnect_view[where cid = 0 and app = ?a and now = 0]
  have k: "conns_kept ?a sample_chat" using v(4) eq by simp
  then show "nconns sample_chat = 1" "\<not> is_closed sample_chat 0" "pending_events sample_chat = []"
    using n at q conns_kept_pending[OF k] by (auto simp: conns_kept_def is_closed_def pending_events_def)
  show "sessions sample_chat 0 = Some (new_session 0)" "online_users sample_chat = (\<lambda>_. None)" "rooms sample_chat = (\<lambda>_. None)"
    using v n unfolding eq by (simp_all add: fresh_chat_fields)
  have "out_stream (accepted_conn 8 0 sample_socket) = []"
    by (simp add: out_stream_def accepted_conn_def add_fd_to_epoll_def new_connection_def sample_socket_def)
  moreover have "chat_stream sample_chat 0 = chat_stream ?a 0" "chat_open sample_chat 0 = chat_open ?a 0"
    unfolding eq HandleConnect_def by simp_all
  ultimately show "chat_open sample_chat 0" "chat_stream sample_chat 0 = []"
    using at n by (auto simp: chat_open_def chat_stream_def server_live_def server_stream_def nconns_def)
qed

lemma sample_chat_live: "live sample_chat 0 = Some (new_session 0)"
  using sample_chat by (simp add: live_def gone_def)

definition sample_pb :: protobuf where
  "sample_pb = \<lparr>ser = \<lambda>_. [], par = \<lambda>_. None\<rparr>"

lemma sample_system:
  "reachable sys_init (sys_step (\<lambda>x. x) sample_pb) \<lparr>chat = sample_chat, reactor = Handling [] False, workers = replicate 5 Idle\<rparr>"
proof -
  let ?step = "sys_step (\<lambda>x. x) sample_pb" and ?s = "server fresh_chat"
  let ?sta = "\<lparr>chat = fresh_chat, reactor = Waiting, workers = replicate 5 Idle\<rparr>"
  let ?stb = "?sta\<lparr>reactor := Handling [sample_accept] False\<rparr>"
  let ?stc = "(set_server (handle_wakeup sample_accept (server fresh_chat)) ?stb)\<lparr>reactor := Handling [] False\<rparr>"
  have k: "fd_kind ?s 4 = ListenFd"
    using new_server_listen_fd[OF fresh_chat_fields(1)] by (simp add: fd_kind_def sample_env_def)
  have "sys_init ?sta" unfolding sys_init_def using fresh_chat by (intro exI[of _ sample_env]) (simp add: new_system_def)
  then have r0: "reachable sys_init ?step ?sta" by (rule reachable_init)
  have "running ?s" using new_server_core[OF fresh_chat_fields(1)] by (simp add: same_core_def blank_server_def)
  then have "?step ?sta ?stb" by (intro sys_step.polls) simp_all
  with r0 have r1: "reachable sys_init ?step ?stb" by (rule reachable_step)
  have "wakeup_ok sample_accept ?s"
    by (simp add: wakeup_ok_def sample_accept_def fresh_fd_def clock_ok_def fresh_chat_fields)
  then have "?step ?stb ?stc"
    using sys_step.handles[of ?stb sample_accept "[]" False ?s "\<lambda>x. x" sample_pb] k by (simp add: sample_accept_def)
  with r1 have r2: "reachable sys_init ?step ?stc" by (rule reachable_step)
  have "handle_wakeup sample_accept ?s = accept_one 0 8 sample_socket ?s"
    using k by (simp add: handle_wakeup_def sample_accept_def)
  then have "sample_chat = logic_round (\<lambda>x. x) sample_pb 0 0 (chat ?stc)"
    by (simp add: sample_chat_def sample_pb_def)
  moreover have "?step ?stc (?stc\<lparr>chat := logic_round (\<lambda>x. x) sample_pb 0 0 (chat ?stc)\<rparr>)"
    by (rule sys_step.logic) (simp add: fresh_chat_fields)
  ultimately have "?step ?stc (?stc\<lparr>chat := sample_chat\<rparr>)" by simp
  with r2 have "reachable sys_init ?step (?stc\<lparr>chat := sample_chat\<rparr>)" by (rule reachable_step)
  then show ?thesis by (simp add: set_server_def)
qed

lemma sample_chat_wf: "chat_wf sample_chat"
  using chat_inv.inv_reachable[OF sample_system] by (simp add: sys_wf_def)

section \<open>Every reachable state\<close>

text \<open>C2: Whatever the interleaving of reactor, logic thread and workers, and whatever the clients send: until
  \<open>Run\<close> returns, a logged-in session owns its non-empty name and no other session has it, only
  logged-in sessions are in rooms, a session in a room is reachable through the room's member set,
  and the rooms in the table are non-empty, free of duplicates and hold names of online users only.\<close>

theorem directory_reachable:
  assumes "reachable sys_init (sys_step fl pb) s" "reactor s \<noteq> Returned"
  defines "app \<equiv> chat s"
  shows "(\<forall>cid ses. live app cid = Some ses \<longrightarrow>
      (if is_logged_in ses then username ses \<noteq> '''' \<and> online_users app (username ses) = Some cid
       else current_room ses = '''') \<and>
      (current_room ses \<noteq> '''' \<longrightarrow> (\<exists>m\<in>set (room_ref (current_room ses) (rooms app)). online_users app m = Some cid))) \<and>
    (\<forall>a b sa sb. live app a = Some sa \<longrightarrow> live app b = Some sb \<longrightarrow> is_logged_in sa \<longrightarrow> is_logged_in sb \<longrightarrow>
       username sa = username sb \<longrightarrow> a = b) \<and>
    (\<forall>r ms. rooms app r = Some ms \<longrightarrow> r \<noteq> '''' \<and> ms \<noteq> [] \<and> distinct ms \<and> (\<forall>m\<in>set ms. online_users app m \<noteq> None))"
proof -
  have "chat_wf app" using chat_pair.both.inv_reachable[OF assms(1)] assms(2) by (simp add: sys_wf_def app_def)
  then have d: "directory_wf (live app) (online_users app) (rooms app)" by (rule chat_directory)
  show ?thesis
  proof (intro conjI)
    show "\<forall>a b sa sb. live app a = Some sa \<longrightarrow> live app b = Some sb \<longrightarrow> is_logged_in sa \<longrightarrow> is_logged_in sb \<longrightarrow>
       username sa = username sb \<longrightarrow> a = b"
      using directory_unique[OF d] by blast
    show "\<forall>r ms. rooms app r = Some ms \<longrightarrow> r \<noteq> '''' \<and> ms \<noteq> [] \<and> distinct ms \<and> (\<forall>m\<in>set ms. online_users app m \<noteq> None)"
      using directoryD(3,4)[OF d] unfolding room_ok_def by blast
  qed (use directoryD(1,2)[OF d] in \<open>unfold owns_name_def in_its_room_def, blast\<close>)
qed

theorem directory_reachable_witness:
  "current_room (new_session 0) = '''' \<and> live sample_chat 0 = Some (new_session 0)"
  using directory_reachable[OF sample_system] sample_chat_live by (simp add: new_session_def)

text \<open>C18: The logic thread never ends. In every reachable state, also after \<open>Run\<close> has returned, the loop
  condition of \<open>LogicLoop\<close> holds and the event queue has not been stopped, and no sequence of
  events changes that; on an empty queue the thread waits for ever.\<close>

theorem logic_thread_unending:
  assumes "reachable sys_init (sys_step fl pb) s"
  shows "app_running (LogicLoop fl pb clock (chat s)) \<and>
    fst (sq_pop (event_queue (server (chat s)))) \<noteq> Finished \<and>
    (pending_events (chat s) = [] \<longrightarrow> LogicLoop fl pb clock (chat s) = chat s)"
proof -
  have u: "unending (chat s)" using chat_pair.both.inv_reachable[OF assms] by blast
  have blocked: "LogicLoop fl pb clock app = app" if "unending app" "pending_events app = []" for app
    using that by (induction fl pb clock app rule: LogicLoop.induct)
      (simp_all add: logic_round_def pending_events_def unending_def sq_pop_def)
  show ?thesis
    using u blocked[of "chat s"] unending_loop[of fl pb clock "chat s"] by (auto simp: unending_def sq_pop_def)
qed

theorem logic_thread_unending_witness:
  "LogicLoop (\<lambda>x. x) sample_pb [(1, 1), (2, 2)] sample_chat = sample_chat \<and> app_running sample_chat"
  using logic_thread_unending[OF sample_system, of "[(1, 1), (2, 2)]"]
    logic_thread_unending[OF sample_system, of "[]"] sample_chat(4) by simp

section \<open>Logging in and out\<close>

text \<open>The state of the sample after a login as bob.\<close>

definition bob_chat :: chat_app where
  "bob_chat = HandleLogin sample_pb 0 (new_session 0) ''bob'' sample_chat"

definition bob :: chat_session where
  "bob = (new_session 0)\<lparr>username := ''bob'', is_logged_in := True\<rparr>"

lemma open_not_gone: "chat_open app cid \<Longrightarrow> \<not> gone app cid \<and> cid < nconns app"
  by (simp add: chat_open_def server_live_def gone_def is_closed_def nconns_def)

text \<open>A login succeeds exactly for a non-empty name that nobody online has. It then makes the session
  the owner of the name; otherwise nothing in the directory changes. Either way the client, and
  nobody else, gets one answer, and the invariant is kept.\<close>

theorem login_exact:
  fixes pb :: protobuf and name :: string
  assumes "chat_wf app" "chat_open app cid" "sessions app cid = Some s"
  defines "app' \<equiv> HandleLogin pb cid s name app" and "ok \<equiv> online_users app name = None \<and> name \<noteq> ''''"
  shows "chat_wf app' \<and> rooms app' = rooms app \<and>
    sessions app' = (if ok then (sessions app)(cid \<mapsto> s\<lparr>username := name, is_logged_in := True\<rparr>) else sessions app) \<and>
    online_users app' = (if ok then (online_users app)(name \<mapsto> cid) else online_users app) \<and>
    chat_stream app' d = chat_stream app d @ (if d \<noteq> cid then []
      else pb_encode (ser pb) (if ok then LoginResponse True ''Login successful.''
                               else LoginResponse False ''Invalid username or already taken.''))"
proof -
  have o: "cid < nconns app" "\<not> gone app cid" using open_not_gone[OF assms(2)] by simp_all
  have "chat_stream app' d = chat_stream app d @ (if d \<noteq> cid then []
      else pb_encode (ser pb) (if ok then LoginResponse True ''Login successful.''
                               else LoginResponse False ''Invalid username or already taken.''))"
    using assms(2) by (auto simp: app'_def ok_def HandleLogin_def Let_def copies_def)
  moreover have "chat_wf app'" unfolding app'_def by (rule HandleLogin_wf[OF assms(1) o assms(3)])
  ultimately show ?thesis
    using HandleLogin_view[OF o(1), where pb = pb and s = s and name = name] by (auto simp: app'_def ok_def)
qed

theorem login_exact_witness:
  "sessions bob_chat 0 = Some bob \<and> online_users bob_chat ''bob'' = Some 0 \<and> chat_wf bob_chat"
  using login_exact[OF sample_chat_wf sample_chat(7,1), of sample_pb "''bob''"] sample_chat(5)
  by (simp add: bob_chat_def bob_def)

lemma bob_chat:
  "chat_wf bob_chat" "sessions bob_chat 0 = Some bob" "online_users bob_chat = [''bob'' \<mapsto> 0]" "rooms bob_chat = (\<lambda>_. None)"
  "chat_open bob_chat 0" "is_logged_in bob" "username bob = ''bob''" "current_room bob = ''''"
proof -
  have s: "cid < nconns sample_chat \<Longrightarrow> cid = 0" for cid using sample_chat(2) by simp
  have ng: "\<not> gone sample_chat 0" "0 < nconns sample_chat" using open_not_gone[OF sample_chat(7)] by simp_all
  show "chat_wf bob_chat" unfolding bob_chat_def by (rule HandleLogin_wf[OF sample_chat_wf ng(2,1) sample_chat(1)])
  show "sessions bob_chat 0 = Some bob" "online_users bob_chat = [''bob'' \<mapsto> 0]" "rooms bob_chat = (\<lambda>_. None)"
    using HandleLogin_view[OF ng(2), where pb = sample_pb and s = "new_session 0" and name = "''bob''"] sample_chat(5,6)
    by (simp_all add: bob_chat_def bob_def)
  show "chat_open bob_chat 0" using sample_chat(7) by (simp add: bob_chat_def HandleLogin_def Let_def)
  show "is_logged_in bob" "username bob = ''bob''" "current_room bob = ''''"
    by (simp_all add: bob_def new_session_def)
qed



section \<open>Messages to a user and to a room\<close>

text \<open>C15: A private message of a logged-in client reaches exactly the connection its target is mapped to, and
  the sender gets a confirmation; for an unknown target the sender gets an error. Nobody else
  gets anything, and a client that is not logged in gets no reaction at all.\<close>

theorem private_chat_exact:
  fixes pb :: protobuf and s :: chat_session and target body :: string and cid :: conn_id and time :: u64
  assumes "chat_wf app"
  defines "app' \<equiv> HandlePrivateChat pb time cid s target body app"
  shows "chat_wf app' \<and> sessions app' = sessions app \<and> online_users app' = online_users app \<and> rooms app' = rooms app \<and>
    chat_stream app' d = chat_stream app d @
      (if \<not> is_logged_in s then []
       else case online_users app target of
           None \<Rightarrow> copies app d (if d = cid then 1 else 0) (pb_encode (ser pb) (ErrorResponse (''User '' @ target @ '' not found.'')))
         | Some t \<Rightarrow> copies app d (if d = t then 1 else 0) (pb_encode (ser pb) (PrivateChatIncoming (username s) body time)) @
             copies app d (if d = cid then 1 else 0) (pb_encode (ser pb)
               (ChatBroadcast ''Server'' (''Message sent to ['' @ target @ '']: '' @ body) '''' 0)))"
proof -
  have "chat_wf app'" unfolding app'_def by (rule HandlePrivateChat_wf[OF assms(1)])
  moreover have c: "copies (SendProto pb t m app) d n p = copies app d n p" for t m n p by (rule copies_cong) simp
  moreover have "chat_stream app' d = chat_stream app d @
      (if \<not> is_logged_in s then []
       else case online_users app target of
           None \<Rightarrow> copies app d (if d = cid then 1 else 0) (pb_encode (ser pb) (ErrorResponse (''User '' @ target @ '' not found.'')))
         | Some t \<Rightarrow> copies app d (if d = t then 1 else 0) (pb_encode (ser pb) (PrivateChatIncoming (username s) body time)) @
             copies app d (if d = cid then 1 else 0) (pb_encode (ser pb)
               (ChatBroadcast ''Server'' (''Message sent to ['' @ target @ '']: '' @ body) '''' 0)))"
    unfolding app'_def HandlePrivateChat_def Let_def
    by (cases "is_logged_in s"; cases "online_users app target") (simp_all only: SendProto_stream c if_True if_False simp_thms option.case append_assoc append_Nil2)
  ultimately show ?thesis using HandlePrivateChat_view by (auto simp: app'_def)
qed

theorem private_chat_exact_witness:
  "chat_stream (HandlePrivateChat sample_pb 0 0 bob ''bob'' ''hi'' bob_chat) 0 = chat_stream bob_chat 0 @
     pb_encode (ser sample_pb) (PrivateChatIncoming ''bob'' ''hi'' 0) @
     pb_encode (ser sample_pb) (ChatBroadcast ''Server'' ''Message sent to [bob]: hi'' '''' 0)"
  using private_chat_exact[OF bob_chat(1), of sample_pb 0 0 bob "''bob''" "''hi''" 0] bob_chat
  by (simp add: copies_def)

text \<open>C14: A message to the room reaches every session in that room, through the names under which the
  room knows its connection: the stream of each open connection grows by one packet per such name.
  A client that has logged in once gets exactly one copy if it is in the room and none otherwise.\<close>

theorem room_chat_exact:
  fixes pb :: protobuf and body :: string
  assumes "chat_wf app" "chat_open app cid" "sessions app cid = Some s"
    and "is_logged_in s" "current_room s = r" "r \<noteq> ''''"
  defines "app' \<equiv> HandleRoomChat pb cid s r body app"
    and "k \<equiv> reach (online_users app) (room_ref r (rooms app))"
  shows "chat_wf app' \<and>
    chat_stream app' d = chat_stream app d @ copies app d (k d) (pb_encode (ser pb) (ChatBroadcast (username s) body r 0)) \<and>
    (\<forall>t. live app d = Some t \<longrightarrow> current_room t = r \<longrightarrow> 1 \<le> k d) \<and>
    (\<forall>t. live app d = Some t \<longrightarrow> is_logged_in t \<longrightarrow> (\<forall>n. online_users app n = Some d \<longrightarrow> n = username t) \<longrightarrow>
       k d = (if current_room t = r then 1 else 0))"
proof -
  have o: "\<not> gone app cid" using open_not_gone[OF assms(2)] by simp
  note dir = chat_directory[OF assms(1)]
  have "1 \<le> k d" if t: "live app d = Some t" "current_room t = r" for t
  proof -
    obtain m where "m \<in> set (room_ref r (rooms app))" "online_users app m = Some d"
      using directoryD(2)[OF dir t(1)] t(2) assms(6) unfolding in_its_room_def by blast
    then show ?thesis unfolding k_def by (rule reach_pos)
  qed
  moreover have "k d = (if current_room t = r then 1 else 0)"
    if "live app d = Some t" "is_logged_in t" "\<And>n. online_users app n = Some d \<Longrightarrow> n = username t" for t
    using reach_once[OF dir that, of r] assms(6) by (simp add: k_def)
  moreover have "chat_wf app'" unfolding app'_def by (rule HandleRoomChat_wf[OF assms(1) o assms(3)])
  moreover have "chat_stream app' d = chat_stream app d @
      copies app d (k d) (pb_encode (ser pb) (ChatBroadcast (username s) body r 0))"
    unfolding app'_def k_def by (rule HandleRoomChat_stream[OF assms(4-6)])
  ultimately show ?thesis by blast
qed

text \<open>C13: Joining a room moves the session: it leaves the member set of its old room, which disappears
  when it becomes empty, and enters the new one; the members of the old room are told it has left and
  those of the new one that it has joined, never the client itself under its own name, which gets
  one answer. The empty name is the lobby.\<close>

theorem join_room_exact:
  fixes pb :: protobuf and room :: string
  assumes "chat_wf app" "chat_open app cid" "sessions app cid = Some s" "is_logged_in s"
  defines "app' \<equiv> HandleJoinRoom pb cid s room app" and "old \<equiv> current_room s" and "n \<equiv> username s"
  shows "chat_wf app' \<and> online_users app' = online_users app \<and>
    sessions app' = (sessions app)(cid \<mapsto> s\<lparr>current_room := room\<rparr>) \<and>
    set (room_ref r (rooms app')) = set (room_ref r (rooms app)) - {n} \<union> (if r = room \<and> room \<noteq> '''' then {n} else {}) \<and>
    chat_stream app' d = chat_stream app d @
      (if old = '''' then [] else copies app d (reach (online_users app) (removeAll n (room_ref old (rooms app))) d)
         (pb_encode (ser pb) (ChatBroadcast ''Server'' (n @ '' has left the room.'') old 0))) @
      (if room = '''' then [] else copies app d (reach (online_users app) (removeAll n (room_ref room (rooms app))) d)
         (pb_encode (ser pb) (ChatBroadcast ''Server'' (n @ '' has joined the room. '') room 0))) @
      copies app d (if d = cid then 1 else 0) (pb_encode (ser pb)
        (if room = '''' then ChatBroadcast ''Server'' ''You have entered the global room!'' '''' 0
         else ChatBroadcast ''Server'' (''You have joined room: '' @ room @ '' !!'') room 0))"
proof -
  have o: "cid < nconns app" "\<not> gone app cid" using open_not_gone[OF assms(2)] by simp_all
  note v = HandleJoinRoom_view[OF o(1), where pb = pb and s = s and new = room]
  note dir = chat_directory[OF assms(1)]
  have l: "live app cid = Some s" using live_sessions[OF o(2)] assms(3) by simp
  have only: "n \<in> set (room_ref q (rooms app)) \<Longrightarrow> q = old \<and> old \<noteq> ''''" for q
    using directoryD(2)[OF dir l] directory_room_ok[OF dir, of q] assms(4) by (force simp: in_its_room_def n_def old_def)
  have "set (room_ref r (rooms app')) = set (room_ref r (rooms app)) - {n} \<union> (if r = room \<and> room \<noteq> '''' then {n} else {})"
    using only[of r] v(5)[OF assms(4)] by (auto simp: app'_def n_def old_def Let_def split: if_splits)
  moreover have "chat_wf app'" unfolding app'_def by (rule HandleJoinRoom_wf[OF assms(1) o assms(3)])
  moreover note HandleJoinRoom_stream[OF assms(4), of pb cid room app d]
  ultimately show ?thesis using v(2) v(4)[OF assms(4)] by (simp only: app'_def n_def old_def)
qed

definition bob_in_room :: chat_app where
  "bob_in_room = HandleJoinRoom sample_pb 0 bob ''den'' bob_chat"

theorem join_room_exact_witness:
  "sessions bob_in_room 0 = Some (bob\<lparr>current_room := ''den''\<rparr>) \<and> set (room_ref ''den'' (rooms bob_in_room)) = {''bob''} \<and>
   chat_stream bob_in_room 0 = chat_stream bob_chat 0 @
     pb_encode (ser sample_pb) (ChatBroadcast ''Server'' ''You have joined room: den !!'' ''den'' 0)"
  using join_room_exact[OF bob_chat(1,5,2,6), of sample_pb "''den''" "''den''" 0] bob_chat
  by (simp add: bob_in_room_def reach_def room_ref_def copies_def)

theorem room_chat_exact_witness:
  "chat_stream (HandleRoomChat sample_pb 0 (bob\<lparr>current_room := ''den''\<rparr>) ''den'' ''hi'' bob_in_room) 0 =
     chat_stream bob_in_room 0 @ pb_encode (ser sample_pb) (ChatBroadcast ''bob'' ''hi'' ''den'' 0)"
proof -
  have o: "0 < nconns bob_chat" "\<not> gone bob_chat 0" using open_not_gone[OF bob_chat(5)] by simp_all
  have "chat_wf bob_in_room" unfolding bob_in_room_def by (rule HandleJoinRoom_wf[OF bob_chat(1) o bob_chat(2)])
  moreover have "sessions bob_in_room 0 = Some (bob\<lparr>current_room := ''den''\<rparr>)"
    using HandleJoinRoom_view(4)[OF o(1) bob_chat(6)] by (simp add: bob_in_room_def)
  moreover have op: "chat_open bob_in_room 0"
  proof -
    have "nconns bob_in_room = nconns bob_chat" "is_closed bob_in_room 0 = is_closed bob_chat 0"
      using HandleJoinRoom_view(1)[OF o(1)] o(1) by (simp_all add: bob_in_room_def conns_kept_def)
    then show ?thesis using bob_chat(5) by (simp add: chat_open_def server_live_def nconns_def is_closed_def)
  qed
  moreover have "online_users bob_in_room = online_users bob_chat" "rooms bob_in_room = add_member ''den'' ''bob'' (rooms bob_chat)"
    using HandleJoinRoom_view(2,5)[OF o(1)] bob_chat(6-8) by (simp_all add: bob_in_room_def)
  then have "reach (online_users bob_in_room) (room_ref ''den'' (rooms bob_in_room)) 0 = 1"
    by (simp add: bob_chat(3,4) add_member_def reach_def room_ref_def)
  ultimately show ?thesis
    using room_chat_exact[of bob_in_room 0 "bob\<lparr>current_room := ''den''\<rparr>" "''den''" sample_pb "''hi''" 0] bob_chat(6,7)
    by (simp add: copies_def)
qed

section \<open>Leaving, and talking to everybody\<close>

text \<open>C12: Processing the DISCONNECT of a logged-in client frees its name, takes it out of every room, tells
  the remaining members of its room, and forgets the session; rooms it leaves empty disappear, other
  names stay.\<close>

theorem disconnect_exact:
  fixes fl :: "rat \<Rightarrow> rat" and pb :: protobuf and now :: nat and time :: u64
  assumes "chat_wf app" "pending_events app = disconnect_event cid # q" "sessions app cid = Some s" "is_logged_in s"
  defines "app' \<equiv> logic_round fl pb now time app" and "r \<equiv> current_room s" and "n \<equiv> username s"
  shows "chat_wf app' \<and> pending_events app' = q \<and> live app' cid = None \<and>
    online_users app' = (online_users app)(n := None) \<and>
    (\<forall>x. set (room_ref x (rooms app')) = set (room_ref x (rooms app)) - {n} \<and> rooms app' x \<noteq> Some []) \<and>
    chat_stream app' d = chat_stream app d @ (if r = '''' then [] else
      copies app d (reach (online_users app') (removeAll n (room_ref r (rooms app))) d)
        (pb_encode (ser pb) (ChatBroadcast ''Server'' (n @ '' has left the room.'' @ [CHR 0x0A]) r 0)))"
proof -
  let ?q = "(event_queue (server app))\<lparr>queue := q\<rparr>"
  let ?app = "pop_event ?q app"
  have eq: "app' = HandleDisconnect pb cid ?app"
    using assms(2) by (simp add: app'_def logic_round_def pending_events_def sq_pop_def pop_event_def ProcessEvent_def)
  note p = pop_event_view[of ?q app]
  have wf: "chat_wf app'" unfolding app'_def using assms(1) by (rule logic_round_wf)
  have len: "cid < nconns ?app" using assms(3) p(2) by (auto simp: sessions_def split: if_splits)
  have "\<not> gone app cid" using assms(2) by (simp add: gone_def)
  then have l: "live app cid = Some s" using live_sessions assms(3) by simp
  note dir = directoryD[OF chat_directory[OF assms(1)]]
  have n: "n \<noteq> ''''" using dir(1)[OF l] assms(4) by (simp add: owns_name_def n_def)
  note v = HandleDisconnect_view[OF len, where pb = pb]
  have s: "sessions ?app cid = Some s" using assms(3) p(1) by simp
  have on: "online_users app' = (online_users app)(n := None)"
    and rs: "rooms app' = (if r \<noteq> '''' then drop_member r n (rooms app) else rooms app)"
    using v(4)[OF s assms(4)] n p(3,4) by (simp_all add: eq n_def r_def)
  have only: "n \<in> set (room_ref x (rooms app)) \<Longrightarrow> x = r \<and> r \<noteq> ''''" for x
    using dir(2)[OF l] directory_room_ok[OF chat_directory[OF assms(1)], of x] assms(4)
    by (force simp: in_its_room_def n_def r_def)
  have members: "set (room_ref x (rooms app')) = set (room_ref x (rooms app)) - {n}" for x
    using only[of x] rs by (auto split: if_splits)
  have nonempty: "rooms app' x \<noteq> Some []" for x
    using directoryD(4)[OF chat_directory[OF wf], of x "[]"] by (auto simp: room_ok_def)
  have sink: "chat_stream ?app e = chat_stream app e" "chat_open ?app e = chat_open app e" for e
    by (simp_all add: pop_event_def chat_stream_def chat_open_def server_stream_def server_live_def conn_at_def)
  have sess: "session_of cid ?app = Some s" using s by (simp add: sessions_def split: if_splits)
  have stream: "chat_stream app' d = chat_stream app d @ (if r = '''' then [] else
      copies app d (reach (online_users app') (removeAll n (room_ref r (rooms app))) d)
        (pb_encode (ser pb) (ChatBroadcast ''Server'' (n @ '' has left the room.'' @ [CHR 0x0A]) r 0)))"
    using sess assms(4) n p(3,4) sink on
    by (simp add: eq HandleDisconnect_def Let_def n_def[symmetric] r_def[symmetric] copies_def)
  have pend: "pending_events app' = q"
    using conns_kept_pending[OF v(2)] p(6) by (simp add: eq)
  have "is_closed app cid"
    using assms(1,2) history_head[of "server app" _ "disconnect_event cid" q] unfolding chat_wf_def is_closed_def by auto
  moreover have "DISCONNECT \<notin> set (conn_history cid q)"
    using assms(1,2) history_head[of "server app" _ "disconnect_event cid" q] unfolding chat_wf_def by auto
  moreover have "is_closed app' cid = is_closed app cid"
    using v(2) len p(5) by (simp add: eq conns_kept_def)
  ultimately have "live app' cid = None" by (simp add: live_def gone_def pend)
  then show ?thesis using wf pend on members nonempty stream by blast
qed

text \<open>C16: A message to the global chat, once the reactor has turned it into tasks and the workers have run
  them, is in the stream of every open connection whose queue has room, the sender's included,
  exactly once.\<close>

theorem global_chat_reaches_all:
  fixes body :: string and pb :: protobuf and time :: u64
  assumes "chat_wf app" "is_logged_in s" "d < nconns app"
    and "global_queue (server app) = []" "task_queue (threadpool (server app)) = []"
  defines "sv \<equiv> process_global_queue (server (HandleGlobalChat pb time s body app))"
  shows "server_stream (fold run_task (task_queue (threadpool sv)) sv) d = chat_stream app d @
    (if chat_open app d \<and> length (outgoing_queue (conn_at (server app) d)) < MAX_OUTGOING_QUEUE_SIZE
     then pb_encode (ser pb) (ChatBroadcast (username s) body '''' time) else [])"
proof -
  let ?p = "pb_encode (ser pb) (ChatBroadcast (username s) body '''' time)"
  let ?s = "server (HandleGlobalChat pb time s body app)"
  have s: "?s = Broadcast ?p (-1) (server app)"
    using assms(2) by (simp add: HandleGlobalChat_def BroadcastProto_def Let_def)
  have wf: "server_wf ?s" using HandleGlobalChat_wf[OF assms(1)] by (simp add: chat_wf_def)
  have q: "global_queue ?s = [\<lparr>sender_fd = -1, bpayload = ?p\<rparr>]" "task_queue (threadpool ?s) = []"
    and c: "conn_at ?s d = conn_at (server app) d" "d < length (store ?s)"
    using assms(3-5) by (simp_all add: s Broadcast_def conn_at_def nconns_def)
  have "out_stream (conn_at (fold run_task (task_queue (threadpool sv)) sv) d) = out_stream (conn_at ?s d) @
      (if closed (conn_at ?s d) then []
       else concat (map bpayload (take (MAX_OUTGOING_QUEUE_SIZE - length (outgoing_queue (conn_at ?s d)))
         (filter (\<lambda>evt. sender_fd evt = -1 \<or> sock (conn_at ?s d) \<noteq> sender_fd evt) (global_queue ?s)))))"
    unfolding sv_def using queued_broadcasts_delivered[OF wf _ q(2) c(2)] q(1) by simp
  then show ?thesis using assms(3) q(1) c(1)
    by (auto simp: server_stream_def chat_stream_def chat_open_def server_live_def nconns_def take_Cons')
qed

lemma bob_chat_queues:
  "global_queue (server bob_chat) = []" "task_queue (threadpool (server bob_chat)) = []" "nconns bob_chat = 1"
proof -
  obtain q where q: "queue q = []" and eq: "sample_chat = HandleConnect 0 0
     (fresh_chat\<lparr>server := (accept_one 0 8 sample_socket (server fresh_chat))\<lparr>event_queue := q\<rparr>\<rparr>)"
    using sample_chat_eq by blast
  have f: "threadpool (server fresh_chat) = tp_new" "global_queue (server fresh_chat) = []"
    using new_server_queues[OF fresh_chat_fields(1)] by simp_all
  have "threadpool (server sample_chat) = tp_new" "global_queue (server sample_chat) = []"
    by (simp_all add: eq HandleConnect_def set_session_def accept_one_def Let_def push_event_def upd_shard_def f)
  then show "global_queue (server bob_chat) = []" "task_queue (threadpool (server bob_chat)) = []"
    using sample_chat(5) by (simp_all add: bob_chat_def HandleLogin_def Let_def SendProto_def set_session_def
        SendPreEncoded_def tp_new_def)
  have "nconns bob_chat = nconns sample_chat"
    by (simp add: bob_chat_def HandleLogin_def Let_def)
  then show "nconns bob_chat = 1" using sample_chat(2) by simp
qed

theorem disconnect_exact_witness:
  "online_users (logic_round (\<lambda>x. x) sample_pb 5 0 (bob_chat\<lparr>server := Close 0 (server bob_chat)\<rparr>)) ''bob'' = None"
proof -
  let ?app = "bob_chat\<lparr>server := Close 0 (server bob_chat)\<rparr>"
  have o: "0 < nconns bob_chat" "\<not> is_closed bob_chat 0"
    using bob_chat(5) by (simp_all add: chat_open_def server_live_def nconns_def is_closed_def)
  have wf: "chat_wf ?app" by (rule Close_wf[OF bob_chat(1) o])
  have k: "conns_kept sample_chat bob_chat"
    unfolding bob_chat_def using HandleLogin_view(1)[of 0 sample_chat] sample_chat(2) by simp
  have p: "pending_events ?app = [disconnect_event 0]"
    using conns_kept_pending[OF k] sample_chat(4) o
    by (simp add: pending_events_def Close_def close_conn_open nconns_def is_closed_def sq_push_def)
  have s: "sessions ?app 0 = Some bob"
    using bob_chat(2) o close_conn_at[of 0 "server bob_chat" 0]
    by (auto simp: sessions_def session_of_def nconns_def Close_def shut_down_def split: if_splits)
  show ?thesis using disconnect_exact[OF wf p s bob_chat(6), of "\<lambda>x. x" sample_pb 5 0] bob_chat(7) by simp
qed

theorem global_chat_reaches_all_witness:
  "let sv = process_global_queue (server (HandleGlobalChat sample_pb 0 bob ''hi'' bob_chat))
   in server_stream (fold run_task (task_queue (threadpool sv)) sv) 0 = chat_stream bob_chat 0 @
     (if length (outgoing_queue (conn_at (server bob_chat) 0)) < 5000
      then pb_encode (ser sample_pb) (ChatBroadcast ''bob'' ''hi'' '''' 0) else [])"
  using global_chat_reaches_all[OF bob_chat(1,6), of 0 sample_pb 0 "''hi''"] bob_chat bob_chat_queues
  by (simp add: MAX_OUTGOING_QUEUE_SIZE_def Let_def)

end
