(* ===== verification/RateLimit.thy ===== *)
theory RateLimit
  imports ChatProperties
begin

text \<open>
  The token bucket of \<open>HandleMessage\<close>: what a too fast client is told, how many messages
  any client can get through in a window of time, and that a burst of sixty is always
  accepted. \<open>fl\<close> is the rounding of \<open>double\<close>. What is assumed of it holds of rounding to
  nearest with \<open>u\<close> the unit roundoff and no limit on the exponent; the values here are
  zero or between a nanosecond and the age of the clock, far from the limits of \<open>double\<close>.
\<close>

section \<open>Spending a token\<close>

definition spend :: "(rat \<Rightarrow> rat) \<Rightarrow> nat \<Rightarrow> chat_session \<Rightarrow> chat_session option" where
  "spend fl now s = (let r = refill fl now s
     in if tokens r < 1 then None else Some (r\<lparr>tokens := fl (tokens r - 1)\<rparr>))"

definition same_bucket :: "chat_session \<Rightarrow> chat_session \<Rightarrow> bool" where
  "same_bucket s t \<longleftrightarrow> tokens t = tokens s \<and> last_refill t = last_refill s"

lemma spend_same_bucket:
  "same_bucket s t \<Longrightarrow> (spend fl now s = None \<longleftrightarrow> spend fl now t = None) \<and>
   (\<forall>s' t'. spend fl now s = Some s' \<longrightarrow> spend fl now t = Some t' \<longrightarrow> same_bucket s' t')"
  by (auto simp: spend_def refill_def Let_def same_bucket_def)

text \<open>The handlers do not touch the bucket and keep the connection.\<close>

lemma dispatch_keeps:
  assumes "chat_wf app" "chat_open app cid" "sessions app cid = Some s"
  shows "conns_kept app (dispatch pb time cid s msg app) \<and>
    (\<exists>t. sessions (dispatch pb time cid s msg app) cid = Some t \<and> same_bucket s t)"
proof -
  have o: "cid < nconns app" "\<not> gone app cid" using open_not_gone[OF assms(2)] by simp_all
  have r: "rooms app (current_room s) \<noteq> None \<or> current_room s = ''''"
    using room_exists[OF assms(1) o(2) assms(3)] by blast
  show ?thesis
  proof (cases msg)
    case (LoginRequest name)
    then show ?thesis using HandleLogin_view[OF o(1), where pb = pb and s = s and name = name] assms(3)
      by (cases "online_users app name \<noteq> None \<or> name = ''''") (auto simp: dispatch_def same_bucket_def)
  next
    case (JoinRoomRequest new)
    then show ?thesis using HandleJoinRoom_view[OF o(1), where pb = pb and s = s and new = new] assms(3)
      by (cases "is_logged_in s") (auto simp: dispatch_def same_bucket_def)
  qed (use assms(3) HandleGlobalChat_view HandlePrivateChat_view HandleRoomChat_view[OF r] in
      \<open>auto simp: dispatch_def same_bucket_def\<close>)
qed

lemma set_session_open: "cid < nconns app \<Longrightarrow> chat_open (set_session c s app) d \<longleftrightarrow> chat_open app d"
  by simp

lemma conns_kept_open: "conns_kept app app' \<Longrightarrow> cid < nconns app \<Longrightarrow> chat_open app' cid \<longleftrightarrow> chat_open app cid"
  by (auto simp: conns_kept_def chat_open_def server_live_def nconns_def is_closed_def)

text \<open>A parsed message either costs a token or the connection.\<close>

lemma HandleMessage_spend:
  fixes fl :: "rat \<Rightarrow> rat" and now :: nat and time :: u64
  assumes "chat_wf app" "chat_open app cid" "sessions app cid = Some s" "par pb raw = Some msg"
  defines "app' \<equiv> HandleMessage fl pb now time cid raw app"
  shows "case spend fl now s of None \<Rightarrow> \<not> chat_open app' cid
    | Some t \<Rightarrow> chat_open app' cid \<and> (\<exists>t'. sessions app' cid = Some t' \<and> same_bucket t t')"
proof -
  have o: "cid < nconns app" "\<not> gone app cid" using open_not_gone[OF assms(2)] by simp_all
  have so: "session_of cid app = Some s" using assms(3) o by (simp add: sessions_def)
  from so show ?thesis
  proof (cases rule: HandleMessage_cases[where fl = fl and pb = pb and now = now and time = time and raw = raw])
    case unparsed
    then show ?thesis using assms(4) by simp
  next
    case too_fast
    let ?a = "SendProto pb cid (ErrorResponse RATE_NOTICE) (set_session cid (refill fl now s) app)"
    have "closed (conn_at (Close cid (server ?a)) cid)"
      using close_conn_at[of cid "server ?a" cid] o(1) by (simp add: Close_def nconns_def[symmetric])
    then have "\<not> chat_open app' cid"
      by (simp add: app'_def too_fast(3) Let_def chat_open_def server_live_def)
    then show ?thesis using too_fast(2) by (simp add: spend_def Let_def)
  next
    case (handled msg t)
    let ?a = "set_session cid t app"
    have "chat_wf ?a"
      using set_session_wf[OF assms(1) o assms(3)] handled(3) by simp
    moreover have "chat_open ?a cid" "sessions ?a cid = Some t" using assms(2) o by simp_all
    ultimately have "conns_kept ?a app'" "\<exists>t'. sessions app' cid = Some t' \<and> same_bucket t t'"
      using dispatch_keeps[of ?a cid t pb time msg] by (simp_all add: app'_def handled(4))
    moreover have "chat_open app' cid" using conns_kept_open[of ?a app' cid] calculation(1) o(1) assms(2) by simp
    ultimately show ?thesis using handled(2,3) by (simp add: spend_def Let_def)
  qed
qed

lemma HandleMessage_nconns:
  assumes "chat_wf app" "chat_open app cid" "sessions app cid = Some s"
  shows "nconns (HandleMessage fl pb now time cid raw app) = nconns app"
proof -
  have o: "cid < nconns app" "\<not> gone app cid" using open_not_gone[OF assms(2)] by simp_all
  have so: "session_of cid app = Some s" using assms(3) o by (simp add: sessions_def)
  from so show ?thesis
  proof (cases rule: HandleMessage_cases[where fl = fl and pb = pb and now = now and time = time and raw = raw])
    case too_fast
    then show ?thesis by (simp add: Let_def nconns_def Close_def) (simp add: SendProto_view flip: nconns_def)
  next
    case (handled msg t)
    let ?a = "set_session cid t app"
    have "chat_wf ?a" using set_session_wf[OF assms(1) o assms(3)] handled(3) by simp
    then have "conns_kept ?a (dispatch pb time cid t msg ?a)"
      using dispatch_keeps[of ?a cid t pb time msg] assms(2) o by simp
    then show ?thesis by (simp add: handled(4) conns_kept_def)
  qed simp
qed

section \<open>A client's messages in a row\<close>

fun serve :: "(rat \<Rightarrow> rat) \<Rightarrow> protobuf \<Rightarrow> conn_id \<Rightarrow> (nat \<times> u64 \<times> byte list) list \<Rightarrow> chat_app \<Rightarrow> chat_app" where
  "serve fl pb cid [] app = app"
| "serve fl pb cid ((now, time, raw) # ms) app =
     serve fl pb cid ms (ProcessEvent fl pb now time (message_event cid raw) app)"

fun spend_all :: "(rat \<Rightarrow> rat) \<Rightarrow> nat list \<Rightarrow> chat_session \<Rightarrow> chat_session option" where
  "spend_all fl [] s = Some s"
| "spend_all fl (now # ts) s = Option.bind (spend fl now s) (spend_all fl ts)"

lemma ProcessEvent_message:
  "chat_open app cid \<Longrightarrow> ProcessEvent fl pb now time (message_event cid raw) app = HandleMessage fl pb now time cid raw app"
  by (simp add: ProcessEvent_def chat_open_def server_live_def message_event_def)

lemma serve_closed: "is_closed app cid \<Longrightarrow> serve fl pb cid ms app = app"
  by (induction ms) (auto simp: ProcessEvent_def is_closed_def message_event_def)

lemma spend_all_bucket:
  "same_bucket s t \<Longrightarrow> spend_all fl ts s = None \<longleftrightarrow> spend_all fl ts t = None"
proof (induction ts arbitrary: s t)
  case (Cons now ts)
  show ?case
    using spend_same_bucket[OF Cons.prems, of fl now] Cons.IH
    by (cases "spend fl now s"; cases "spend fl now t") auto
qed simp

lemma serve_spends:
  assumes "chat_wf app" "chat_open app cid" "sessions app cid = Some s" "\<forall>(_, _, raw)\<in>set ms. par pb raw \<noteq> None"
  shows "chat_open (serve fl pb cid ms app) cid \<longleftrightarrow> spend_all fl (map fst ms) s \<noteq> None"
  using assms
proof (induction ms arbitrary: app s)
  case (Cons m ms)
  obtain now time raw where m: "m = (now, time, raw)" by (cases m)
  obtain msg where p: "par pb raw = Some msg" using Cons.prems(4) m by auto
  let ?app = "HandleMessage fl pb now time cid raw app"
  have eq: "serve fl pb cid (m # ms) app = serve fl pb cid ms ?app"
    using Cons.prems(2) by (simp add: m ProcessEvent_message)
  have o: "cid < nconns app" "\<not> is_closed app cid"
    using Cons.prems(2) by (simp_all add: chat_open_def server_live_def nconns_def is_closed_def)
  have wf: "chat_wf ?app" by (rule HandleMessage_wf[OF Cons.prems(1) o])
  note h = HandleMessage_spend[OF Cons.prems(1-3) p, of fl now time]
  show ?case
  proof (cases "spend fl now s")
    case None
    have "cid < nconns ?app"
      using HandleMessage_nconns[OF Cons.prems(1-3)] o(1) by simp
    then have "is_closed ?app cid" using h None by (auto simp: chat_open_def server_live_def nconns_def is_closed_def)
    then show ?thesis using h None unfolding eq by (simp add: serve_closed m)
  next
    case (Some t)
    then obtain t' where t: "chat_open ?app cid" "sessions ?app cid = Some t'" "same_bucket t t'" using h by auto
    have "chat_open (serve fl pb cid ms ?app) cid \<longleftrightarrow> spend_all fl (map fst ms) t' \<noteq> None"
      by (rule Cons.IH[OF wf t(1,2)]) (use Cons.prems(4) in auto)
    then show ?thesis using spend_all_bucket[OF t(3)] Some unfolding eq by (simp add: m)
  qed
qed simp

section \<open>Bounds on the bucket\<close>

definition rounding :: "rat \<Rightarrow> (rat \<Rightarrow> rat) \<Rightarrow> bool" where
  "rounding u fl \<longleftrightarrow> 0 \<le> u \<and> u \<le> 1 / 100 \<and> (\<forall>x\<ge>0. 0 \<le> fl x \<and> fl x \<le> (1 + u) * x)"

definition seconds :: "nat \<Rightarrow> nat \<Rightarrow> rat" where
  "seconds a b = rat_of_int (int b - int a) / 1000000000"

lemma seconds_add: "seconds a b + seconds b c = seconds a c"
  by (simp add: seconds_def field_simps)

lemma seconds_pos: "a \<le> b \<Longrightarrow> 0 \<le> seconds a b"
  by (simp add: seconds_def)

lemma refill_tokens:
  "tokens (refill fl now s) = min 60 (fl (tokens s + fl (seconds (last_refill s) now)))"
  "last_refill (refill fl now s) = now"
  by (auto simp: refill_def Let_def elapsed_seconds_def seconds_def min_def)

lemma spend_bound:
  assumes r: "rounding u fl" and t: "0 \<le> tokens s" "tokens s \<le> 60" "last_refill s \<le> now"
    and sp: "spend fl now s = Some t"
  shows "0 \<le> tokens t \<and> tokens t \<le> 60 \<and> last_refill t = now \<and>
    tokens t + (1 - 119 * u) \<le> tokens s + (1 + u)\<^sup>2 * seconds (last_refill s) now"
proof -
  let ?e = "seconds (last_refill s) now" and ?a = "tokens (refill fl now s)"
  have u: "0 \<le> u" "u \<le> 1 / 100" and fl: "\<And>x. 0 \<le> x \<Longrightarrow> 0 \<le> fl x \<and> fl x \<le> (1 + u) * x"
    using r by (simp_all add: rounding_def)
  have e: "0 \<le> ?e" using t(3) by (rule seconds_pos)
  have a: "1 \<le> ?a" "t = (refill fl now s)\<lparr>tokens := fl (?a - 1)\<rparr>"
    using sp by (auto simp: spend_def Let_def split: if_splits)
  have "?a \<le> fl (tokens s + fl ?e)" "?a \<le> 60" by (simp_all add: refill_tokens)
  moreover have "fl (tokens s + fl ?e) \<le> (1 + u) * (tokens s + fl ?e)" using fl e t(1) by simp
  moreover have "(1 + u) * fl ?e \<le> (1 + u) * ((1 + u) * ?e)" using fl[OF e] u by (intro mult_left_mono) simp_all
  moreover have "u * tokens s \<le> u * 60" using t(2) u by (intro mult_left_mono) simp_all
  moreover have "fl (?a - 1) \<le> (1 + u) * (?a - 1)" "0 \<le> fl (?a - 1)" using fl a(1) by simp_all
  moreover have "u * ?a \<le> u * 60" using calculation(2) u by (intro mult_left_mono) simp_all
  ultimately show ?thesis
    using a(2) u by (simp add: refill_tokens(2) power2_eq_square algebra_simps)
qed

lemma spend_all_bound:
  assumes "rounding u fl" "0 \<le> tokens s" "tokens s \<le> 60" "sorted (last_refill s # ts)" "spend_all fl ts s = Some t"
  shows "of_nat (length ts) * (1 - 119 * u) \<le> tokens s + (1 + u)\<^sup>2 * seconds (last_refill s) (last (last_refill s # ts))"
  using assms(2-)
proof (induction ts arbitrary: s)
  case Nil
  then show ?case by (simp add: seconds_def)
next
  case (Cons now ts)
  obtain r where r: "spend fl now s = Some r" "spend_all fl ts r = Some t"
    using Cons.prems(4) by (auto simp: bind_eq_Some_conv)
  have b: "0 \<le> tokens r \<and> tokens r \<le> 60 \<and> last_refill r = now \<and>
      tokens r + (1 - 119 * u) \<le> tokens s + (1 + u)\<^sup>2 * seconds (last_refill s) now"
    by (rule spend_bound[OF assms(1) Cons.prems(1,2) _ r(1)]) (use Cons.prems(3) in simp)
  have "sorted (last_refill r # ts)" using b Cons.prems(3) by simp
  with Cons.IH[of r] b r(2) have
    "of_nat (length ts) * (1 - 119 * u) \<le> tokens r + (1 + u)\<^sup>2 * seconds now (last (now # ts))" by simp
  moreover have "seconds (last_refill s) (last (now # ts)) = seconds (last_refill s) now + seconds now (last (now # ts))"
    by (simp only: seconds_add)
  ultimately show ?case using b by (simp add: algebra_simps)
qed

text \<open>The other direction: small whole numbers are exact and rounding is monotone.\<close>

definition exact_small :: "(rat \<Rightarrow> rat) \<Rightarrow> bool" where
  "exact_small fl \<longleftrightarrow> mono fl \<and> (\<forall>n\<le>60. fl (of_nat n) = of_nat n)"

lemma spend_all_burst:
  assumes "exact_small fl" "sorted (last_refill s # ts)" "length ts \<le> n" "n \<le> 60" "of_nat n \<le> tokens s"
  shows "spend_all fl ts s \<noteq> None"
  using assms(2-)
proof (induction ts arbitrary: s n)
  case (Cons now ts)
  obtain k where k: "n = Suc k" using Cons.prems(2) by (cases n) simp_all
  have fl: "mono fl" "\<And>m. m \<le> 60 \<Longrightarrow> fl (of_nat m) = of_nat m" using assms(1) by (simp_all add: exact_small_def)
  let ?e = "seconds (last_refill s) now" and ?r = "refill fl now s"
  have "0 \<le> fl ?e" using monoD[OF fl(1), of 0 ?e] fl(2)[of 0] seconds_pos[of "last_refill s" now] Cons.prems(1) by simp
  then have "of_nat n \<le> tokens s + fl ?e" using Cons.prems(4) by simp
  then have "of_nat n \<le> fl (tokens s + fl ?e)" using monoD[OF fl(1)] fl(2)[OF Cons.prems(3)] by metis
  then have a: "of_nat n \<le> tokens ?r" using Cons.prems(3) by (simp add: refill_tokens)
  then have "of_nat k \<le> tokens ?r - 1" by (simp add: k)
  then have "fl (of_nat k) \<le> fl (tokens ?r - 1)" by (rule monoD[OF fl(1)])
  then have "of_nat k \<le> fl (tokens ?r - 1)" using fl(2)[of k] Cons.prems(3) k by simp
  moreover have "spend fl now s = Some (?r\<lparr>tokens := fl (tokens ?r - 1)\<rparr>)"
    using a k by (simp add: spend_def Let_def)
  ultimately show ?case using Cons.IH[of "?r\<lparr>tokens := fl (tokens ?r - 1)\<rparr>" k] Cons.prems(1-3) k
    by (simp add: refill_tokens)
qed simp

section \<open>Properties\<close>

text \<open>C11: The limit holds: a client that is still connected after \<open>n\<close> messages in a row, handled at times that
  do not go back, cannot have sent more than sixty messages plus one per second; the exact bound
  carries the error of rounded arithmetic, a relative 119 roundoffs.\<close>

theorem rate_limit_holds:
  assumes "rounding u fl" "chat_wf app" "chat_open app cid" "sessions app cid = Some s"
    and "0 \<le> tokens s" "tokens s \<le> 60" "sorted (last_refill s # map fst ms)"
    and "\<forall>(_, _, raw)\<in>set ms. par pb raw \<noteq> None" "chat_open (serve fl pb cid ms app) cid"
  shows "of_nat (length ms) * (1 - 119 * u) \<le>
    60 + (1 + u)\<^sup>2 * (rat_of_int (int (last (last_refill s # map fst ms)) - int (last_refill s)) / 1000000000)"
proof -
  obtain t where t: "spend_all fl (map fst ms) s = Some t"
    using serve_spends[OF assms(2-4,8)] assms(9) by blast
  show ?thesis
    using spend_all_bound[OF assms(1,5-7) t] assms(6) by (simp add: seconds_def)
qed

text \<open>A client with a full bucket may send sixty messages in any rhythm, as fast as it likes, without
  being disconnected.\<close>

theorem rate_limit_allows_burst:
  assumes "exact_small fl" "chat_wf app" "chat_open app cid" "sessions app cid = Some s"
    and "tokens s = 60" "sorted (last_refill s # map fst ms)" "length ms \<le> 60"
    and "\<forall>(_, _, raw)\<in>set ms. par pb raw \<noteq> None"
  shows "chat_open (serve fl pb cid ms app) cid"
  using serve_spends[OF assms(2-4,8), of fl] spend_all_burst[OF assms(1,6), of 60] assms(5,7) by simp

definition quiet_pb :: protobuf where
  "quiet_pb = \<lparr>ser = \<lambda>_. [], par = \<lambda>_. Some PayloadNotSet\<rparr>"

theorem rate_limit_allows_burst_witness:
  "chat_open (serve (\<lambda>x. x) quiet_pb 0 [(0, 0, []), (0, 0, [])] sample_chat) 0"
  by (rule rate_limit_allows_burst[OF _ sample_chat_wf sample_chat(7,1)])
    (simp_all add: exact_small_def mono_def new_session_def quiet_pb_def)

theorem rate_limit_holds_witness:
  "(2 :: rat) \<le> 60 + (rat_of_int (int 7 - int 0) / 1000000000) \<and>
   chat_open (serve (\<lambda>x. x) quiet_pb 0 [(0, 0, []), (7, 0, [])] sample_chat) 0"
proof -
  have ms: "\<forall>(_, _, raw)\<in>set [(0, 0, []), (7, 0, [])]. par quiet_pb raw \<noteq> None" by (simp add: quiet_pb_def)
  have o: "chat_open (serve (\<lambda>x. x) quiet_pb 0 [(0, 0, []), (7, 0, [])] sample_chat) 0"
    using serve_spends[OF sample_chat_wf sample_chat(7,1) ms, of "\<lambda>x. x"]
      spend_all_burst[of "\<lambda>x. x" "new_session 0" "[0, 7]" 60] by (simp add: exact_small_def mono_def new_session_def)
  show ?thesis
    using rate_limit_holds[OF _ sample_chat_wf sample_chat(7,1) _ _ _ ms o, of 0] o
    by (simp add: rounding_def new_session_def)
qed

text \<open>A client that is too fast is told so and closed: the notice is the last packet of its stream, the
  reactor's DISCONNECT is queued behind all other events, and the message itself has no effect.\<close>

theorem too_fast_closes:
  fixes fl :: "rat \<Rightarrow> rat" and now :: nat and time :: u64
  assumes "chat_wf app" "chat_open app cid" "sessions app cid = Some s" "par pb raw = Some msg"
    and "tokens (refill fl now s) < 1"
  defines "app' \<equiv> ProcessEvent fl pb now time (message_event cid raw) app"
  shows "chat_wf app' \<and> \<not> chat_open app' cid \<and>
    chat_stream app' cid = chat_stream app cid @ pb_encode (ser pb) (ErrorResponse RATE_NOTICE) \<and>
    pending_events app' = pending_events app @ [disconnect_event cid] \<and>
    online_users app' = online_users app \<and> rooms app' = rooms app"
proof -
  let ?b = "set_session cid (refill fl now s) app"
  let ?a = "SendProto pb cid (ErrorResponse RATE_NOTICE) ?b"
  have o: "cid < nconns app" "\<not> gone app cid" "\<not> is_closed app cid"
    using open_not_gone[OF assms(2)] assms(2) by (simp_all add: chat_open_def server_live_def is_closed_def)
  have so: "session_of cid app = Some s" using assms(3) o by (simp add: sessions_def)
  have eq: "app' = ?a\<lparr>server := Close cid (server ?a)\<rparr>"
    using so assms(4,5)
    by (simp add: app'_def ProcessEvent_message[OF assms(2)] HandleMessage_def pb_decode_data_def Let_def)
  have k: "conns_kept app ?a" by (rule conns_kept_trans[OF set_session_kept SendProto_kept])
  have op: "\<not> closed (conn_at (server ?a) cid)" "cid < length (store (server ?a))"
    using conns_kept_open[OF k o(1)] assms(2) by (simp_all add: chat_open_def server_live_def)
  have wf: "chat_wf app'"
    using HandleMessage_wf[OF assms(1) o(1,3)] by (simp add: app'_def ProcessEvent_message[OF assms(2)])
  have "chat_stream app' cid = chat_stream ?a cid"
    using close_conn_at[OF op(2), of cid]
    by (simp add: eq chat_stream_def server_stream_def Close_def shut_down_def out_stream_def)
  moreover have "chat_stream ?a cid = chat_stream app cid @ pb_encode (ser pb) (ErrorResponse RATE_NOTICE)"
    using assms(2) by (simp add: copies_def)
  moreover have "pending_events app' = pending_events ?a @ [disconnect_event cid]"
    using op by (simp add: eq pending_events_def Close_def close_conn_open sq_push_def)
  moreover have "\<not> chat_open app' cid"
    using close_conn_at[OF op(2), of cid] op by (simp add: eq chat_open_def server_live_def Close_def)
  ultimately show ?thesis using wf conns_kept_pending[OF k] by (simp add: eq)
qed

theorem too_fast_closes_witness:
  "\<not> chat_open (ProcessEvent (\<lambda>x. x) quiet_pb 0 0 (message_event 0 []) (set_session 0 ((new_session 0)\<lparr>tokens := 0\<rparr>) sample_chat)) 0"
proof -
  let ?s = "(new_session 0)\<lparr>tokens := 0\<rparr>"
  have o: "0 < nconns sample_chat" "\<not> gone sample_chat 0" using open_not_gone[OF sample_chat(7)] by simp_all
  have "chat_wf (set_session 0 ?s sample_chat)"
    by (rule set_session_wf[OF sample_chat_wf o sample_chat(1)]) (simp add: same_identity_def)
  moreover have "chat_open (set_session 0 ?s sample_chat) 0" using sample_chat(7) by simp
  moreover have "sessions (set_session 0 ?s sample_chat) 0 = Some ?s" using o(1) by simp
  ultimately show ?thesis
    using too_fast_closes[of "set_session 0 ?s sample_chat" 0 ?s quiet_pb "[]" PayloadNotSet "\<lambda>x. x" 0 0]
    by (simp add: quiet_pb_def refill_tokens seconds_def new_session_def)
qed

end
