(* ===== verification/Client.thy ===== *)
theory Client
  imports ChatApp
begin

text \<open>
  The terminal client: \<open>v4/client.cpp\<close> with \<open>v4/client.h\<close>. Its three loops are modelled one
  by one (their interleaving is in \<open>ClientThreads\<close>): what the keyboard does to the line and
  to the socket, what arrives on the socket, and what is printed. \<open>sent\<close> is what the kernel
  has taken from the client's \<open>send\<close> calls, \<open>screen\<close> what went to \<open>std::cout\<close>. Polling
  results, keys and the bytes of the server are arguments. Terminal modes are left out.
\<close>

section \<open>State\<close>

record client_codec =
  cser :: "client_message \<Rightarrow> byte list"
  cpar :: "byte list \<Rightarrow> server_message option"

record client =
  sock_fd :: int
  csig_fd :: int
  my_name :: string
  my_room :: string
  prompt :: string
  current_line :: string
  in_ring :: ring_buffer
  message_queue :: "string safe_queue"
  client_running :: bool
  sent :: "byte list"
  screen :: string
  closed_socks :: "int list"

definition NEWLINE :: char where "NEWLINE = CHR 0x0A"
definition RETURN :: char where "RETURN = CHR 0x0D"

text \<open>The sequence that erases the current line of the terminal.\<close>

definition ERASE :: string where "ERASE = [CHR 0x0D, CHR 0x1B] @ ''[K''"

definition print :: "string \<Rightarrow> client \<Rightarrow> client" where
  "print s c = c\<lparr>screen := screen c @ s\<rparr>"

section \<open>Setup and end\<close>

definition setup_client_signalfd :: "bool \<Rightarrow> int \<Rightarrow> client \<Rightarrow> client option" where
  "setup_client_signalfd mask_ok fd c =
     (if \<not> mask_ok then None
      else let c1 = c\<lparr>csig_fd := fd\<rparr> in if csig_fd c1 = -1 then None else Some c1)"

definition new_client :: "bool \<Rightarrow> int \<Rightarrow> client option" where
  "new_client mask_ok fd = setup_client_signalfd mask_ok fd
     \<lparr>sock_fd = -1, csig_fd = -1, my_name = '''', my_room = '''', prompt = '''', current_line = '''',
      in_ring = rb_new 8192, message_queue = sq_new, client_running = True, sent = [], screen = '''',
      closed_socks = []\<rparr>"

definition connect_to_server :: "bool \<Rightarrow> int \<Rightarrow> bool \<Rightarrow> client \<Rightarrow> bool \<times> client" where
  "connect_to_server getaddrinfo_ok fd connect_ok c =
     (if \<not> getaddrinfo_ok then (False, c)
      else let c1 = c\<lparr>sock_fd := fd\<rparr>
           in if sock_fd c1 < 0 then (False, c1\<lparr>closed_socks := closed_socks c1 @ [sock_fd c1]\<rparr>)
              else if \<not> connect_ok
              then (False, c1\<lparr>closed_socks := closed_socks c1 @ [sock_fd c1], sock_fd := -1\<rparr>)
              else (True, c1))"

text \<open>\<open>stop\<close> without the joins of the two threads.\<close>

definition client_stop :: "client \<Rightarrow> client" where
  "client_stop c =
     (if \<not> client_running c then c
      else c\<lparr>client_running := False, message_queue := sq_stop (message_queue c)\<rparr>)"

definition close_fds :: "client \<Rightarrow> client" where
  "close_fds c =
     (let c0 = client_stop c;
          c1 = (if sock_fd c0 \<noteq> -1 then c0\<lparr>closed_socks := closed_socks c0 @ [sock_fd c0], sock_fd := -1\<rparr> else c0)
      in if csig_fd c1 \<noteq> -1 then c1\<lparr>closed_socks := closed_socks c1 @ [csig_fd c1], csig_fd := -1\<rparr> else c1)"

section \<open>Logging in\<close>

text \<open>
  \<open>stream\<close> is what the server sends until it closes: a \<open>recv\<close> with \<open>MSG_WAITALL\<close> returns
  less than it was asked for only at the end. The client answers with one packet and takes
  the first one that comes back for the answer.
\<close>

definition login_reply :: "client_codec \<Rightarrow> byte list \<Rightarrow> server_message option" where
  "login_reply cc stream =
     (let header = take 4 stream
      in if length header \<noteq> 4 then None
         else let len = unat (ntohl_bytes header);
                  buf = take len (drop 4 stream)
              in if length buf \<noteq> len then None else cpar cc buf)"

definition login :: "client_codec \<Rightarrow> string \<Rightarrow> bool \<Rightarrow> byte list \<Rightarrow> client \<Rightarrow> bool \<times> client" where
  "login cc name send_ok stream c =
     (if name = '''' then (False, print ''Enter username: '' c)
      else let c1 = print ([NEWLINE] @ ''Logged in as '' @ name @ [NEWLINE]) (print ''Enter username: '' c);
               c2 = c1\<lparr>my_name := name\<rparr>;
               packet = pb_encode (cser cc) (LoginRequest name)
           in if \<not> send_ok then (False, c2)
              else let c3 = c2\<lparr>sent := sent c2 @ packet\<rparr>
                   in case login_reply cc stream of
                       None \<Rightarrow> (False, c3)
                     | Some resp \<Rightarrow>
                         (case resp of
                            LoginResponse success message \<Rightarrow>
                              if success then (True, c3\<lparr>prompt := ''['' @ name @ ''@Lobby]: ''\<rparr>)
                              else (False, print (''Login failed: '' @ message @ [NEWLINE]) c3)
                          | _ \<Rightarrow> (False, print (''Login failed: '' @ [NEWLINE]) c3)))"

section \<open>The keyboard\<close>

text \<open>Reading a word from a \<open>stringstream\<close>, and the rest of its line.\<close>

definition is_space :: "char \<Rightarrow> bool" where
  "is_space ch \<longleftrightarrow> ch \<in> {CHR 0x20, CHR 0x09, CHR 0x0A, CHR 0x0B, CHR 0x0C, CHR 0x0D}"

definition next_word :: "string \<Rightarrow> string \<times> string" where
  "next_word ss = (let s = dropWhile is_space ss
     in (takeWhile (\<lambda>ch. \<not> is_space ch) s, dropWhile (\<lambda>ch. \<not> is_space ch) s))"

definition rest_of_line :: "string \<Rightarrow> string" where
  "rest_of_line ss = takeWhile (\<lambda>ch. ch \<noteq> NEWLINE) ss"

definition is_print :: "char \<Rightarrow> bool" where
  "is_print ch \<longleftrightarrow> 32 \<le> (of_char ch :: nat) \<and> (of_char ch :: nat) \<le> 126"

lemma is_print_not_control: "is_print ch \<Longrightarrow> ch \<noteq> NEWLINE \<and> ch \<noteq> RETURN \<and> ch \<noteq> CHR 0x7F \<and> ch \<noteq> CHR 0x08"
  by (auto simp: is_print_def NEWLINE_def RETURN_def)

text \<open>\<open>std::string::find\<close>, and what the servers of versions 2 and 3 answer to a name they take.\<close>

definition contains :: "string \<Rightarrow> string \<Rightarrow> bool" where
  "contains pat s \<longleftrightarrow> list_ex (\<lambda>i. take (length pat) (drop i s) = pat) [0..<Suc (length s)]"

definition ACCEPTED :: string where "ACCEPTED = ''Username accepted!''"

text \<open>A line that starts with a slash: the message to send, or the end.\<close>

datatype command = Send client_message | Nothing | Quit

definition slash_command :: "client \<Rightarrow> command \<times> client" where
  "slash_command c =
     (let (cmd, ss) = next_word (current_line c)
      in if cmd = ''/join'' then
           (let (room, _) = next_word ss
            in if room \<noteq> ''''
               then let c1 = c\<lparr>my_room := room\<rparr>
                    in (Send (JoinRoomRequest room), c1\<lparr>prompt := ''['' @ my_name c1 @ ''@'' @ my_room c1 @ '']: ''\<rparr>)
               else (Nothing, c))
         else if cmd = ''/leave'' then
           (Send (JoinRoomRequest ''''),
            print (''Switched to global chatroom.'' @ [NEWLINE])
              (c\<lparr>my_room := '''', prompt := ''['' @ my_name c @ ''@Lobby]: ''\<rparr>))
         else if cmd = ''/msg'' then
           (let (target, ss1) = next_word ss;
                body = rest_of_line ss1
            in if target \<noteq> '''' \<and> length body > 1 then (Send (PrivateChatRequest target (drop 1 body)), c)
               else (Nothing, c))
         else if cmd = ''/exit'' \<or> cmd = ''/quit'' then (Quit, c)
         else (Nothing, c))"

definition plain_line :: "client \<Rightarrow> command \<times> client" where
  "plain_line c =
     (Send (if my_room c = '''' then ChatRequest (current_line c)
            else RoomChatRequest (my_room c) (current_line c)), c)"

text \<open>\<open>taken\<close> is how many bytes the kernel takes; the result of \<open>send\<close> is not looked at.\<close>

definition client_send :: "client_codec \<Rightarrow> nat \<Rightarrow> client_message \<Rightarrow> client \<Rightarrow> client" where
  "client_send cc taken msg c = (let packet = pb_encode (cser cc) msg in c\<lparr>sent := sent c @ take taken packet\<rparr>)"

text \<open>The results are whether the loop is left, and the new state.\<close>

definition enter_line :: "client_codec \<Rightarrow> nat \<Rightarrow> client \<Rightarrow> bool \<times> client" where
  "enter_line cc taken c =
     (if current_line c = ''exit'' then (True, client_stop c)
      else if current_line c \<noteq> '''' then
        (case (if hd (current_line c) = CHR 0x2F then slash_command (print ERASE c) else plain_line (print ERASE c)) of
           (Quit, c1) \<Rightarrow> (True, client_stop c1)
         | (cmd, c1) \<Rightarrow>
             (let c2 = (case cmd of Send msg \<Rightarrow> client_send cc taken msg c1 | _ \<Rightarrow> c1);
                  c3 = c2\<lparr>current_line := ''''\<rparr>
              in (False, print (prompt c3) c3)))
      else (False, c))"

definition handle_key :: "client_codec \<Rightarrow> nat \<Rightarrow> char \<Rightarrow> client \<Rightarrow> bool \<times> client" where
  "handle_key cc taken ch c =
     (if ch = NEWLINE \<or> ch = RETURN then enter_line cc taken c
      else if ch = CHR 0x7F \<or> ch = CHR 0x08 then
        (False, if current_line c \<noteq> ''''
                then let c1 = c\<lparr>current_line := butlast (current_line c)\<rparr>
                     in print (ERASE @ prompt c1 @ current_line c1) c1
                else c)
      else if is_print ch then
        (False, print [ch] (c\<lparr>current_line := current_line c @ [ch]\<rparr>))
      else (False, c))"

text \<open>One \<open>poll\<close> and what it finds; a pending signal wins over the keyboard.\<close>

datatype key_event = PollFailed | Quiet | SignalReady | StdinEof | KeyReady char nat

fun input_loop :: "client_codec \<Rightarrow> key_event list \<Rightarrow> client \<Rightarrow> client" where
  "input_loop cc [] c = c"
| "input_loop cc (e # es) c =
     (if \<not> client_running c then c
      else case e of
          PollFailed \<Rightarrow> c
        | Quiet \<Rightarrow> input_loop cc es c
        | SignalReady \<Rightarrow> client_stop (print ([NEWLINE] @ ''Exiting...'' @ [NEWLINE]) c)
        | StdinEof \<Rightarrow> client_stop c
        | KeyReady ch taken \<Rightarrow>
            (let (leave, c1) = handle_key cc taken ch c in if leave then c1 else input_loop cc es c1))"

section \<open>The socket\<close>

definition message_text :: "server_message \<Rightarrow> string option" where
  "message_text msg = (case msg of
      ChatBroadcast sender body room _ \<Rightarrow>
        Some (if sender = ''Server'' then ''[Server]: '' @ body
              else let room_display = (if room = '''' then ''Lobby'' else room)
                   in ''['' @ sender @ ''@'' @ room_display @ '']: '' @ body)
    | PrivateChatIncoming sender body _ \<Rightarrow> Some (''[DM from '' @ sender @ '']: '' @ body)
    | ErrorResponse reason \<Rightarrow> Some (''[Error]: '' @ reason)
    | LoginResponse _ message \<Rightarrow> Some (''[Server]: '' @ message)
    | NoServerPayload \<Rightarrow> None)"

definition handle_server_message :: "server_message \<Rightarrow> client \<Rightarrow> client" where
  "handle_server_message msg c = (case message_text msg of
      None \<Rightarrow> c
    | Some s \<Rightarrow> c\<lparr>message_queue := sq_push s (message_queue c)\<rparr>)"

text \<open>The decode loop ends at the first packet that is incomplete or does not parse.\<close>

lemma pb_decode_shrinks: "pb_decode parse buf = (Some m, buf') \<Longrightarrow> rb_size buf' < rb_size buf"
  by (auto simp: pb_decode_def pb_decode_data_def rb_size_def dest: packet_decode_shrinks split: prod.splits option.splits)

function client_drain :: "(byte list \<Rightarrow> 'm option) \<Rightarrow> ring_buffer \<Rightarrow> 'm list \<times> ring_buffer" where
  "client_drain parse buf =
     (case pb_decode parse buf of
        (None, buf') \<Rightarrow> ([], buf')
      | (Some m, buf') \<Rightarrow> (let (ms, buf'') = client_drain parse buf' in (m # ms, buf'')))"
  by pat_completeness auto
termination
  by (relation "measure (\<lambda>(parse, buf). rb_size buf)") (auto dest: pb_decode_shrinks[OF sym])

declare client_drain.simps [simp del]

datatype rx_event = RxPollFailed | RxQuiet | RxHangup | RxReady "byte list" | RxEnd

text \<open>
  The receiving thread, as a function that may not return: it would spin on a ring without
  capacity. \<open>RxReady bs\<close> is a \<open>poll\<close> that finds \<open>bs\<close> to read; what does not fit stays
  for the next one. \<open>RxEnd\<close> is a read of nothing or an error.
\<close>

definition read_and_decode :: "client_codec \<Rightarrow> byte list \<Rightarrow> client \<Rightarrow> client" where
  "read_and_decode cc got c =
     (let (msgs, buf) = client_drain (cpar cc) (rb_readv got (in_ring c))
      in fold handle_server_message msgs (c\<lparr>in_ring := buf\<rparr>))"

partial_function (option) receive_loop :: "client_codec \<Rightarrow> rx_event list \<Rightarrow> client \<Rightarrow> client option" where
  "receive_loop cc es c =
     (if \<not> client_running c then Some c
      else case es of
          [] \<Rightarrow> Some c
        | e # es' \<Rightarrow>
            (case e of
               RxPollFailed \<Rightarrow> Some c
             | RxQuiet \<Rightarrow> receive_loop cc es' c
             | RxHangup \<Rightarrow> Some (c\<lparr>message_queue := sq_push ''Server connection lost.'' (message_queue c),
                                   client_running := False\<rparr>)
             | RxEnd \<Rightarrow> Some c
             | RxReady bs \<Rightarrow>
                 (let iovecs = rb_writeable_iovecs (in_ring c)
                  in if iovecs = [] then receive_loop cc es (c\<lparr>in_ring := rb_consume (rb_size (in_ring c)) (in_ring c)\<rparr>)
                     else let got = take (iov_total iovecs) bs; left = drop (iov_total iovecs) bs
                          in if got = [] then Some c
                             else receive_loop cc (if left = [] then es' else RxReady left # es')
                                    (read_and_decode cc got c))))"

section \<open>The printer\<close>

text \<open>One round of \<open>printer_loop\<close>, under the mutex of the terminal.\<close>

definition print_message :: "string \<Rightarrow> client \<Rightarrow> client" where
  "print_message msg c = print (prompt c @ current_line c) (print (ERASE @ msg @ [NEWLINE]) c)"

function printer_loop :: "client \<Rightarrow> bool \<times> client" where
  "printer_loop c =
     (case sq_pop (message_queue c) of
        (Popped msg, q) \<Rightarrow> printer_loop (print_message msg (c\<lparr>message_queue := q\<rparr>))
      | (Finished, q) \<Rightarrow> (True, c)
      | (Blocked, q) \<Rightarrow> (False, c))"
  by pat_completeness auto
termination
  by (relation "measure (\<lambda>c. length (queue (message_queue c)))")
    (auto simp: sq_pop_def print_message_def print_def split: if_splits)

declare printer_loop.simps [simp del]

end
