(* ===== verification/ClientThreads.thy ===== *)
theory ClientThreads
  imports Client Reachability
begin

text \<open>
  The three threads of the client (\<open>v4/client.cpp\<close>) and its destructor: how \<open>running_\<close>,
  the queue, the mutex of the terminal and the joins in \<open>stop\<close> work together. A key is
  handled under the mutex, and \<open>exit\<close>, \<open>/exit\<close> and \<open>/quit\<close> call \<open>stop\<close> there, so the
  thread waits for the printer with the mutex in its hands. What is printed and sent is in
  \<open>Client\<close>; here only who waits for whom.
\<close>

section \<open>States and steps\<close>

text \<open>The Boolean of a joining input thread tells whether it holds the mutex, that of a finished
  one whether it has joined the other two.\<close>

datatype input_pc = Polling | HasKey | JoinReceiver bool | JoinPrinter bool | InputDone bool
datatype receiver_pc = Receiving | ReceiverDone
datatype printer_pc = Popping | HasMessage string | PrinterDone

record threads =
  input :: input_pc
  receiver :: receiver_pc
  printer :: printer_pc
  mailbox :: "string safe_queue"
  is_running :: bool
  ui_locked :: bool

definition threads_init :: "threads \<Rightarrow> bool" where
  "threads_init s \<longleftrightarrow> s = \<lparr>input = Polling, receiver = Receiving, printer = Popping, mailbox = sq_new,
     is_running = True, ui_locked = False\<rparr>"

text \<open>\<open>stop\<close>, called with or without the mutex: it does nothing when the client is not running
  any more, otherwise it goes on to the joins.\<close>

definition call_stop :: "bool \<Rightarrow> threads \<Rightarrow> threads" where
  "call_stop locked s =
     (if \<not> is_running s then s\<lparr>input := InputDone False, ui_locked := (if locked then False else ui_locked s)\<rparr>
      else s\<lparr>input := JoinReceiver locked, is_running := False, mailbox := sq_stop (mailbox s)\<rparr>)"

inductive thread_step :: "threads \<Rightarrow> threads \<Rightarrow> bool" where
  key: "input s = Polling \<Longrightarrow> is_running s \<Longrightarrow> \<not> ui_locked s \<Longrightarrow>
     thread_step s (s\<lparr>input := HasKey, ui_locked := True\<rparr>)"
| key_done: "input s = HasKey \<Longrightarrow> thread_step s (s\<lparr>input := Polling, ui_locked := False\<rparr>)"
| key_exit: "input s = HasKey \<Longrightarrow> thread_step s (call_stop True s)"
| signal: "input s = Polling \<Longrightarrow> thread_step s (call_stop False s)"
| loop_ends: "input s = Polling \<Longrightarrow> \<not> is_running s \<Longrightarrow> thread_step s (s\<lparr>input := InputDone False\<rparr>)"
| joins_receiver: "input s = JoinReceiver l \<Longrightarrow> receiver s = ReceiverDone \<Longrightarrow>
     thread_step s (s\<lparr>input := JoinPrinter l\<rparr>)"
| joins_printer: "input s = JoinPrinter l \<Longrightarrow> printer s = PrinterDone \<Longrightarrow>
     thread_step s (s\<lparr>input := InputDone True, ui_locked := (if l then False else ui_locked s)\<rparr>)"
| message: "receiver s = Receiving \<Longrightarrow> thread_step s (s\<lparr>mailbox := sq_push m (mailbox s)\<rparr>)"
| lost: "receiver s = Receiving \<Longrightarrow>
     thread_step s (s\<lparr>mailbox := sq_push ''Server connection lost.'' (mailbox s), is_running := False,
       receiver := ReceiverDone\<rparr>)"
| receiver_ends: "receiver s = Receiving \<Longrightarrow> thread_step s (s\<lparr>receiver := ReceiverDone\<rparr>)"
| pops: "printer s = Popping \<Longrightarrow> sq_pop (mailbox s) = (Popped m, q) \<Longrightarrow>
     thread_step s (s\<lparr>printer := HasMessage m, mailbox := q\<rparr>)"
| prints: "printer s = HasMessage m \<Longrightarrow> \<not> ui_locked s \<Longrightarrow> thread_step s (s\<lparr>printer := Popping\<rparr>)"
| printer_ends: "printer s = Popping \<Longrightarrow> sq_pop (mailbox s) = (Finished, q) \<Longrightarrow>
     thread_step s (s\<lparr>printer := PrinterDone\<rparr>)"

text \<open>The destructor of a \<open>std::thread\<close> that is still joinable calls \<open>std::terminate\<close>.\<close>

datatype exit_kind = CleanExit | Terminated

definition destructor :: "threads \<Rightarrow> exit_kind option" where
  "destructor s = (case input s of InputDone j \<Rightarrow> Some (if j then CleanExit else Terminated) | _ \<Rightarrow> None)"

definition stuck :: "threads \<Rightarrow> bool" where
  "stuck s \<longleftrightarrow> (\<forall>s'. \<not> thread_step s s')"

section \<open>Invariant\<close>

text \<open>
  The mutex is held exactly by an input thread in its critical section (the printer's is
  one step), and once the input thread is past \<open>Polling\<close> with \<open>stop\<close> in effect, the queue
  is closed.
\<close>

definition threads_wf :: "threads \<Rightarrow> bool" where
  "threads_wf s \<longleftrightarrow>
     ui_locked s = (case input s of HasKey \<Rightarrow> True | JoinReceiver l \<Rightarrow> l | JoinPrinter l \<Rightarrow> l | _ \<Rightarrow> False) \<and>
     (case input s of
        JoinReceiver l \<Rightarrow> \<not> is_running s \<and> finished (mailbox s)
      | JoinPrinter l \<Rightarrow> \<not> is_running s \<and> finished (mailbox s) \<and> receiver s = ReceiverDone
      | InputDone True \<Rightarrow> receiver s = ReceiverDone \<and> printer s = PrinterDone
      | _ \<Rightarrow> printer s \<noteq> PrinterDone \<and> \<not> finished (mailbox s))"

lemmas threads_defs = threads_wf_def call_stop_def sq_push_def sq_stop_def sq_pop_def

interpretation client_inv: inductive_invariant threads_init thread_step threads_wf
proof
  show "threads_init s \<Longrightarrow> threads_wf s" for s
    by (simp add: threads_init_def threads_wf_def sq_new_def)
next
  fix s s' assume "threads_wf s" "thread_step s s'"
  from this(2,1) show "threads_wf s'"
    by (induction rule: thread_step.induct)
      (auto simp: threads_defs split: input_pc.splits bool.splits if_splits)
qed

section \<open>The deadlock\<close>

definition deadlock :: "string \<Rightarrow> threads" where
  "deadlock m = \<lparr>input = JoinPrinter True, receiver = ReceiverDone, printer = HasMessage m,
     mailbox = \<lparr>queue = [], finished = True\<rparr>, is_running = False, ui_locked = True\<rparr>"

inductive_simps step_join_printer: "thread_step
  \<lparr>input = JoinPrinter l, receiver = ReceiverDone, printer = HasMessage m, mailbox = q, is_running = r, ui_locked = u\<rparr> s'"

lemma deadlock_stuck: "stuck (deadlock m)"
  by (simp add: stuck_def deadlock_def step_join_printer)

lemma deadlock_reachable: "reachable threads_init thread_step (deadlock m)"
proof -
  let ?i = "\<lparr>input = Polling, receiver = Receiving, printer = Popping, mailbox = sq_new, is_running = True, ui_locked = False\<rparr>"
  let ?a = "?i\<lparr>mailbox := sq_push m sq_new\<rparr>"
  let ?b = "?i\<lparr>printer := HasMessage m\<rparr>"
  let ?c = "?b\<lparr>input := HasKey, ui_locked := True\<rparr>"
  let ?d = "call_stop True ?c"
  let ?e = "?d\<lparr>receiver := ReceiverDone\<rparr>"
  have "thread_step ?i ?a" using thread_step.message[of ?i m] by simp
  moreover have "thread_step ?a ?b" using thread_step.pops[of ?a m sq_new] by (simp add: sq_push_def sq_pop_def sq_new_def)
  moreover have "thread_step ?b ?c" using thread_step.key[of ?b] by simp
  moreover have "thread_step ?c ?d" using thread_step.key_exit[of ?c] by simp
  moreover have "thread_step ?d ?e" using thread_step.receiver_ends[of ?d] by (simp add: call_stop_def)
  moreover have "thread_step ?e (deadlock m)"
    using thread_step.joins_receiver[of ?e True] by (simp add: call_stop_def deadlock_def sq_new_def sq_stop_def)
  moreover have "reachable threads_init thread_step ?i" by (rule reachable_init) (simp add: threads_init_def)
  ultimately show ?thesis using reachable_step by metis
qed

section \<open>Properties\<close>



text \<open>C24: That deadlock happens: the user types \<open>exit\<close> while a message of the server has been taken off
  the queue but not printed. No thread can take a step any more, and the client never ends.\<close>

theorem client_exit_deadlocks:
  "reachable threads_init thread_step (deadlock m) \<and> stuck (deadlock m) \<and> destructor (deadlock m) = None"
  using deadlock_reachable deadlock_stuck by (simp add: destructor_def deadlock_def)

text \<open>When the connection is lost, the client does not end cleanly: once the receiver has reset
  \<open>running_\<close> while the input thread is in its loop, every way out leaves both threads unjoined, so that
  their destructors terminate the program.\<close>

theorem lost_connection_aborts:
  assumes "input s = Polling \<or> input s = HasKey" "\<not> is_running s" "thread_step\<^sup>*\<^sup>* s s'"
  shows "destructor s' = None \<or> destructor s' = Some Terminated"
proof -
  have "\<not> is_running s' \<and> input s' \<in> {Polling, HasKey, InputDone False}"
    using assms(3)
  proof (induction rule: rtranclp_induct)
    case base
    then show ?case using assms(1,2) by auto
  next
    case (step y z)
    from step.hyps(2) step.IH show ?case
      by (induction rule: thread_step.induct) (auto simp: call_stop_def)
  qed
  then show ?thesis by (auto simp: destructor_def)
qed

theorem lost_connection_aborts_witness:
  "\<exists>s'. reachable threads_init thread_step s' \<and> destructor s' = Some Terminated"
proof -
  let ?i = "\<lparr>input = Polling, receiver = Receiving, printer = Popping, mailbox = sq_new, is_running = True, ui_locked = False\<rparr>"
  let ?l = "?i\<lparr>mailbox := sq_push ''Server connection lost.'' sq_new, is_running := False, receiver := ReceiverDone\<rparr>"
  let ?e = "?l\<lparr>input := InputDone False\<rparr>"
  have lost: "thread_step ?i ?l" using thread_step.lost[of ?i] by simp
  have out: "thread_step ?l ?e" using thread_step.loop_ends[of ?l] by simp
  have "reachable threads_init thread_step ?i" by (rule reachable_init) (simp add: threads_init_def)
  then have "reachable threads_init thread_step ?l" using lost by (rule reachable_step[where step = thread_step])
  then have "reachable threads_init thread_step ?e" using out by (rule reachable_step[where step = thread_step])
  moreover have "thread_step\<^sup>*\<^sup>* ?l ?e" by (rule r_into_rtranclp[where r = thread_step, OF out])
  then have "destructor ?e = Some Terminated"
    using lost_connection_aborts[of ?l ?e] by (simp add: destructor_def)
  ultimately show ?thesis by blast
qed

end
