(* ===== verification/ClientProperties.thy ===== *)
theory ClientProperties
  imports Client
begin

text \<open>
  What the client does with its input: lines typed become packets the server's codec takes
  apart again, packets received become lines on the terminal, and the login is decided by
  the first packet that comes back.
\<close>

section \<open>Typing\<close>

definition keys :: "nat \<Rightarrow> string \<Rightarrow> key_event list" where
  "keys taken line = map (\<lambda>ch. KeyReady ch taken) line @ [KeyReady NEWLINE taken]"

text \<open>A line that is neither empty, nor a command, nor \<open>exit\<close>, of printable characters.\<close>

definition plain :: "string \<Rightarrow> bool" where
  "plain line \<longleftrightarrow> line \<noteq> '''' \<and> line \<noteq> ''exit'' \<and> hd line \<noteq> CHR 0x2F \<and> list_all is_print line"

lemma type_line:
  assumes "list_all is_print line" "client_running c"
  shows "input_loop cc (map (\<lambda>ch. KeyReady ch taken) line @ es) c =
    input_loop cc es (c\<lparr>current_line := current_line c @ line, screen := screen c @ line\<rparr>)"
  using assms
proof (induction line arbitrary: c)
  case (Cons ch line)
  have "handle_key cc taken ch c = (False, print [ch] (c\<lparr>current_line := current_line c @ [ch]\<rparr>))"
    using is_print_not_control[of ch] Cons.prems(1) by (simp add: handle_key_def)
  then show ?case using Cons by (simp add: print_def)
qed simp

definition line_message :: "string \<Rightarrow> string \<Rightarrow> client_message" where
  "line_message room line = (if room = '''' then ChatRequest line else RoomChatRequest room line)"

text \<open>What entering a line does, apart from the terminal.\<close>

lemma input_loop_line:
  assumes "list_all is_print line" "client_running c" "current_line c = ''''"
    and "enter_line cc taken (c\<lparr>current_line := line, screen := screen c @ line\<rparr>) = (False, c')"
  shows "input_loop cc (keys taken line @ es) c = input_loop cc es c'"
  using type_line[OF assms(1,2), of cc taken "KeyReady NEWLINE taken # es"] assms(2-4)
  by (simp add: keys_def handle_key_def)

lemma send_all: "length (cser cc msg) + 4 \<le> taken \<Longrightarrow> sent (client_send cc taken msg c) = sent c @ frame (cser cc msg)"
  by (simp add: client_send_def Let_def pb_encode_frame frame_def)

lemma client_send_fields [simp]:
  "my_room (client_send cc taken msg c) = my_room c" "my_name (client_send cc taken msg c) = my_name c"
  "client_running (client_send cc taken msg c) = client_running c" "prompt (client_send cc taken msg c) = prompt c"
  "screen (client_send cc taken msg c) = screen c" "current_line (client_send cc taken msg c) = current_line c"
  "message_queue (client_send cc taken msg c) = message_queue c"
  by (simp_all add: client_send_def Let_def)

lemma print_fields [simp]:
  "sent (print s c) = sent c" "my_room (print s c) = my_room c" "my_name (print s c) = my_name c"
  "client_running (print s c) = client_running c" "prompt (print s c) = prompt c" "current_line (print s c) = current_line c"
  "message_queue (print s c) = message_queue c"
  by (simp_all add: print_def)

lemma enter_send:
  assumes "current_line c \<noteq> ''''" "current_line c \<noteq> ''exit''" "length (cser cc msg) + 4 \<le> taken"
    and "(if hd (current_line c) = CHR 0x2F then slash_command (print ERASE c) else plain_line (print ERASE c)) = (Send msg, c1)"
    and "sent c1 = sent c" "client_running c1 = client_running c"
  shows "\<exists>c'. enter_line cc taken c = (False, c') \<and> sent c' = sent c @ frame (cser cc msg) \<and> current_line c' = '''' \<and>
    client_running c' = client_running c \<and> my_room c' = my_room c1 \<and> my_name c' = my_name c1"
  using assms(1,2,4-6) send_all[OF assms(3), of c1] unfolding enter_line_def by (simp add: Let_def)

lemma type_plain:
  assumes "plain line" "client_running c" "current_line c = ''''"
  defines "msg \<equiv> line_message (my_room c) line"
  assumes "length (cser cc msg) + 4 \<le> taken"
  shows "\<exists>c'. input_loop cc (keys taken line @ es) c = input_loop cc es c' \<and> sent c' = sent c @ frame (cser cc msg) \<and>
    current_line c' = '''' \<and> client_running c' \<and> my_room c' = my_room c"
proof -
  let ?c = "c\<lparr>current_line := line, screen := screen c @ line\<rparr>"
  have p: "current_line ?c \<noteq> ''''" "current_line ?c \<noteq> ''exit''" "list_all is_print line"
    "(if hd (current_line ?c) = CHR 0x2F then slash_command (print ERASE ?c) else plain_line (print ERASE ?c)) =
       (Send msg, print ERASE ?c)"
    using assms(1) by (simp_all add: plain_def plain_line_def msg_def line_message_def)
  obtain c' where c': "enter_line cc taken ?c = (False, c')" "sent c' = sent c @ frame (cser cc msg)"
    "current_line c' = ''''" "client_running c' = client_running c" "my_room c' = my_room c"
    using enter_send[OF p(1,2) assms(5) p(4)] by auto
  from input_loop_line[OF p(3) assms(2,3) c'(1)] c' assms(2) show ?thesis by auto
qed

lemma type_lines:
  assumes "list_all plain lines" "client_running c" "current_line c = ''''"
    and "list_all (\<lambda>line. length (cser cc (line_message (my_room c) line)) + 4 \<le> taken) lines"
  shows "sent (input_loop cc (concat (map (keys taken) lines)) c) =
    sent c @ concat (map (\<lambda>line. frame (cser cc (line_message (my_room c) line))) lines)"
  using assms
proof (induction lines arbitrary: c)
  case (Cons line lines)
  obtain c' where c': "input_loop cc (keys taken line @ concat (map (keys taken) lines)) c = input_loop cc (concat (map (keys taken) lines)) c'"
    "sent c' = sent c @ frame (cser cc (line_message (my_room c) line))"
    "current_line c' = ''''" "client_running c'" "my_room c' = my_room c"
    using type_plain[of line c cc taken "concat (map (keys taken) lines)"] Cons.prems by auto
  then show ?case using Cons.IH[of c'] Cons.prems by simp
qed simp

section \<open>Commands\<close>

definition word :: "string \<Rightarrow> bool" where
  "word w \<longleftrightarrow> w \<noteq> '''' \<and> list_all (\<lambda>ch. is_print ch \<and> \<not> is_space ch) w"

lemma next_word_word:
  assumes "word w" "list_all is_space pre" "rest = '''' \<or> is_space (hd rest)"
  shows "next_word (pre @ w @ rest) = (w, rest)"
proof -
  have d: "dropWhile is_space (pre @ w @ rest) = w @ rest"
    using assms(1,2) by (induction pre) (cases w; simp add: word_def)+
  have t: "takeWhile (\<lambda>ch. \<not> is_space ch) rest = ''''" "dropWhile (\<lambda>ch. \<not> is_space ch) rest = rest"
    using assms(3) by (cases rest; simp)+
  have "list_all (\<lambda>ch. \<not> is_space ch) w" using assms(1) by (auto simp: word_def list_all_iff)
  then show ?thesis using t
    by (simp add: next_word_def d Let_def takeWhile_append2 dropWhile_append2 list_all_iff)
qed

lemma space_facts [simp]: "is_space CHR 0x20" "is_print CHR 0x20"
  by (simp_all add: is_space_def is_print_def)

lemma list_all_isolate: "list_all (\<lambda>ch. is_print ch \<and> \<not> is_space ch) w \<Longrightarrow> list_all is_print w"
  by (auto simp: list_all_iff)

lemma word_print: "word w \<Longrightarrow> list_all is_print w"
  by (simp add: word_def list_all_isolate)

lemma printable_no_newline: "list_all is_print s \<Longrightarrow> rest_of_line s = s"
  using is_print_not_control by (auto simp: rest_of_line_def list_all_iff takeWhile_eq_all_conv)

lemma command_names: "word ''/join''" "word ''/leave''" "word ''/msg''"
  by (simp_all add: word_def is_print_def is_space_def)

text \<open>The words of a command line.\<close>

lemma words_of:
  assumes "word cmd" "word w" "rest = '''' \<or> is_space (hd rest)"
  shows "next_word (cmd @ '' '' @ w @ rest) = (cmd, '' '' @ w @ rest)" "next_word ('' '' @ w @ rest) = (w, rest)"
  using next_word_word[OF assms(1), of "[]" "'' '' @ w @ rest"] next_word_word[OF assms(2) _ assms(3), of "'' ''"]
  by simp_all

lemma slash_join:
  assumes "word room" "current_line c = ''/join'' @ '' '' @ room"
  shows "slash_command c = (Send (JoinRoomRequest room),
    c\<lparr>my_room := room, prompt := ''['' @ my_name c @ ''@'' @ room @ '']: ''\<rparr>)"
proof -
  have "room \<noteq> ''''" using assms(1) by (simp add: word_def)
  then show ?thesis
    using words_of[OF command_names(1) assms(1), of "''''"] by (simp add: slash_command_def assms(2))
qed

lemma slash_leave:
  assumes "current_line c = ''/leave''"
  shows "slash_command c = (Send (JoinRoomRequest ''''),
    print (''Switched to global chatroom.'' @ [NEWLINE]) (c\<lparr>my_room := '''', prompt := ''['' @ my_name c @ ''@Lobby]: ''\<rparr>))"
  using next_word_word[OF command_names(2), of "[]" "''''"] by (simp add: slash_command_def assms)

lemma slash_msg:
  assumes "word target" "list_all is_print body" "body \<noteq> ''''"
    and "current_line c = ''/msg'' @ '' '' @ target @ '' '' @ body"
  shows "slash_command c = (Send (PrivateChatRequest target body), c)"
proof -
  have "target \<noteq> ''''" using assms(1) by (simp add: word_def)
  moreover have "rest_of_line ('' '' @ body) = '' '' @ body" using assms(2) by (intro printable_no_newline) simp
  ultimately show ?thesis
    using words_of[OF command_names(3) assms(1), of "'' '' @ body"] assms(3)
    by (simp add: slash_command_def assms(4))
qed

text \<open>A typed command goes out as one packet.\<close>

lemma type_command:
  assumes "list_all is_print line" "hd line = CHR 0x2F" "line \<noteq> ''''" "client_running c" "current_line c = ''''"
    and "\<And>d. current_line d = line \<Longrightarrow> my_room d = my_room c \<Longrightarrow> \<exists>e. slash_command d = (Send msg, e) \<and>
      sent e = sent d \<and> client_running e = client_running d \<and> my_room e = room"
    and "length (cser cc msg) + 4 \<le> taken"
  shows "sent (input_loop cc (keys taken line) c) = sent c @ frame (cser cc msg) \<and> my_room (input_loop cc (keys taken line) c) = room"
proof -
  let ?c = "c\<lparr>current_line := line, screen := screen c @ line\<rparr>"
  obtain e where e: "slash_command (print ERASE ?c) = (Send msg, e)" "sent e = sent c" "client_running e = client_running c"
    "my_room e = room"
    using assms(6)[of "print ERASE ?c"] by auto
  have "line \<noteq> ''exit''" using assms(2) by auto
  then obtain c' where c': "enter_line cc taken ?c = (False, c')" "sent c' = sent c @ frame (cser cc msg)" "my_room c' = room"
    using enter_send[of ?c cc msg taken e] assms(2,3,7) e by auto
  from input_loop_line[OF assms(1,4,5) c'(1), of "[]"] c' show ?thesis by simp
qed

section \<open>Receiving\<close>

lemma client_drain_ok:
  assumes "list_all (\<lambda>p. parse p \<noteq> None) (fst (packet_drain buf))"
  shows "client_drain parse buf = (map (the \<circ> parse) (fst (packet_drain buf)), snd (packet_drain buf))"
  using assms
proof (induction buf rule: packet_drain.induct)
  case (1 buf)
  obtain r buf' where d: "packet_decode buf = (r, buf')" by force
  show ?case
  proof (cases r)
    case None
    with d show ?thesis by (simp add: client_drain.simps[of parse buf] packet_drain.simps[of buf] pb_decode_def)
  next
    case (Some p)
    then have pd: "packet_drain buf = (p # fst (packet_drain buf'), snd (packet_drain buf'))"
      using d by (simp add: packet_drain.simps[of buf] split: prod.split)
    then obtain m where m: "parse p = Some m" using "1.prems" by auto
    have "client_drain parse buf' = (map (the \<circ> parse) (fst (packet_drain buf')), snd (packet_drain buf'))"
      using "1.IH"[OF d[symmetric] Some] "1.prems" pd by simp
    then show ?thesis using d Some m pd
      by (simp add: client_drain.simps[of parse buf] pb_decode_def pb_decode_data_def)
  qed
qed

definition shown :: "client_codec \<Rightarrow> byte list list \<Rightarrow> string list" where
  "shown cc ps = List.map_filter (\<lambda>p. message_text (the (cpar cc p))) ps"

lemma shown_append [simp]: "shown cc (ps @ qs) = shown cc ps @ shown cc qs"
  by (simp add: shown_def map_filter_def)

lemma handle_messages_fields [simp]:
  "in_ring (fold handle_server_message ms c) = in_ring c"
  "client_running (fold handle_server_message ms c) = client_running c"
  "queue (message_queue (fold handle_server_message ms c)) =
     queue (message_queue c) @ List.map_filter message_text ms"
  by (induction ms arbitrary: c)
    (simp_all add: handle_server_message_def sq_push_def map_filter_def split: option.split)

definition chunk_size :: "byte list list \<Rightarrow> nat" where
  "chunk_size cs = sum_list (map (\<lambda>bs. Suc (length bs)) cs)"

lemma receive_loop_reassembles:
  assumes "client_running c" "rb_wf (in_ring c)" "parse_frame (rb_contents (in_ring c)) = Incomplete"
    and "list_all (fits (rb_capacity (in_ring c))) ps" "list_all (\<lambda>p. cpar cc p \<noteq> None) ps"
    and "[] \<notin> set chunks" "rb_contents (in_ring c) @ concat chunks = concat (map frame ps)"
  shows "\<exists>c'. receive_loop cc (map RxReady chunks) c = Some c' \<and>
    queue (message_queue c') = queue (message_queue c) @ shown cc ps \<and> rb_contents (in_ring c') = [] \<and> client_running c'"
  using assms
proof (induction "chunk_size chunks" arbitrary: c ps chunks rule: less_induct)
  case less
  let ?b = "in_ring c"
  have room: "0 < rb_room ?b" using less.prems(2,4,7,3) by (rule incomplete_has_room)
  show ?case
  proof (cases chunks)
    case Nil
    have "ps = []"
    proof (cases ps)
      case (Cons p qs)
      then have "rb_contents ?b = frame p @ concat (map frame qs)" "packet_ok p"
        using less.prems(4,7) Nil by (simp_all add: fits_def)
      then show ?thesis using less.prems(3) by (simp add: parse_frame_frame)
    qed simp
    then show ?thesis using Nil less.prems by (simp add: receive_loop.simps shown_def map_filter_def)
  next
    case (Cons bs cs)
    define got where "got = take (rb_room ?b) bs"
    define left where "left = drop (rb_room ?b) bs"
    define chunks' where "chunks' = (if left = [] then cs else left # cs)"
    have bs: "bs \<noteq> []" "got \<noteq> []" "bs = got @ left"
      using less.prems(6) Cons room by (auto simp: got_def left_def)
    have len: "length got \<le> rb_room ?b" by (simp add: got_def)
    have split: "(rb_contents ?b @ got) @ concat chunks' = concat (map frame ps)"
      using less.prems(7) Cons bs(3) by (cases "left = []") (simp_all add: chunks'_def)
    obtain got1 todo1 part where sp: "ps = got1 @ todo1" "rb_contents ?b @ got = concat (map frame got1) @ part"
      "packet_split part = None" "part @ concat chunks' = concat (map frame todo1)"
      using packet.prefix_encs[OF fits_packet_ok[OF less.prems(4)] split[symmetric]] by blast
    have ok: "list_all packet_ok got1" "list_all packet_ok todo1" "list_all (fits (rb_capacity ?b)) todo1"
      using less.prems(4) sp(1) fits_packet_ok by auto
    have inc: "parse_frame part = Incomplete" using ok(2) sp(4,3) by (rule prefix_incomplete)
    have pf: "parse_frames (rb_contents ?b @ got) = (got1, part)"
      unfolding sp(2) using ok(1) inc by (rule parse_frames_frames)
    let ?r = "rb_readv got ?b" and ?c = "read_and_decode cc got c"
    note put = ring.put_wf[OF less.prems(2) len] ring.put_contents[OF less.prems(2) len] rb_capacity_readv[OF less.prems(2) len]
    note drain = packet_drain_spec[OF put(1), unfolded put(2) pf]
    have "client_drain (cpar cc) ?r = (map (the \<circ> cpar cc) got1, snd (packet_drain ?r))"
      using client_drain_ok[of "cpar cc" ?r] drain(1) less.prems(5) sp(1) by simp
    then have c: "client_running ?c" "in_ring ?c = snd (packet_drain ?r)"
      "queue (message_queue ?c) = queue (message_queue c) @ shown cc got1"
      using less.prems(1) by (simp_all add: read_and_decode_def shown_def map_filter_def comp_def filter_map)
    have step: "receive_loop cc (map RxReady chunks) c = receive_loop cc (map RxReady chunks') ?c"
      using less.prems(1) room bs(2) Cons
      by (simp add: receive_loop.simps[of cc "RxReady bs # map RxReady cs" c] Let_def iovs_Nil_room iovs_room got_def left_def chunks'_def)
    have "length left < length bs" using bs(1) room by (simp add: left_def)
    then have "chunk_size chunks' < chunk_size chunks" unfolding Cons by (simp add: chunk_size_def chunks'_def)
    moreover have "[] \<notin> set chunks'" using less.prems(6) Cons by (simp add: chunks'_def)
    ultimately have "\<exists>c'. receive_loop cc (map RxReady chunks') ?c = Some c' \<and>
        queue (message_queue c') = queue (message_queue ?c) @ shown cc todo1 \<and> rb_contents (in_ring c') = [] \<and> client_running c'"
      using less.prems(5) sp(1,4) inc ok(3) drain(2-4) put(3) c by (intro less.hyps) simp_all
    then show ?thesis unfolding step using c(3) sp(1) by simp
  qed
qed

section \<open>Properties\<close>

definition ready_client :: client where
  "ready_client = \<lparr>sock_fd = 3, csig_fd = 4, my_name = ''bob'', my_room = '''', prompt = ''[bob@Lobby]: '', current_line = '''',
     in_ring = rb_new 8192, message_queue = sq_new, client_running = True, sent = [], screen = '''', closed_socks = []\<rparr>"



text \<open>The commands do what they say: \<open>/join\<close> asks for the room and makes it the current one, \<open>/leave\<close> goes
  back to the lobby, \<open>/msg\<close> sends its text unchanged to its target; each is one packet.\<close>

theorem commands_sent:
  assumes "client_running c" "current_line c = ''''" "word w" "list_all is_print body" "body \<noteq> ''''"
    and "\<And>msg. length (cser cc msg) + 4 \<le> taken"
  shows "let j = input_loop cc (keys taken (''/join'' @ '' '' @ w)) c;
      l = input_loop cc (keys taken ''/leave'') c;
      m = input_loop cc (keys taken (''/msg'' @ '' '' @ w @ '' '' @ body)) c
    in sent j = sent c @ frame (cser cc (JoinRoomRequest w)) \<and> my_room j = w \<and>
       sent l = sent c @ frame (cser cc (JoinRoomRequest '''')) \<and> my_room l = '''' \<and>
       sent m = sent c @ frame (cser cc (PrivateChatRequest w body)) \<and> my_room m = my_room c"
proof -
  note names = word_print[OF command_names(1)] word_print[OF command_names(2)] word_print[OF command_names(3)]
  have "sent (input_loop cc (keys taken (''/join'' @ '' '' @ w)) c) = sent c @ frame (cser cc (JoinRoomRequest w)) \<and>
      my_room (input_loop cc (keys taken (''/join'' @ '' '' @ w)) c) = w"
    by (rule type_command[OF _ _ _ assms(1,2)])
      (use names word_print[OF assms(3)] slash_join[OF assms(3)] assms(6) in auto)
  moreover have "sent (input_loop cc (keys taken ''/leave'') c) = sent c @ frame (cser cc (JoinRoomRequest '''')) \<and>
      my_room (input_loop cc (keys taken ''/leave'') c) = ''''"
    by (rule type_command[OF _ _ _ assms(1,2)]) (use names slash_leave assms(6) in auto)
  moreover have "sent (input_loop cc (keys taken (''/msg'' @ '' '' @ w @ '' '' @ body)) c) =
      sent c @ frame (cser cc (PrivateChatRequest w body)) \<and>
      my_room (input_loop cc (keys taken (''/msg'' @ '' '' @ w @ '' '' @ body)) c) = my_room c"
    by (rule type_command[OF _ _ _ assms(1,2)])
      (use names word_print[OF assms(3)] slash_msg[OF assms(3-5)] assms(4,6) in auto)
  ultimately show ?thesis by (simp add: Let_def)
qed

theorem commands_sent_witness:
  "my_room (input_loop \<lparr>cser = \<lambda>m. [7], cpar = \<lambda>_. None\<rparr> (keys 5 ''/join den'') ready_client) = ''den'' \<and>
   sent (input_loop \<lparr>cser = \<lambda>m. [7], cpar = \<lambda>_. None\<rparr> (keys 5 ''/msg den hi'') ready_client) = frame [7]"
  using commands_sent[of ready_client "''den''" "''hi''" "\<lparr>cser = \<lambda>m. [7], cpar = \<lambda>_. None\<rparr>" 5]
  by (simp add: ready_client_def word_def is_print_def is_space_def Let_def)

text \<open>C21: What the server sends is shown: the receiving thread returns, and whatever the chunks, it has queued
  for the printer the text of every packet that fits its buffer and parses, in order, and keeps
  nothing back.\<close>

theorem client_receives_all:
  assumes "client_running c" "rb_wf (in_ring c)" "rb_contents (in_ring c) = []" "rb_capacity (in_ring c) = 8192"
    and "\<forall>p\<in>set packets. length p \<le> 8188 \<and> cpar cc p \<noteq> None" "[] \<notin> set chunks"
    and "concat chunks = concat (map frame packets)"
  shows "\<exists>c'. receive_loop cc (map RxReady chunks) c = Some c' \<and> client_running c' \<and> rb_contents (in_ring c') = [] \<and>
    queue (message_queue c') = queue (message_queue c) @ List.map_filter (\<lambda>p. message_text (the (cpar cc p))) packets"
proof -
  have "list_all (fits 8192) packets" "list_all (\<lambda>p. cpar cc p \<noteq> None) packets"
    using assms(5) by (auto simp: list_all_iff fits_def packet_ok_def)
  moreover have "parse_frame (rb_contents (in_ring c)) = Incomplete" by (simp add: assms(3) parse_frame_def)
  ultimately show ?thesis
    using receive_loop_reassembles[OF assms(1,2) _ _ _ assms(6), of packets cc] assms(3,4,7) by (auto simp: shown_def)
qed

theorem client_receives_all_witness:
  "\<exists>c'. receive_loop \<lparr>cser = \<lambda>_. [], cpar = \<lambda>_. Some (ErrorResponse ''no'')\<rparr> (map RxReady [[0, 0], [0, 1, 5]]) ready_client = Some c' \<and>
     queue (message_queue c') = [''[Error]: no'']"
proof -
  have r: "rb_wf (rb_new 8192) \<and> rb_contents (rb_new 8192) = []" by (rule rb_wf_new) simp
  have "\<exists>c'. receive_loop \<lparr>cser = \<lambda>_. [], cpar = \<lambda>_. Some (ErrorResponse ''no'')\<rparr> (map RxReady [[0, 0], [0, 1, 5]]) ready_client = Some c' \<and>
      client_running c' \<and> rb_contents (in_ring c') = [] \<and> queue (message_queue c') = queue (message_queue ready_client) @
        List.map_filter (\<lambda>p. message_text (the (cpar \<lparr>cser = \<lambda>_. [], cpar = \<lambda>_. Some (ErrorResponse ''no'')\<rparr> p))) [[5]]"
    by (rule client_receives_all)
      (use r in \<open>simp_all add: ready_client_def rb_capacity_def rb_new_def frame_def htonl_bytes_def\<close>)
  then show ?thesis by (auto simp: ready_client_def sq_new_def map_filter_def message_text_def)
qed

text \<open>C22: The login is decided by the first packet that arrives: it succeeds exactly when that packet is a
  positive login response, whatever follows. A broadcast that the server delivers to everybody before the
  answer therefore makes the login fail.\<close>

theorem login_decided_by_first_packet:
  assumes "name \<noteq> ''''" "length p \<le> 10485760"
  shows "(fst (login cc name True (frame p @ rest) c) \<longleftrightarrow> (\<exists>message. cpar cc p = Some (LoginResponse True message))) \<and>
    sent (snd (login cc name True (frame p @ rest) c)) = sent c @ frame (cser cc (LoginRequest name))"
proof -
  have "login_reply cc (frame p @ rest) = cpar cc p"
    using assms(2) by (simp add: login_reply_def frame_def unat_word_of_len packet_ok_def)
  then show ?thesis using assms(1)
    by (auto simp: login_def Let_def pb_encode_frame split: option.split server_message.split)
qed

theorem login_decided_by_first_packet_witness:
  "\<not> fst (login \<lparr>cser = \<lambda>_. [], cpar = \<lambda>p. Some (if p = [1] then LoginResponse True ''ok'' else ChatBroadcast ''eve'' ''hi'' '''' 0)\<rparr>
       ''bob'' True (frame [2] @ frame [1]) ready_client) \<and>
   fst (login \<lparr>cser = \<lambda>_. [], cpar = \<lambda>p. Some (if p = [1] then LoginResponse True ''ok'' else ChatBroadcast ''eve'' ''hi'' '''' 0)\<rparr>
       ''bob'' True (frame [1] @ frame [2]) ready_client)"
  by (simp add: login_decided_by_first_packet)

end
