(* ===== verification/Utils.thy ===== *)
theory Utils
  imports Queues Reachability "HOL-Library.Multiset"
begin

text \<open>
  The helpers under the server: the asynchronous logger and the owner of a file descriptor
  (\<open>v4/utils.h\<close>, the same in \<open>v3\<close>), and the pool of payload buffers (\<open>v4/object_pool.h\<close>).
\<close>

section \<open>AsyncLogger\<close>

record logger =
  log_queue :: "string list"
  log_running :: bool
  log_file_open :: bool
  log_file :: string
  console :: string

definition new_logger :: "bool \<Rightarrow> logger" where
  "new_logger opened = \<lparr>log_queue = [], log_running = True, log_file_open = opened, log_file = '''', console = ''''\<rparr>"

definition push_message :: "string \<Rightarrow> logger \<Rightarrow> logger" where
  "push_message msg l = l\<lparr>log_queue := log_queue l @ [msg]\<rparr>"

definition log_info :: "string \<Rightarrow> string \<Rightarrow> logger \<Rightarrow> logger" where
  "log_info timestamp msg = push_message (timestamp @ ''[INFO]: '' @ msg)"

definition log_error :: "string \<Rightarrow> string \<Rightarrow> logger \<Rightarrow> logger" where
  "log_error timestamp msg = push_message (timestamp @ ''[ERROR]: '' @ msg)"

text \<open>The critical section of \<open>writer_loop\<close>, and the write after it.\<close>

definition writer_wait :: "logger \<Rightarrow> string pop_result \<times> logger" where
  "writer_wait l =
     (if \<not> (log_queue l \<noteq> [] \<or> \<not> log_running l) then (Blocked, l)
      else if \<not> log_running l \<and> log_queue l = [] then (Finished, l)
      else (Popped (hd (log_queue l)), l\<lparr>log_queue := tl (log_queue l)\<rparr>))"

definition write_message :: "string \<Rightarrow> logger \<Rightarrow> logger" where
  "write_message msg l =
     (let line = msg @ [CHR 0x0A]
      in if log_file_open l then l\<lparr>log_file := log_file l @ line\<rparr> else l\<lparr>console := console l @ line\<rparr>)"

text \<open>The loop until it would wait (False) or returns (True).\<close>

function writer_loop :: "logger \<Rightarrow> bool \<times> logger" where
  "writer_loop l =
     (case writer_wait l of
        (Popped msg, l1) \<Rightarrow> writer_loop (write_message msg l1)
      | (Finished, l1) \<Rightarrow> (True, l1)
      | (Blocked, l1) \<Rightarrow> (False, l1))"
  by pat_completeness auto
termination
  by (relation "measure (\<lambda>l. length (log_queue l))")
    (auto simp: writer_wait_def write_message_def Let_def split: if_splits)

declare writer_loop.simps [simp del]

text \<open>\<open>shutdown\<close>, without the join, which waits for the loop to return.\<close>

definition log_shutdown :: "logger \<Rightarrow> logger" where
  "log_shutdown l = (if \<not> log_running l then l else l\<lparr>log_running := False\<rparr>)"

interpretation logq: closable_fifo log_queue "\<lambda>l. \<not> log_running l" push_message writer_wait log_shutdown
  by unfold_locales (auto simp: push_message_def writer_wait_def log_shutdown_def)

text \<open>What has been written, wherever it went, and what is still to come.\<close>

definition written :: "logger \<Rightarrow> string" where
  "written l = (if log_file_open l then log_file l else console l)"

definition lines_of :: "string list \<Rightarrow> string" where
  "lines_of msgs = concat (map (\<lambda>m. m @ [CHR 0x0A]) msgs)"

lemma writer_loop_drains:
  "fst (writer_loop l) = (\<not> log_running l) \<and> written (snd (writer_loop l)) = written l @ lines_of (log_queue l) \<and>
   log_queue (snd (writer_loop l)) = [] \<and> log_running (snd (writer_loop l)) = log_running l \<and>
   log_file_open (snd (writer_loop l)) = log_file_open l"
proof (induction l rule: writer_loop.induct)
  case (1 l)
  show ?case
  proof (cases "log_queue l")
    case Nil
    then have "writer_wait l = (if \<not> log_running l then Finished else Blocked, l)" by (rule logq.pop_Nil)
    then show ?thesis using Nil by (simp add: writer_loop.simps[of l] lines_of_def)
  next
    case (Cons m ms)
    then have w: "writer_wait l = (Popped m, l\<lparr>log_queue := ms\<rparr>)" by (simp add: writer_wait_def)
    note IH = "1.IH"[OF w[symmetric] refl]
    show ?thesis using IH Cons
      by (simp add: writer_loop.simps[of l] w) (simp add: write_message_def Let_def written_def lines_of_def)
  qed
qed

datatype log_act = Log string | Write

definition log_do :: "log_act \<Rightarrow> logger \<Rightarrow> logger" where
  "log_do a l = (case a of Log msg \<Rightarrow> push_message msg l | Write \<Rightarrow> snd (writer_loop l))"

definition logged :: "log_act list \<Rightarrow> string list" where
  "logged acts = List.map_filter (\<lambda>a. case a of Log msg \<Rightarrow> Some msg | Write \<Rightarrow> None) acts"

lemma lines_of_append [simp]: "lines_of (xs @ ys) = lines_of xs @ lines_of ys"
  by (simp add: lines_of_def)

lemma log_do_total:
  "written (log_do a l) @ lines_of (log_queue (log_do a l)) = written l @ lines_of (log_queue l @ logged [a]) \<and>
   log_running (log_do a l) = log_running l"
proof (cases a)
  case (Log msg)
  then show ?thesis by (simp add: log_do_def logged_def push_message_def written_def map_filter_def)
next
  case Write
  then show ?thesis using writer_loop_drains[of l] by (simp add: log_do_def logged_def map_filter_def) (simp add: lines_of_def)
qed

lemma log_acts_total:
  "written (fold log_do acts l) @ lines_of (log_queue (fold log_do acts l)) =
     written l @ lines_of (log_queue l) @ lines_of (logged acts) \<and> log_running (fold log_do acts l) = log_running l"
proof (induction acts arbitrary: l)
  case (Cons a acts)
  have "logged (a # acts) = logged [a] @ logged acts" by (simp add: logged_def map_filter_def)
  then show ?case using Cons.IH[of "log_do a l"] log_do_total[of a l] by simp
qed (simp add: logged_def map_filter_def lines_of_def)

section \<open>Socket\<close>

text \<open>The objects are the positions of a list of their \<open>fd_\<close>; \<open>shut_fds\<close> are the calls of
  \<open>close\<close>. A move from an object to itself is left out by the code.\<close>

record sockets =
  fds :: "int list"
  shut_fds :: "int list"

datatype socket_op = Construct int | MoveConstruct nat | MoveAssign nat nat | CloseSocket nat

definition close_socket :: "nat \<Rightarrow> sockets \<Rightarrow> sockets" where
  "close_socket i s = (if fds s ! i \<noteq> -1 then s\<lparr>shut_fds := shut_fds s @ [fds s ! i], fds := (fds s)[i := -1]\<rparr> else s)"

definition move_construct :: "nat \<Rightarrow> sockets \<Rightarrow> sockets" where
  "move_construct other s = s\<lparr>fds := (fds s)[other := -1] @ [fds s ! other]\<rparr>"

definition move_assign :: "nat \<Rightarrow> nat \<Rightarrow> sockets \<Rightarrow> sockets" where
  "move_assign this other s =
     (if this \<noteq> other
      then let s1 = close_socket this s in s1\<lparr>fds := (fds s1)[this := fds s1 ! other, other := -1]\<rparr>
      else s)"

fun socket_do :: "socket_op \<Rightarrow> sockets \<Rightarrow> sockets" where
  "socket_do (Construct fd) s = s\<lparr>fds := fds s @ [fd]\<rparr>"
| "socket_do (MoveConstruct other) s = (if other < length (fds s) then move_construct other s else s)"
| "socket_do (MoveAssign this other) s =
     (if this < length (fds s) \<and> other < length (fds s) then move_assign this other s else s)"
| "socket_do (CloseSocket i) s = (if i < length (fds s) then close_socket i s else s)"

definition owned :: "sockets \<Rightarrow> int multiset" where
  "owned s = mset (filter (\<lambda>fd. fd \<noteq> -1) (fds s))"

definition opened :: "socket_op list \<Rightarrow> int list" where
  "opened ops = filter (\<lambda>fd. fd \<noteq> -1) (List.map_filter (\<lambda>p. case p of Construct fd \<Rightarrow> Some fd | _ \<Rightarrow> None) ops)"

lemma owned_remove:
  "i < length xs \<Longrightarrow> mset (filter (\<lambda>fd. fd \<noteq> -1) xs) =
    mset (filter (\<lambda>fd. fd \<noteq> -1) (xs[i := - 1 :: int])) + (if xs ! i \<noteq> -1 then {#xs ! i#} else {#})"
proof (induction xs arbitrary: i)
  case (Cons x xs)
  then show ?case by (cases i) (simp_all add: add_mset_commute)
qed simp

lemma close_socket_owned:
  "i < length (fds s) \<Longrightarrow> owned (close_socket i s) + mset (shut_fds (close_socket i s)) = owned s + mset (shut_fds s)"
  using owned_remove[of i "fds s"] by (simp add: close_socket_def owned_def)

lemma close_socket_fd: "i < length (fds s) \<Longrightarrow> fds (close_socket i s) = (fds s)[i := -1]"
  by (simp add: close_socket_def) (metis list_update_id)

lemma owned_put: "i < length xs \<Longrightarrow> xs ! i = -1 \<Longrightarrow>
  mset (filter (\<lambda>fd. fd \<noteq> -1) (xs[i := x])) = mset (filter (\<lambda>fd. fd \<noteq> -1) xs) + (if x \<noteq> - 1 then {#x :: int#} else {#})"
  using owned_remove[of i "xs[i := x]"] by (simp add: list_update_same_conv[THEN iffD2])

lemma socket_do_owned:
  "owned (socket_do p s) + mset (shut_fds (socket_do p s)) = owned s + mset (shut_fds s) + mset (opened [p])"
proof (cases p)
  case (MoveConstruct other)
  then show ?thesis
    using owned_remove[of other "fds s"] by (simp add: move_construct_def owned_def opened_def map_filter_def)
next
  case (MoveAssign this other)
  show ?thesis
  proof (cases "this < length (fds s) \<and> other < length (fds s) \<and> this \<noteq> other")
    case True
    let ?s = "close_socket this s"
    let ?xs = "(fds ?s)[other := -1]"
    have l: "length (fds ?s) = length (fds s)" "fds ?s ! this = -1" using True by (simp_all add: close_socket_fd)
    have eq: "fds (move_assign this other s) = ?xs[this := fds ?s ! other]" "shut_fds (move_assign this other s) = shut_fds ?s"
      using True by (simp_all add: move_assign_def Let_def list_update_swap)
    have "owned (move_assign this other s) = mset (filter (\<lambda>fd. fd \<noteq> -1) ?xs) + (if fds ?s ! other \<noteq> -1 then {#fds ?s ! other#} else {#})"
      unfolding owned_def eq using True l by (intro owned_put) simp_all
    then have "owned (move_assign this other s) = owned ?s"
      using owned_remove[of other "fds ?s"] True l(1) by (simp add: owned_def)
    then show ?thesis using MoveAssign True eq(2) close_socket_owned[of this s] by (simp add: opened_def map_filter_def)
  qed (use MoveAssign in \<open>auto simp: move_assign_def opened_def map_filter_def\<close>)
next
  case (CloseSocket i)
  then show ?thesis using close_socket_owned[of i s] by (simp add: opened_def map_filter_def)
qed (simp add: owned_def opened_def map_filter_def)

section \<open>ObjectPool\<close>

text \<open>Pointers are positions in the heap of vectors the pool has made.\<close>

record 'a object_pool =
  pool :: "nat list"
  heap :: "'a list list"

definition acquire :: "'a object_pool \<Rightarrow> nat \<times> 'a object_pool" where
  "acquire p =
     (if pool p = [] then (length (heap p), p\<lparr>heap := heap p @ [[]]\<rparr>)
      else (List.last (pool p), p\<lparr>pool := butlast (pool p)\<rparr>))"

definition release :: "nat \<Rightarrow> 'a object_pool \<Rightarrow> 'a object_pool" where
  "release ptr p = p\<lparr>heap := (heap p)[ptr := []], pool := pool p @ [ptr]\<rparr>"

text \<open>The destructor deletes what is in the pool.\<close>

definition pool_destroy :: "'a object_pool \<Rightarrow> nat list \<times> 'a object_pool" where
  "pool_destroy p = (pool p, p\<lparr>pool := []\<rparr>)"

text \<open>The users of the pool: they fill what they have acquired and release it once, as the
  \<open>shared_ptr\<close> of \<open>acquire_shared\<close> does.\<close>

inductive pool_step :: "'a object_pool \<times> nat list \<Rightarrow> 'a object_pool \<times> nat list \<Rightarrow> bool" where
  acquires: "acquire p = (ptr, p') \<Longrightarrow> pool_step (p, used) (p', ptr # used)"
| fills: "ptr \<in> set used \<Longrightarrow> pool_step (p, used) (p\<lparr>heap := (heap p)[ptr := bs]\<rparr>, used)"
| releases: "ptr \<in> set used \<Longrightarrow> pool_step (p, used) (release ptr p, remove1 ptr used)"

definition pool_init :: "'a object_pool \<times> nat list \<Rightarrow> bool" where
  "pool_init s \<longleftrightarrow> s = (\<lparr>pool = [], heap = []\<rparr>, [])"

definition pool_wf :: "'a object_pool \<times> nat list \<Rightarrow> bool" where
  "pool_wf s = (case s of (p, used) \<Rightarrow> distinct (pool p @ used) \<and> set (pool p @ used) \<subseteq> {..<length (heap p)} \<and>
     (\<forall>ptr\<in>set (pool p). heap p ! ptr = []))"

interpretation pool_inv: inductive_invariant pool_init pool_step pool_wf
proof
  show "pool_init s \<Longrightarrow> pool_wf s" for s :: "'a object_pool \<times> nat list"
    by (simp add: pool_init_def pool_wf_def)
next
  fix s s' :: "'a object_pool \<times> nat list" assume "pool_wf s" "pool_step s s'"
  from this(2,1) show "pool_wf s'"
  proof (induction rule: pool_step.induct)
    case (acquires p ptr p' used)
    show ?case
    proof (cases "pool p = []")
      case True
      then show ?thesis using acquires by (force simp: acquire_def pool_wf_def)
    next
      case False
      then have p: "pool p = pool p' @ [ptr]" "heap p' = heap p" using acquires(1) by (auto simp: acquire_def)
      show ?thesis using acquires(2) unfolding pool_wf_def prod.case p by auto
    qed
  next
    case (fills ptr used p bs)
    then have "ptra \<noteq> ptr" if "ptra \<in> set (pool p)" for ptra using that by (auto simp: pool_wf_def)
    then have "(heap p)[ptr := bs] ! ptra = heap p ! ptra" if "ptra \<in> set (pool p)" for ptra using that by fastforce
    then show ?case using fills by (simp add: pool_wf_def)
  next
    case (releases ptr used p)
    then show ?case
      by (auto simp: pool_wf_def release_def nth_list_update distinct_remove1 dest: notin_set_remove1)
  qed
qed

section \<open>Properties\<close>

text \<open>C25: No log line is lost: however the writer's rounds fall between the calls that log, after the shutdown
  the writer returns, with every message that was logged written once, in order, to the log file or, if it
  could not be opened, to the console.\<close>

theorem log_complete:
  fixes acts :: "log_act list" and l :: logger
  assumes "log_running l"
  defines "l' \<equiv> log_shutdown (fold log_do acts l)"
  shows "fst (writer_loop l') \<and>
    written (snd (writer_loop l')) = written l @ lines_of (log_queue l) @ lines_of (logged acts)"
proof -
  have r: "log_running (fold log_do acts l)" using log_acts_total[of acts l] assms(1) by blast
  have "written l' = written (fold log_do acts l)" "log_queue l' = log_queue (fold log_do acts l)" "\<not> log_running l'"
    using r by (simp_all add: l'_def log_shutdown_def written_def)
  then show ?thesis using writer_loop_drains[of l'] log_acts_total[of acts l] by simp
qed

theorem log_complete_witness:
  "written (snd (writer_loop (log_shutdown (fold log_do [Log ''a'', Write, Log ''b''] (new_logger True))))) =
     lines_of [''a'', ''b'']"
  using log_complete[of "new_logger True" "[Log ''a'', Write, Log ''b'']"]
  by (simp add: new_logger_def written_def logged_def map_filter_def lines_of_def)

text \<open>Every descriptor has one owner: over any sequence of constructions, moves and closes, the descriptors
  handed to \<open>Socket\<close> objects are exactly those still owned together with those closed, counted with
  multiplicity. So distinct descriptors are never closed twice and never closed while owned.\<close>

theorem socket_single_owner:
  fixes ops :: "socket_op list"
  defines "s \<equiv> fold socket_do ops \<lparr>fds = [], shut_fds = []\<rparr>"
  shows "owned s + mset (shut_fds s) = mset (opened ops)"
proof -
  have "owned (fold socket_do ops s) + mset (shut_fds (fold socket_do ops s)) = owned s + mset (shut_fds s) + mset (opened ops)" for s
  proof (induction ops arbitrary: s)
    case (Cons p ops)
    have "opened (p # ops) = opened [p] @ opened ops" by (simp add: opened_def map_filter_def split: socket_op.split)
    then show ?case using Cons.IH[of "socket_do p s"] socket_do_owned[of p s] by (simp add: ac_simps)
  qed (simp add: opened_def map_filter_def)
  then show ?thesis by (simp add: s_def owned_def)
qed

text \<open>A buffer of the pool is never shared: in every reachable state the buffer handed out next is not in
  use, is empty, and the buffers the destructor deletes are distinct and not in use.\<close>

theorem pool_exclusive:
  assumes "reachable pool_init pool_step (p, used)" "acquire p = (ptr, p')"
  shows "ptr \<notin> set used \<and> heap p' ! ptr = [] \<and> distinct (fst (pool_destroy p)) \<and>
    set (fst (pool_destroy p)) \<inter> set used = {}"
proof -
  have wf: "pool_wf (p, used)" using pool_inv.inv_reachable[OF assms(1)] .
  show ?thesis
  proof (cases "pool p = []")
    case True
    then show ?thesis using wf assms(2) by (auto simp: pool_wf_def acquire_def pool_destroy_def)
  next
    case False
    then have "ptr \<in> set (pool p)" "heap p' = heap p" using assms(2) by (auto simp: acquire_def)
    then show ?thesis using wf by (auto simp: pool_wf_def pool_destroy_def)
  qed
qed

theorem pool_exclusive_witness:
  "acquire (\<lparr>pool = [], heap = []\<rparr> :: nat object_pool) = (0, \<lparr>pool = [], heap = [[]]\<rparr>) \<and> (0 :: nat) \<notin> set []"
proof -
  have a: "acquire (\<lparr>pool = [], heap = []\<rparr> :: nat object_pool) = (0, \<lparr>pool = [], heap = [[]]\<rparr>)" by (simp add: acquire_def)
  have "reachable pool_init pool_step (\<lparr>pool = [], heap = []\<rparr> :: nat object_pool, [])"
    by (rule reachable_init) (simp add: pool_init_def)
  from pool_exclusive[OF this a] a show ?thesis by simp
qed

end
