(* ===== verification/LoadBot.thy ===== *)
theory LoadBot
  imports ChatApp "HOL-Library.Sublist"
begin

text \<open>
  The load generator \<open>v4/load_bot.cpp\<close>: it logs in and then sends numbered messages at a
  jittered interval. Unlike the client it looks at what \<open>send\<close> returns. The protobuf
  functions, the results of the system calls, the server's bytes and the random jitter are
  arguments; the reader thread only throws away what it receives.
\<close>

section \<open>Packets\<close>

text \<open>A \<open>send\<close> that returns \<open>r\<close> has taken \<open>r\<close> bytes, or none if it failed.\<close>

definition taken_by :: "int \<Rightarrow> byte list \<Rightarrow> byte list" where
  "taken_by r bs = take (nat r) bs"

text \<open>The result and the bytes that have left.\<close>

definition send_proto :: "(client_message \<Rightarrow> byte list option) \<Rightarrow> int \<Rightarrow> int \<Rightarrow> client_message \<Rightarrow> bool \<times> byte list" where
  "send_proto ser_opt r1 r2 msg =
     (case ser_opt msg of
        None \<Rightarrow> (False, [])
      | Some data \<Rightarrow>
          (let len = htonl_bytes (word_of_nat (length data))
           in if r1 \<noteq> 4 then (False, taken_by r1 len)
              else if r2 \<noteq> int (length data) then (False, len @ taken_by r2 data)
              else (True, len @ data)))"

definition recv_proto :: "(byte list \<Rightarrow> server_message option) \<Rightarrow> byte list \<Rightarrow> server_message option" where
  "recv_proto parse stream =
     (let header = take 4 stream
      in if length header \<noteq> 4 then None
         else let len = ntohl_bytes header
              in if len > 10 * 1024 * 1024 then None
                 else let buf = take (unat len) (drop 4 stream)
                      in if length buf \<noteq> unat len then None else parse buf)"

definition get_server_ip :: "string option \<Rightarrow> string" where
  "get_server_ip ip = (case ip of None \<Rightarrow> ''127.0.0.1'' | Some s \<Rightarrow> s)"

section \<open>The program\<close>

definition bot_message :: "string \<Rightarrow> nat \<Rightarrow> client_message" where
  "bot_message bot_name n = ChatRequest (''Hello from bot '' @ bot_name @ ''!! Message #'' @ to_string n)"

definition bot_sleep :: "int \<Rightarrow> int \<Rightarrow> int" where
  "bot_sleep interval_ms variation =
     (let actual_sleep = interval_ms + variation in if actual_sleep < 10 then 10 else actual_sleep)"

text \<open>The endless loop, for the results of its rounds: the two \<open>send\<close> calls and the jitter. The
  results are the bytes that have left and the pauses.\<close>

fun bot_loop ::
  "(client_message \<Rightarrow> byte list option) \<Rightarrow> string \<Rightarrow> int \<Rightarrow> (int \<times> int \<times> int) list \<Rightarrow> nat \<Rightarrow> byte list \<times> int list" where
  "bot_loop ser_opt bot_name interval_ms [] msg_count = ([], [])"
| "bot_loop ser_opt bot_name interval_ms ((r1, r2, variation) # rounds) msg_count =
     (case send_proto ser_opt r1 r2 (bot_message bot_name (msg_count + 1)) of
        (False, bs) \<Rightarrow> (bs, [])
      | (True, bs) \<Rightarrow>
          (let (bs', pauses) = bot_loop ser_opt bot_name interval_ms rounds (msg_count + 1)
           in (bs @ bs', bot_sleep interval_ms variation # pauses)))"

record bot_env =
  be_args :: "string list"
  be_stoi :: "string \<Rightarrow> int option"
  be_socket :: int
  be_addrinfo_ok :: bool
  be_connect_ok :: bool
  be_login_sends :: "int \<times> int"
  be_stream :: "byte list"
  be_rounds :: "(int \<times> int \<times> int) list"

text \<open>\<open>main\<close>: the exit code (None while it still sends), what it has sent, its pauses.\<close>

definition bot_main ::
  "(client_message \<Rightarrow> byte list option) \<Rightarrow> (byte list \<Rightarrow> server_message option) \<Rightarrow> bot_env \<Rightarrow> int option \<times> byte list \<times> int list" where
  "bot_main ser_opt parse env =
     (let argc = length (be_args env)
      in if argc < 2 \<or> argc > 3 then (Some 1, [], [])
         else let bot_name = be_args env ! 1;
                  interval_ms = (if argc \<ge> 3 then (case be_stoi env (be_args env ! 2) of None \<Rightarrow> 1000 | Some i \<Rightarrow> i) else 1000)
              in if be_socket env < 0 \<or> \<not> be_addrinfo_ok env \<or> \<not> be_connect_ok env then (Some 1, [], [])
                 else (case send_proto ser_opt (fst (be_login_sends env)) (snd (be_login_sends env)) (LoginRequest bot_name) of
                         (False, bs) \<Rightarrow> (Some 1, bs, [])
                       | (True, bs) \<Rightarrow>
                           (case recv_proto parse (be_stream env) of
                              Some (LoginResponse True _) \<Rightarrow>
                                (let (bs', pauses) = bot_loop ser_opt bot_name interval_ms (be_rounds env) 0
                                 in (if length pauses < length (be_rounds env) then Some 0 else None, bs @ bs', pauses))
                            | _ \<Rightarrow> (Some 1, bs, []))))"

section \<open>What a bot sends\<close>

lemma send_proto_frame:
  assumes "ser_opt msg = Some p"
  shows "fst (send_proto ser_opt r1 r2 msg) \<Longrightarrow> snd (send_proto ser_opt r1 r2 msg) = frame p"
    and "prefix (snd (send_proto ser_opt r1 r2 msg)) (frame p)"
  using assms by (auto simp: send_proto_def Let_def frame_def taken_by_def take_is_prefix
      intro: prefix_prefix[OF take_is_prefix])

definition bot_packets :: "(client_message \<Rightarrow> byte list) \<Rightarrow> string \<Rightarrow> nat \<Rightarrow> nat \<Rightarrow> byte list list" where
  "bot_packets enc bot_name n k = map (\<lambda>i. enc (bot_message bot_name i)) [n + 1..<n + 1 + k]"

lemma bot_packets_Suc [simp]:
  "bot_packets enc bot_name n (Suc k) = enc (bot_message bot_name (Suc n)) # bot_packets enc bot_name (Suc n) k"
  by (simp add: bot_packets_def upt_rec)

lemma bot_loop_prefix:
  "prefix (fst (bot_loop (\<lambda>m. Some (enc m)) bot_name interval_ms rounds n))
     (concat (map frame (bot_packets enc bot_name n (length rounds)))) \<and>
   (\<forall>pause\<in>set (snd (bot_loop (\<lambda>m. Some (enc m)) bot_name interval_ms rounds n)). 10 \<le> pause)"
proof (induction rounds arbitrary: n)
  case (Cons r rounds)
  obtain r1 r2 v where r: "r = (r1, r2, v)" by (cases r)
  let ?m = "bot_message bot_name (n + 1)" and ?s = "\<lambda>m. Some (enc m)"
  note f = send_proto_frame[of ?s ?m "enc ?m" r1 r2, OF refl]
  show ?case
  proof (cases "send_proto ?s r1 r2 ?m")
    case (Pair ok bs)
    then show ?thesis
      using f Cons.IH[of "n + 1"] prefix_prefix[of bs "frame (enc ?m)"]
      by (cases ok) (auto simp: r bot_sleep_def Let_def split: prod.split)
  qed
qed simp

lemma bot_loop_result:
  "bot_loop (\<lambda>m. Some (enc m)) bot_name interval_ms rounds n = (bs, pauses) \<Longrightarrow>
   prefix bs (concat (map frame (bot_packets enc bot_name n (length rounds)))) \<and> (\<forall>pause\<in>set pauses. 10 \<le> pause)"
  using bot_loop_prefix[of enc bot_name interval_ms rounds n] by simp

text \<open>A bot never breaks the framing: whatever its \<open>send\<close> calls return, what it has sent is a prefix of
  the framing of its login and its numbered messages, because it stops at the first packet that is not taken
  whole; and between two messages it waits at least ten milliseconds.\<close>

theorem bot_sends_prefix:
  "prefix (fst (snd (bot_main (\<lambda>m. Some (enc m)) parse env)))
      (concat (map frame (enc (LoginRequest (be_args env ! 1)) # bot_packets enc (be_args env ! 1) 0 (length (be_rounds env))))) \<and>
    list_all (\<lambda>pause. 10 \<le> pause) (snd (snd (bot_main (\<lambda>m. Some (enc m)) parse env)))"
proof -
  let ?name = "be_args env ! 1" and ?s = "\<lambda>m. Some (enc m)"
  note f = send_proto_frame[of ?s "LoginRequest ?name" "enc (LoginRequest ?name)" "fst (be_login_sends env)" "snd (be_login_sends env)", OF refl]
  obtain ok bs where sp: "send_proto ?s (fst (be_login_sends env)) (snd (be_login_sends env)) (LoginRequest ?name) = (ok, bs)" by force
  have pre: "prefix bs (frame (enc (LoginRequest ?name)) @ zs)" for zs using f(2) sp by (simp add: prefix_prefix)
  show ?thesis
  proof (cases ok)
    case True
    then have "bs = frame (enc (LoginRequest ?name))" using f(1) sp by simp
    then show ?thesis
      using True sp
      by (auto simp: list_all_iff bot_main_def Let_def split: option.split server_message.split bool.split prod.split
          dest: bot_loop_result)
  next
    case False
    then show ?thesis using sp pre by (simp add: bot_main_def Let_def)
  qed
qed

end
