(* ===== verification/CodecV3.thy ===== *)
theory CodecV3
  imports Codec
begin

text \<open>
  The codecs of version 3, \<open>v3/codec.h\<close>: an abstract class with two protocols, packets
  with a length prefix and lines. The class becomes a locale: a framing whose decoder runs
  on the ring buffer. Both protocols are instances.
\<close>

section \<open>The interface\<close>

locale protocol_codec = framing encode split ok
  for encode :: "byte list \<Rightarrow> byte list" and split :: "(byte list, byte) deframer" and ok :: "byte list \<Rightarrow> bool" +
  fixes decode :: "ring_buffer \<Rightarrow> byte list option \<times> ring_buffer"
  assumes decode_some: "rb_wf buf \<Longrightarrow> split (rb_contents buf) = Some (m, rest) \<Longrightarrow>
      fst (decode buf) = Some m \<and> rb_contents (snd (decode buf)) = rest"
    and decode_none: "rb_wf buf \<Longrightarrow> split (rb_contents buf) = None \<Longrightarrow> fst (decode buf) = None"
    and decode_wf: "rb_wf buf \<Longrightarrow> rb_wf (snd (decode buf))"
begin

lemma decode_encoded:
  assumes "rb_wf buf" "ok m" "rb_contents buf = encode m @ rest"
  shows "\<exists>buf'. decode buf = (Some m, buf') \<and> rb_contents buf' = rest \<and> rb_wf buf'"
  using decode_some[OF assms(1), of m rest] decode_wf[OF assms(1)] dec_enc[OF assms(2)] assms(3)
  by (cases "decode buf") simp

text \<open>The loop of \<open>handle_read\<close> over any codec, for at most \<open>fuel\<close> messages; one per byte is enough.\<close>

fun decode_all :: "nat \<Rightarrow> ring_buffer \<Rightarrow> byte list list \<times> ring_buffer" where
  "decode_all 0 buf = ([], buf)"
| "decode_all (Suc fuel) buf =
     (case decode buf of
        (None, buf') \<Rightarrow> ([], buf')
      | (Some m, buf') \<Rightarrow> (let (ms, buf'') = decode_all fuel buf' in (m # ms, buf'')))"

lemma decode_all_encoded:
  assumes "rb_wf buf" "list_all ok ms" "rb_contents buf = concat (map encode ms) @ rest" "split rest = None"
    "length ms \<le> fuel"
  shows "fst (decode_all fuel buf) = ms"
  using assms
proof (induction ms arbitrary: buf fuel)
  case Nil
  then have "fst (decode buf) = None" using decode_none by simp
  then show ?case by (cases fuel) (auto split: prod.split option.split)
next
  case (Cons m ms)
  obtain f where f: "fuel = Suc f" using Cons.prems(5) by (cases fuel) simp_all
  obtain buf' where b: "decode buf = (Some m, buf')" "rb_contents buf' = concat (map encode ms) @ rest" "rb_wf buf'"
    using decode_encoded[OF Cons.prems(1), of m "concat (map encode ms) @ rest"] Cons.prems(2,3) by auto
  have "fst (decode_all f buf') = ms" using Cons.prems f by (intro Cons.IH[OF b(3) _ b(2)]) simp_all
  then show ?case using f b(1) by (cases "decode_all f buf'") simp
qed

end

section \<open>LengthPrefixedCodec\<close>

definition lp_encode_into :: "byte list \<Rightarrow> byte list \<Rightarrow> byte list" where
  "lp_encode_into msg out = (let header = htonl_bytes (word_of_nat (length msg)) in [] @ header @ msg)"

definition lp_decode :: "ring_buffer \<Rightarrow> byte list option \<times> ring_buffer" where
  "lp_decode buf =
     (if rb_size buf < 4 then (None, buf)
      else let header = rb_peek 4 buf;
               payload_len = ntohl_bytes header
           in if payload_len > 10 * 1024 * 1024 then (None, rb_consume (rb_size buf) buf)
              else if rb_size buf < 4 + unat payload_len then (None, buf)
              else let buf1 = rb_consume 4 buf;
                       msg = memcpy_at 0 (rb_peek (unat payload_len) buf1) (replicate (unat payload_len) 0);
                       buf2 = rb_consume (unat payload_len) buf1
                   in (Some msg, buf2))"

definition lp_encode :: "byte list \<Rightarrow> byte list" where
  "lp_encode msg =
     (let net_len = htonl_bytes (word_of_nat (length msg));
          packet = replicate (4 + length msg) 0
      in memcpy_at 4 msg (memcpy_at 0 net_len packet))"

lemma lp_encode_frame: "lp_encode msg = frame msg" "lp_encode_into msg out = frame msg"
  by (simp_all add: lp_encode_def lp_encode_into_def frame_def memcpy_at_def Let_def)

text \<open>At 64 bits the sum of header and length needs no check, and is the one of version 4.\<close>

lemma lp_decode_packet: "lp_decode buf = packet_decode buf"
proof (cases "ntohl_bytes (rb_peek 4 buf) > MAX_PACKET")
  case True
  then show ?thesis by (simp add: lp_decode_def packet_decode_def Let_def MAX_PACKET_def)
next
  case False
  then show ?thesis
    using unat_header_plus_len[OF False] by (simp add: lp_decode_def packet_decode_def Let_def MAX_PACKET_def)
qed

interpretation lp: protocol_codec lp_encode packet_split packet_ok lp_decode
proof
  fix m rest xs ys :: "byte list"
  show "packet_ok m \<Longrightarrow> packet_split (lp_encode m @ rest) = Some (m, rest)"
    using packet.dec_enc by (simp add: lp_encode_frame)
  show "packet_ok m \<Longrightarrow> lp_encode m = xs @ ys \<Longrightarrow> ys \<noteq> [] \<Longrightarrow> packet_split xs = None"
    using packet.dec_partial by (simp add: lp_encode_frame)
  show "packet_split xs = Some (m, rest) \<Longrightarrow> length rest < length xs" by (rule packet.dec_shrinks)
  show "packet_split [] = None" by (rule packet.dec_Nil)
next
  fix buf :: ring_buffer and m rest :: "byte list" assume wf: "rb_wf buf"
  note spec = packet_decode_spec[OF wf]
  show "packet_split (rb_contents buf) = Some (m, rest) \<Longrightarrow>
      fst (lp_decode buf) = Some m \<and> rb_contents (snd (lp_decode buf)) = rest"
    using spec by (auto simp: lp_decode_packet packet_split_def split: deframe.splits)
  show "packet_split (rb_contents buf) = None \<Longrightarrow> fst (lp_decode buf) = None"
    using spec by (auto simp: lp_decode_packet packet_split_def split: deframe.splits)
  show "rb_wf (snd (lp_decode buf))" using packet_decode_wf[OF wf] by (simp add: lp_decode_packet)
qed

section \<open>LineBasedCodec\<close>

definition line_encode :: "byte list \<Rightarrow> byte list" where
  "line_encode msg = msg @ [10]"

text \<open>The search for the first newline from index \<open>i\<close> on.\<close>

fun find_newline :: "nat \<Rightarrow> byte list \<Rightarrow> nat option" where
  "find_newline i [] = None"
| "find_newline i (b # bs) = (if b = 10 then Some i else find_newline (Suc i) bs)"

definition line_decode :: "ring_buffer \<Rightarrow> byte list option \<times> ring_buffer" where
  "line_decode buf =
     (let temp = memcpy_at 0 (rb_peek (rb_size buf) buf) (replicate (rb_size buf) 0)
      in case find_newline 0 temp of
          None \<Rightarrow> (None, buf)
        | Some i \<Rightarrow> (Some (take i temp), rb_consume (i + 1) buf))"

definition line_split :: "(byte list, byte) deframer" where
  "line_split bs = (case find_newline 0 bs of None \<Rightarrow> None | Some i \<Rightarrow> Some (take i bs, drop (i + 1) bs))"

definition line_ok :: "byte list \<Rightarrow> bool" where
  "line_ok msg \<longleftrightarrow> 10 \<notin> set msg"

lemma find_newline_none: "find_newline i bs = None \<longleftrightarrow> 10 \<notin> set bs"
  by (induction bs arbitrary: i) auto

lemma find_newline_skip: "10 \<notin> set xs \<Longrightarrow> find_newline i (xs @ 10 # ys) = Some (i + length xs)"
  by (induction xs arbitrary: i) auto

lemma find_newline_some: "find_newline i bs = Some k \<Longrightarrow> i \<le> k \<and> k < i + length bs"
  by (induction bs arbitrary: i) (fastforce split: if_splits)+

interpretation line: protocol_codec line_encode line_split line_ok line_decode
proof
  fix m rest xs ys :: "byte list"
  show "line_ok m \<Longrightarrow> line_split (line_encode m @ rest) = Some (m, rest)"
    using find_newline_skip[of m 0 rest] by (simp add: line_split_def line_encode_def line_ok_def)
  show "line_split xs = None" if "line_ok m" "line_encode m = xs @ ys" "ys \<noteq> []"
  proof -
    have "10 \<notin> set xs"
      using that by (cases ys rule: rev_cases) (auto simp: line_encode_def line_ok_def)
    then show ?thesis by (simp add: line_split_def find_newline_none[THEN iffD2])
  qed
  show "line_split xs = Some (m, rest) \<Longrightarrow> length rest < length xs"
    by (auto simp: line_split_def split: option.splits dest: find_newline_some)
  show "line_split [] = None" by (simp add: line_split_def)
next
  fix buf :: ring_buffer and m rest :: "byte list" assume wf: "rb_wf buf"
  have temp: "memcpy_at 0 (rb_peek (rb_size buf) buf) (replicate (rb_size buf) 0) = rb_contents buf"
    using ring.peek_contents[OF wf, of "rb_size buf"] ring.used_contents[OF wf] by (simp add: memcpy_at_def)
  show "line_split (rb_contents buf) = Some (m, rest) \<Longrightarrow>
      fst (line_decode buf) = Some m \<and> rb_contents (snd (line_decode buf)) = rest"
    using wf by (auto simp: line_decode_def line_split_def temp Let_def ring.consume_contents split: option.splits)
  show "line_split (rb_contents buf) = None \<Longrightarrow> fst (line_decode buf) = None"
    by (simp add: line_decode_def line_split_def temp Let_def split: option.splits)
  show "rb_wf (snd (line_decode buf))"
    using wf by (simp add: line_decode_def Let_def ring.consume_wf split: option.split)
qed

section \<open>Properties\<close>



end
