(* ===== verification/PoolThreads.thy ===== *)
theory PoolThreads
  imports Queues Reachability
begin

text \<open>
  The condition variable of the thread pool (\<open>v4/threadpool.cpp\<close>, and in the same way
  \<open>v2/threadpool.cpp\<close>): which wake-up can be lost. \<open>Queues\<close> treats a critical section as one
  operation; here its pieces are steps: the test of the predicate, with the mutex held, and
  the moment the worker falls asleep and gives it back are two. A push changes the queue under
  the mutex, but \<open>shutdown\<close> changes \<open>running_\<close> without it.
\<close>

section \<open>States and steps\<close>

datatype 'a pool_worker = AtLoop | AtLock | AboutToWait | Asleep | Busy 'a | Ended

datatype pool_caller = Calling | NotifyOne | NotifyAll | ShutNotify | Joining | ShutDone

record 'a pool_threads =
  pw :: "'a pool_worker list"
  caller :: pool_caller
  shared :: "'a thread_pool"

definition pool_start :: "nat \<Rightarrow> 'a pool_threads \<Rightarrow> bool" where
  "pool_start n s \<longleftrightarrow> s = \<lparr>pw = replicate n AtLoop, caller = Calling, shared = tp_new\<rparr>"

definition mutex_free :: "'a pool_threads \<Rightarrow> bool" where
  "mutex_free s \<longleftrightarrow> AboutToWait \<notin> set (pw s)"

definition set_pw :: "nat \<Rightarrow> 'a pool_worker \<Rightarrow> 'a pool_threads \<Rightarrow> 'a pool_threads" where
  "set_pw i w s = s\<lparr>pw := (pw s)[i := w]\<rparr>"

definition wake_all :: "'a pool_threads \<Rightarrow> 'a pool_threads" where
  "wake_all s = s\<lparr>pw := map (\<lambda>w. if w = Asleep then AtLock else w) (pw s)\<rparr>"

text \<open>
  The parameter allows spurious wake-ups; none is guaranteed. Pushes and the shutdown come
  from one thread, the reactor.
\<close>

inductive pool_thread_step :: "bool \<Rightarrow> 'a pool_threads \<Rightarrow> 'a pool_threads \<Rightarrow> bool" for spurious where
  loop_test: "i < length (pw s) \<Longrightarrow> pw s ! i = AtLoop \<Longrightarrow>
     pool_thread_step spurious s (set_pw i (if pool_running (shared s) then AtLock else Ended) s)"
| must_wait: "i < length (pw s) \<Longrightarrow> pw s ! i = AtLock \<Longrightarrow> mutex_free s \<Longrightarrow> tp_wait (shared s) = (Blocked, p) \<Longrightarrow>
     pool_thread_step spurious s (set_pw i AboutToWait s)"
| gets_task: "i < length (pw s) \<Longrightarrow> pw s ! i = AtLock \<Longrightarrow> mutex_free s \<Longrightarrow> tp_wait (shared s) = (Popped t, p) \<Longrightarrow>
     pool_thread_step spurious s (set_pw i (Busy t) (s\<lparr>shared := p\<rparr>))"
| gets_end: "i < length (pw s) \<Longrightarrow> pw s ! i = AtLock \<Longrightarrow> mutex_free s \<Longrightarrow> tp_wait (shared s) = (Finished, p) \<Longrightarrow>
     pool_thread_step spurious s (set_pw i Ended s)"
| sleeps: "i < length (pw s) \<Longrightarrow> pw s ! i = AboutToWait \<Longrightarrow> pool_thread_step spurious s (set_pw i Asleep s)"
| wakes_up: "spurious \<Longrightarrow> i < length (pw s) \<Longrightarrow> pw s ! i = Asleep \<Longrightarrow> pool_thread_step spurious s (set_pw i AtLock s)"
| runs: "i < length (pw s) \<Longrightarrow> pw s ! i = Busy t \<Longrightarrow> pool_thread_step spurious s (set_pw i AtLoop s)"
| push: "caller s = Calling \<Longrightarrow> mutex_free s \<Longrightarrow>
     pool_thread_step spurious s (s\<lparr>shared := tp_push_task t (shared s), caller := NotifyOne\<rparr>)"
| push_many: "caller s = Calling \<Longrightarrow> mutex_free s \<Longrightarrow>
     pool_thread_step spurious s (s\<lparr>shared := tp_push_batch ts (shared s), caller := NotifyAll\<rparr>)"
| notify_one: "caller s = NotifyOne \<Longrightarrow> i < length (pw s) \<Longrightarrow> pw s ! i = Asleep \<Longrightarrow>
     pool_thread_step spurious s (set_pw i AtLock (s\<lparr>caller := Calling\<rparr>))"
| notify_none: "caller s = NotifyOne \<Longrightarrow> Asleep \<notin> set (pw s) \<Longrightarrow> pool_thread_step spurious s (s\<lparr>caller := Calling\<rparr>)"
| notify_all: "caller s = NotifyAll \<Longrightarrow> pool_thread_step spurious s (wake_all (s\<lparr>caller := Calling\<rparr>))"
| shutdown: "caller s = Calling \<Longrightarrow> pool_running (shared s) \<Longrightarrow>
     pool_thread_step spurious s (s\<lparr>shared := tp_shutdown (shared s), caller := ShutNotify\<rparr>)"
| shutdown_wakes: "caller s = ShutNotify \<Longrightarrow> pool_thread_step spurious s (wake_all (s\<lparr>caller := Joining\<rparr>))"
| joins: "caller s = Joining \<Longrightarrow> set (pw s) \<subseteq> {Ended} \<Longrightarrow> pool_thread_step spurious s (s\<lparr>caller := ShutDone\<rparr>)"

inductive_cases pool_thread_stepE: "pool_thread_step spurious s s'"

definition pool_stuck :: "'a pool_threads \<Rightarrow> bool" where
  "pool_stuck s \<longleftrightarrow> (\<forall>s'. \<not> pool_thread_step False s s')"

section \<open>Invariant\<close>

text \<open>A worker on its way back to the queue.\<close>

fun coming :: "'a pool_worker \<Rightarrow> bool" where
  "coming AtLoop = True" | "coming AtLock = True" | "coming (Busy t) = True"
| "coming AboutToWait = False" | "coming Asleep = False" | "coming Ended = False"

definition pool_threads_wf :: "'a pool_threads \<Rightarrow> bool" where
  "pool_threads_wf s \<longleftrightarrow>
     pw s \<noteq> [] \<and>
     (AboutToWait \<in> set (pw s) \<longrightarrow> task_queue (shared s) = []) \<and>
     (pool_running (shared s) \<longleftrightarrow> caller s \<notin> {ShutNotify, Joining, ShutDone}) \<and>
     (pool_running (shared s) \<longrightarrow> Ended \<notin> set (pw s)) \<and>
     (pool_running (shared s) \<longrightarrow> task_queue (shared s) \<noteq> [] \<longrightarrow>
        caller s \<in> {NotifyOne, NotifyAll} \<or> (\<exists>w\<in>set (pw s). coming w)) \<and>
     (caller s = ShutDone \<longrightarrow> set (pw s) \<subseteq> {Ended})"

lemma set_pw_simps [simp]:
  "pw (set_pw i w s) = (pw s)[i := w]" "caller (set_pw i w s) = caller s" "shared (set_pw i w s) = shared s"
  "pw (wake_all s) = map (\<lambda>w. if w = Asleep then AtLock else w) (pw s)" "caller (wake_all s) = caller s"
  "shared (wake_all s) = shared s"
  by (simp_all add: set_pw_def wake_all_def)

lemma update_notin: "w \<notin> set ws \<Longrightarrow> w \<noteq> x \<Longrightarrow> w \<notin> set (ws[i := x])"
  using set_update_subset_insert[of ws i x] by blast

lemma all_coming:
  assumes "ws \<noteq> []" "{AboutToWait, Asleep, Ended} \<inter> set ws = {}"
  shows "\<exists>w\<in>set ws. coming w"
proof -
  have "hd ws \<in> set ws" using assms(1) by simp
  moreover have "coming (hd ws)" using assms(2) calculation by (cases "hd ws") auto
  ultimately show ?thesis by blast
qed

lemmas tp_defs = tp_wait_def tp_push_task_def tp_push_batch_def tp_emplace_all_append tp_shutdown_def tp_new_def

lemma pool_threads_wfD:
  assumes "pool_threads_wf s"
  shows "pw s \<noteq> []" "AboutToWait \<in> set (pw s) \<Longrightarrow> task_queue (shared s) = []"
    "pool_running (shared s) \<longleftrightarrow> caller s \<notin> {ShutNotify, Joining, ShutDone}"
    "pool_running (shared s) \<Longrightarrow> Ended \<notin> set (pw s)"
    "pool_running (shared s) \<Longrightarrow> task_queue (shared s) \<noteq> [] \<Longrightarrow>
      caller s \<in> {NotifyOne, NotifyAll} \<or> (\<exists>w\<in>set (pw s). coming w)"
    "caller s = ShutDone \<Longrightarrow> set (pw s) \<subseteq> {Ended}"
  using assms unfolding pool_threads_wf_def by blast+

text \<open>One worker moves: from which states, to which states.\<close>

lemma worker_moves_wf:
  assumes wf: "pool_threads_wf s" and i: "i < length (pw s)" "pw s ! i \<noteq> Ended"
    and w: "w = AboutToWait \<Longrightarrow> task_queue (shared s) = []" "w = Ended \<Longrightarrow> \<not> pool_running (shared s)"
      "coming w \<or> task_queue (shared s) = [] \<or> \<not> pool_running (shared s)"
  shows "pool_threads_wf (set_pw i w s)"
  unfolding pool_threads_wf_def set_pw_simps
proof (intro conjI impI)
  show "(pw s)[i := w] \<noteq> []" using i(1) by auto
  show "task_queue (shared s) = []" if "AboutToWait \<in> set ((pw s)[i := w])"
    using that update_notin[of AboutToWait "pw s" w i] w(1) pool_threads_wfD(2)[OF wf] by argo
  show "pool_running (shared s) \<longleftrightarrow> caller s \<notin> {ShutNotify, Joining, ShutDone}" by (rule pool_threads_wfD(3)[OF wf])
  show "Ended \<notin> set ((pw s)[i := w])" if "pool_running (shared s)"
    using that update_notin[of Ended "pw s" w i] w(2) pool_threads_wfD(4)[OF wf] by argo
  show "caller s \<in> {NotifyOne, NotifyAll} \<or> (\<exists>w\<in>set ((pw s)[i := w]). coming w)"
    if "pool_running (shared s)" "task_queue (shared s) \<noteq> []"
    using that w(3) set_update_memI[OF i(1), of w] by blast
  show "set ((pw s)[i := w]) \<subseteq> {Ended}" if "caller s = ShutDone"
    using pool_threads_wfD(6)[OF wf that] i nth_mem[OF i(1)] by blast
qed

text \<open>After a notification every worker that is left is on its way.\<close>

lemma notified_wf:
  assumes wf: "pool_threads_wf s" and c: "caller s \<in> {NotifyOne, NotifyAll}" "caller s' = Calling"
    and ws: "set (pw s') \<subseteq> insert AtLock (set (pw s))" "Asleep \<notin> set (pw s')" "pw s' \<noteq> []"
    and shared: "shared s' = shared s"
  shows "pool_threads_wf s'"
proof -
  have run: "pool_running (shared s)" using pool_threads_wfD(3)[OF wf] c(1) by auto
  have about: "AboutToWait \<notin> set (pw s')" if "task_queue (shared s) \<noteq> []" using that pool_threads_wfD(2)[OF wf] ws(1) by blast
  have ended: "Ended \<notin> set (pw s')" using pool_threads_wfD(4)[OF wf run] ws(1) by blast
  have "\<exists>w\<in>set (pw s'). coming w" if "task_queue (shared s) \<noteq> []"
    using about[OF that] ended ws(2,3) by (intro all_coming) simp_all
  then show ?thesis using run about ended ws(3) c(2) unfolding pool_threads_wf_def shared by auto
qed

lemma tp_wait_Popped: "tp_wait p = (Popped t, p') \<Longrightarrow> task_queue p \<noteq> [] \<and> pool_running p' = pool_running p \<and> task_queue p = t # task_queue p'"
  by (auto simp: tp_wait_def split: if_splits)

lemma tp_wait_Blocked: "tp_wait p = (Blocked, p') \<Longrightarrow> task_queue p = [] \<and> pool_running p"
  by (auto simp: tp_wait_def split: if_splits)

lemma tp_wait_Finished: "tp_wait p = (Finished, p') \<Longrightarrow> task_queue p = [] \<and> \<not> pool_running p"
  by (auto simp: tp_wait_def split: if_splits)

lemma pool_threads_step_wf:
  assumes "pool_threads_wf s" "pool_thread_step sp s s'"
  shows "pool_threads_wf s'"
  using assms(2,1)
proof (induction rule: pool_thread_step.induct)
  case (loop_test i s)
  then show ?case by (intro worker_moves_wf; cases "pool_running (shared s)"; simp)
next
  case (must_wait i s p)
  then show ?case by (intro worker_moves_wf) (auto dest: tp_wait_Blocked)
next
  case (gets_task i s t p)
  then have wf: "pool_threads_wf (set_pw i (Busy t) s)" by (intro worker_moves_wf) auto
  have "Busy t \<in> set ((pw s)[i := Busy t])" using gets_task(1) by (rule set_update_memI)
  then have "\<exists>w\<in>set ((pw s)[i := Busy t]). coming w" by force
  moreover have "AboutToWait \<notin> set ((pw s)[i := Busy t])"
    using gets_task(3) by (intro update_notin) (simp_all add: mutex_free_def)
  ultimately show ?case
    using pool_threads_wfD[OF wf] tp_wait_Popped[OF gets_task(4)] unfolding pool_threads_wf_def by simp
next
  case (gets_end i s p)
  then show ?case by (intro worker_moves_wf) (auto dest: tp_wait_Finished)
next
  case (sleeps i s)
  then have "task_queue (shared s) = []" using nth_mem[OF sleeps(1)] pool_threads_wfD(2)[OF sleeps(3)] by simp
  then show ?case using sleeps by (intro worker_moves_wf) auto
next
  case (wakes_up i s)
  then show ?case by (intro worker_moves_wf) auto
next
  case (runs i s t)
  then show ?case by (intro worker_moves_wf) auto
next
  case (push s t)
  then show ?case using pool_threads_wfD[OF push(3)] unfolding pool_threads_wf_def mutex_free_def by (simp add: tp_defs)
next
  case (push_many s ts)
  then show ?case using pool_threads_wfD[OF push_many(3)] unfolding pool_threads_wf_def mutex_free_def by (simp add: tp_defs)
next
  case (notify_one s i)
  then have wf: "pool_threads_wf (set_pw i AtLock s)" by (intro worker_moves_wf) auto
  have "AtLock \<in> set ((pw s)[i := AtLock])" using notify_one(2) by (rule set_update_memI)
  then have "\<exists>w\<in>set ((pw s)[i := AtLock]). coming w" by force
  then show ?case using pool_threads_wfD[OF wf] notify_one(1) unfolding pool_threads_wf_def by simp
next
  case (notify_none s)
  then show ?case using pool_threads_wfD(1)[OF notify_none(3)] by (auto intro: notified_wf[OF notify_none(3)])
next
  case (notify_all s)
  then show ?case using pool_threads_wfD(1)[OF notify_all(2)] by (auto intro: notified_wf[OF notify_all(2)])
next
  case (shutdown s)
  then show ?case using pool_threads_wfD[OF shutdown(3)] unfolding pool_threads_wf_def by (simp add: tp_defs)
next
  case (shutdown_wakes s)
  then have "\<not> pool_running (shared s)" using pool_threads_wfD(3)[OF shutdown_wakes(2)] by simp
  then show ?case using pool_threads_wfD[OF shutdown_wakes(2)] unfolding pool_threads_wf_def by auto
next
  case (joins s)
  then show ?case using pool_threads_wfD[OF joins(3)] unfolding pool_threads_wf_def by simp
qed

interpretation pool_threads: inductive_invariant "\<lambda>s :: 'a pool_threads. \<exists>n>0. pool_start n s" "pool_thread_step sp" pool_threads_wf
proof
  fix s :: "'a pool_threads" assume "\<exists>n>0. pool_start n s"
  then obtain n where "n > 0" "s = \<lparr>pw = replicate n AtLoop, caller = Calling, shared = tp_new\<rparr>"
    by (auto simp: pool_start_def)
  then show "pool_threads_wf s" by (simp add: pool_threads_wf_def tp_new_def)
qed (rule pool_threads_step_wf)

section \<open>Where the threads stop\<close>

lemma stuckE: "pool_stuck s \<Longrightarrow> pool_thread_step False s s' \<Longrightarrow> P"
  by (simp add: pool_stuck_def)

lemma stuck_worker:
  assumes stuck: "pool_stuck s" and w: "w \<in> set (pw s)"
  shows "w = Asleep \<or> w = Ended"
proof -
  have free: "mutex_free s" unfolding mutex_free_def
  proof
    assume "AboutToWait \<in> set (pw s)"
    then obtain i where "i < length (pw s)" "pw s ! i = AboutToWait" by (auto simp: in_set_conv_nth)
    then show False by (rule stuckE[OF stuck sleeps])
  qed
  obtain i where i: "i < length (pw s)" "pw s ! i = w" using w by (auto simp: in_set_conv_nth)
  obtain r p where r: "tp_wait (shared s) = (r, p)" by force
  show ?thesis
  proof (cases w)
    case AtLoop with i show ?thesis by (auto intro: stuckE[OF stuck loop_test[OF i(1)]])
  next
    case AtLock
    then have l: "pw s ! i = AtLock" using i(2) by simp
    show ?thesis
    proof (cases r)
      case (Popped t) with r show ?thesis by (auto intro: stuckE[OF stuck gets_task[OF i(1) l free]])
    next
      case Blocked with r show ?thesis by (auto intro: stuckE[OF stuck must_wait[OF i(1) l free]])
    next
      case Finished with r show ?thesis by (auto intro: stuckE[OF stuck gets_end[OF i(1) l free]])
    qed
  next
    case AboutToWait with i show ?thesis by (auto intro: stuckE[OF stuck sleeps[OF i(1)]])
  next
    case (Busy t) with i show ?thesis by (auto intro: stuckE[OF stuck runs[OF i(1)]])
  qed simp_all
qed

text \<open>The hanging shutdown.\<close>

definition pool_hang :: "nat \<Rightarrow> 'a pool_threads" where
  "pool_hang k = \<lparr>pw = Asleep # replicate k Ended, caller = Joining, shared = tp_shutdown tp_new\<rparr>"

lemma hang_ends:
  "j \<le> k \<Longrightarrow> (pool_thread_step False)\<^sup>*\<^sup>* \<lparr>pw = Asleep # replicate k AtLoop, caller = Joining, shared = tp_shutdown tp_new\<rparr>
     (\<lparr>pw = Asleep # replicate j Ended @ replicate (k - j) AtLoop, caller = Joining, shared = tp_shutdown tp_new\<rparr> :: 'a pool_threads)"
proof (induction j)
  case (Suc j)
  let ?s = "\<lparr>pw = Asleep # replicate j Ended @ replicate (k - j) AtLoop, caller = Joining, shared = tp_shutdown tp_new\<rparr> :: 'a pool_threads"
  have k: "k - j = Suc (k - Suc j)" using Suc.prems by simp
  have "pool_thread_step False ?s (set_pw (Suc j) (if pool_running (shared ?s) then AtLock else Ended) ?s)"
    by (rule loop_test) (simp_all add: k nth_append)
  moreover have "set_pw (Suc j) (if pool_running (shared ?s) then AtLock else Ended) ?s =
      \<lparr>pw = Asleep # replicate (Suc j) Ended @ replicate (k - Suc j) AtLoop, caller = Joining, shared = tp_shutdown tp_new\<rparr>"
    by (simp add: set_pw_def k tp_defs list_update_append replicate_app_Cons_same)
  ultimately show ?case using Suc.IH Suc.prems by (metis Suc_leD rtranclp.rtrancl_into_rtrancl)
qed simp

lemma pool_hang_reachable: "reachable (pool_start (Suc k)) (pool_thread_step False) (pool_hang k :: 'a pool_threads)"
proof -
  let ?st = "\<lambda>w c p. \<lparr>pw = w # replicate k AtLoop, caller = c, shared = p\<rparr> :: 'a pool_threads"
  let ?stop = "tp_shutdown tp_new :: 'a thread_pool"
  note add = reachable_step[where step = "pool_thread_step False"]
  have r: "reachable (pool_start (Suc k)) (pool_thread_step False) (?st AtLoop Calling tp_new)"
    by (rule reachable_init) (simp add: pool_start_def)
  have "pool_thread_step False (?st AtLoop Calling tp_new) (?st AtLock Calling tp_new)"
    using loop_test[of 0 "?st AtLoop Calling tp_new"] by (simp add: set_pw_def tp_new_def)
  note r = add[OF r this]
  have "pool_thread_step False (?st AtLock Calling tp_new) (?st AboutToWait Calling tp_new)"
    using must_wait[of 0 "?st AtLock Calling tp_new" tp_new False] by (simp add: set_pw_def mutex_free_def tp_new_def tp_wait_def)
  note r = add[OF r this]
  have "pool_thread_step False (?st AboutToWait Calling tp_new) (?st AboutToWait ShutNotify ?stop)"
    using shutdown[of "?st AboutToWait Calling tp_new"] by (simp add: tp_new_def)
  note r = add[OF r this]
  have "pool_thread_step False (?st AboutToWait ShutNotify ?stop) (?st AboutToWait Joining ?stop)"
    using shutdown_wakes[of "?st AboutToWait ShutNotify ?stop"] by (simp add: wake_all_def)
  note r = add[OF r this]
  have "pool_thread_step False (?st AboutToWait Joining ?stop) (?st Asleep Joining ?stop)"
    using sleeps[of 0 "?st AboutToWait Joining ?stop"] by (simp add: set_pw_def)
  note r = add[OF r this]
  show ?thesis
    using r hang_ends[of k k] unfolding reachable_def pool_hang_def by (auto intro: rtranclp_trans)
qed

lemma pool_hang_stuck: "pool_stuck (pool_hang k)"
  unfolding pool_stuck_def
proof (intro allI notI)
  fix s' :: "'a pool_threads" assume "pool_thread_step False (pool_hang k) s'"
  then show False
    by (rule pool_thread_stepE) (auto simp: pool_hang_def nth_Cons split: nat.splits)
qed

section \<open>Properties\<close>

text \<open>C26: No task is forgotten while the pool runs: whenever tasks are queued, either the thread that
  pushed them is about to notify, or a worker is on its way back to the queue; so no task waits for a
  worker that sleeps, however pushes, batches, wake-ups and tasks interleave.\<close>

theorem pool_no_task_forgotten:
  assumes "reachable (\<lambda>s. \<exists>n>0. pool_start n s) (pool_thread_step spurious) s"
    "pool_running (shared s)" "task_queue (shared s) \<noteq> []" "caller s = Calling"
  shows "\<exists>w\<in>set (pw s). coming w"
  using pool_threads_wfD(5)[OF pool_threads.inv_reachable[OF assms(1)] assms(2,3)] assms(4) by simp

theorem pool_no_task_forgotten_witness:
  "\<exists>w\<in>set [AtLoop :: nat pool_worker]. coming w"
proof -
  let ?s = "\<lambda>c p. \<lparr>pw = [AtLoop], caller = c, shared = p\<rparr> :: nat pool_threads"
  let ?q = "tp_push_task 7 tp_new :: nat thread_pool"
  note add = reachable_step[where step = "pool_thread_step False"]
  have r: "reachable (\<lambda>s. \<exists>n>0. pool_start n s) (pool_thread_step False) (?s Calling tp_new)"
    by (rule reachable_init) (auto simp: pool_start_def intro!: exI[of _ 1])
  have "pool_thread_step False (?s Calling tp_new) (?s NotifyOne ?q)"
    using push[of "?s Calling tp_new" False 7] by (simp add: mutex_free_def)
  note r = add[OF r this]
  have "pool_thread_step False (?s NotifyOne ?q) (?s Calling ?q)"
    using notify_none[of "?s NotifyOne ?q"] by simp
  note r = add[OF r this]
  show ?thesis using pool_no_task_forgotten[OF r] by (simp add: tp_defs)
qed

text \<open>The threads of the pool stop in two ways only: after a shutdown that has joined all workers, or in
  a shutdown that waits for a worker that sleeps for ever.\<close>

theorem pool_stuck_states:
  assumes "reachable (\<lambda>s. \<exists>n>0. pool_start n s) (pool_thread_step False) s" "pool_stuck s"
  shows "caller s = ShutDone \<and> set (pw s) = {Ended} \<or>
    caller s = Joining \<and> Asleep \<in> set (pw s) \<and> set (pw s) \<subseteq> {Asleep, Ended} \<and> \<not> pool_running (shared s)"
proof -
  note wf = pool_threads.inv_reachable[OF assms(1)] and stuck = stuckE[OF assms(2)]
  have ws: "set (pw s) \<subseteq> {Asleep, Ended}" using stuck_worker[OF assms(2)] by blast
  then have free: "mutex_free s" by (auto simp: mutex_free_def)
  show ?thesis
  proof (cases "caller s")
    case Calling then show ?thesis by (rule stuck[OF push[OF _ free]])
  next
    case NotifyOne
    show ?thesis
    proof (cases "Asleep \<in> set (pw s)")
      case True
      then obtain i where "i < length (pw s)" "pw s ! i = Asleep" by (auto simp: in_set_conv_nth)
      with NotifyOne show ?thesis by (rule stuck[OF notify_one])
    next
      case False
      with NotifyOne show ?thesis by (rule stuck[OF notify_none])
    qed
  next
    case NotifyAll then show ?thesis by (rule stuck[OF notify_all])
  next
    case ShutNotify then show ?thesis by (rule stuck[OF shutdown_wakes])
  next
    case Joining
    then have "\<not> set (pw s) \<subseteq> {Ended}" using stuck[OF joins] by blast
    then show ?thesis using ws Joining pool_threads_wfD(3)[OF wf] by auto
  next
    case ShutDone
    then show ?thesis using pool_threads_wfD(1,6)[OF wf] by (auto simp: neq_Nil_conv)
  qed
qed

theorem pool_stuck_states_witness:
  "Asleep \<in> set (pw (pool_hang 4 :: nat pool_threads)) \<and> \<not> pool_running (shared (pool_hang 4 :: nat pool_threads))"
proof -
  have "reachable (\<lambda>s. \<exists>n>0. pool_start n s) (pool_thread_step False) (pool_hang 4 :: nat pool_threads)"
    using pool_hang_reachable[of 4] unfolding reachable_def by blast
  from pool_stuck_states[OF this pool_hang_stuck] show ?thesis by (simp add: pool_hang_def)
qed

text \<open>C27: The shutdown can hang: \<open>shutdown\<close> clears \<open>running_\<close> and notifies without the mutex, so both may
  fall between a worker's test of the condition and its falling asleep; nobody wakes it again, and the
  join never returns. This holds for every number of workers.\<close>

theorem pool_shutdown_hangs:
  "reachable (pool_start (Suc k)) (pool_thread_step False) (pool_hang k :: 'a pool_threads) \<and>
   pool_stuck (pool_hang k :: 'a pool_threads) \<and> caller (pool_hang k :: 'a pool_threads) = Joining"
  using pool_hang_reachable[of k, where 'a = 'a] pool_hang_stuck[of k, where 'a = 'a] by (simp add: pool_hang_def[of k])

end
