(* ===== verification/ServerV3.thy ===== *)
theory ServerV3
  imports Complex_Main WebServer CodecV3
begin

text \<open>
  The server of version 3 (\<open>v3/webserver.cpp\<close>, \<open>v3/webserver.h\<close>, \<open>v3/connection.h\<close>) with its
  application (\<open>v3/chatapp.h\<close>). What happens on one connection (\<open>attempt_write\<close>,
  \<open>SendPreEncoded\<close>, the read loop, the timers) is the same code as in version 4 and is taken from there;
  what differs is here: the application is called back instead of sent events, a message is a
  task of the pool, broadcasts go to logged-in clients only and are encoded for each. The names
  of the code carry the suffix \<open>3\<close>.
\<close>

section \<open>Text\<close>

definition raw :: "string \<Rightarrow> byte list" where
  "raw s = map of_char s"

definition plain_text :: "byte list \<Rightarrow> string" where
  "plain_text bs = map (\<lambda>b. char_of (unat b)) bs"

section \<open>State\<close>

text \<open>\<open>link3\<close> is the part of a connection that version 4 still has.\<close>

record connection3 =
  link3 :: "unit connection"
  username3 :: string
  active3 :: bool
  recipient3 :: bool
  tokens3 :: rat
  max_tokens3 :: rat
  refill_rate3 :: rat
  last_refill3 :: nat

definition new_connection3 :: "int \<Rightarrow> nat \<Rightarrow> kernel_socket \<Rightarrow> connection3" where
  "new_connection3 fd now k =
     \<lparr>link3 = new_connection fd now k, username3 = '''', active3 = False, recipient3 = False, tokens3 = 60,
      max_tokens3 = 60, refill_rate3 = 1, last_refill3 = now\<rparr>"

datatype task3 = MessageTask nat "byte list" | BroadcastTask nat "broadcast_event list"

record web_server3 =
  heap3 :: "nat \<Rightarrow> connection3"
  next3 :: nat
  shards3 :: "shard list"
  global_queue3 :: "broadcast_event list"
  notify3 :: nat
  pool3 :: "task3 thread_pool"
  metrics3 :: server_metrics
  running3 :: bool
  usernames3 :: "string list"
  closed_fds3 :: "int list"
  listen_fd3 :: int
  epoll_fd3 :: int
  sig_fd3 :: int
  notify_fd3 :: int
  timer_fd3 :: int
  server_fds3 :: "int list"
  stats_accumulator3 :: u64
  ticks3 :: u64

definition get_shard_idx3 :: "web_server3 \<Rightarrow> int \<Rightarrow> nat" where
  "get_shard_idx3 s fd = unat (word_of_int fd :: u64) mod length (shards3 s)"

definition upd3 :: "nat \<Rightarrow> (connection3 \<Rightarrow> connection3) \<Rightarrow> web_server3 \<Rightarrow> web_server3" where
  "upd3 cid f s = s\<lparr>heap3 := (heap3 s)(cid := f (heap3 s cid))\<rparr>"

text \<open>An operation of the shared part, which also counts.\<close>

definition upd_link3 ::
  "nat \<Rightarrow> (server_metrics \<Rightarrow> unit connection \<Rightarrow> server_metrics \<times> unit connection) \<Rightarrow> web_server3 \<Rightarrow> web_server3" where
  "upd_link3 cid f s =
     (let (m, l) = f (metrics3 s) (link3 (heap3 s cid)) in (upd3 cid (\<lambda>c. c\<lparr>link3 := l\<rparr>) s)\<lparr>metrics3 := m\<rparr>)"

definition upd_shard3 :: "nat \<Rightarrow> (shard \<Rightarrow> shard) \<Rightarrow> web_server3 \<Rightarrow> web_server3" where
  "upd_shard3 i f s = s\<lparr>shards3 := (shards3 s)[i := f (shards3 s ! i)]\<rparr>"

section \<open>Sending\<close>

definition SendPreEncoded3 :: "nat \<Rightarrow> byte list \<Rightarrow> web_server3 \<Rightarrow> web_server3" where
  "SendPreEncoded3 cid packet s = upd_link3 cid (send_pre_encoded packet) s"

text \<open>\<open>Send\<close> makes sure that there is a codec.\<close>

definition Send3 :: "nat \<Rightarrow> byte list \<Rightarrow> web_server3 \<Rightarrow> web_server3" where
  "Send3 cid data s =
     (if closed (link3 (heap3 s cid)) then s
      else let s1 = (if \<not> has_codec (link3 (heap3 s cid))
                     then upd3 cid (\<lambda>c. c\<lparr>link3 := (link3 c)\<lparr>has_codec := True\<rparr>\<rparr>) s else s);
               raw_bytes = lp_encode data
           in SendPreEncoded3 cid raw_bytes s1)"

definition Broadcast3 :: "byte list \<Rightarrow> int \<Rightarrow> web_server3 \<Rightarrow> web_server3" where
  "Broadcast3 data exclude_fd s =
     (let evt = \<lparr>sender_fd = exclude_fd, bpayload = data\<rparr>;
          s1 = s\<lparr>global_queue3 := global_queue3 s @ [evt]\<rparr>
      in s1\<lparr>notify3 := notify3 s1 + 1\<rparr>)"

text \<open>\<open>SendFast\<close> of the application.\<close>

definition SendFast :: "nat \<Rightarrow> string \<Rightarrow> web_server3 \<Rightarrow> web_server3" where
  "SendFast cid msg s =
     (if \<not> has_codec (link3 (heap3 s cid)) then s
      else let encoded = lp_encode (raw msg) in SendPreEncoded3 cid encoded s)"

section \<open>The hooks for connecting and disconnecting\<close>

definition WELCOME :: string where
  "WELCOME = ''[Server]: Welcome! Please enter your username: ''"

definition OnClientConnect :: "nat \<Rightarrow> web_server3 \<Rightarrow> web_server3" where
  "OnClientConnect cid s =
     SendFast cid WELCOME (upd3 cid (\<lambda>c. c\<lparr>link3 := (link3 c)\<lparr>has_codec := True\<rparr>\<rparr>) s)"

definition OnClientDisconnect :: "nat \<Rightarrow> web_server3 \<Rightarrow> web_server3" where
  "OnClientDisconnect cid s =
     (let c = heap3 s cid;
          (left_user, s1) = (if username3 c \<noteq> ''''
                             then (username3 c, s\<lparr>usernames3 := removeAll (username3 c) (usernames3 s)\<rparr>)
                             else ('''', s))
      in if left_user \<noteq> ''''
         then Broadcast3 (raw (''[Server]: '' @ left_user @ '' has left the chat.'' @ [CHR 0x0A])) (-1) s1
         else s1)"

section \<open>The reactor\<close>

definition accept_one3 :: "nat \<Rightarrow> int \<Rightarrow> kernel_socket \<Rightarrow> web_server3 \<Rightarrow> web_server3" where
  "accept_one3 now fd k s =
     (let cid = next3 s;
          s1 = s\<lparr>heap3 := (heap3 s)(cid := new_connection3 fd now k), next3 := cid + 1\<rparr>;
          s2 = upd_shard3 (get_shard_idx3 s1 fd)
                 (\<lambda>sh. sh\<lparr>connections := AList.update fd cid (connections sh),
                          timer_heap := heap_push (TimerEvent (now + CONNECTION_TIMEOUT) fd) (timer_heap sh)\<rparr>) s1;
          s3 = upd3 cid (\<lambda>c. c\<lparr>link3 := (add_fd_to_epoll EPOLLIN (link3 c))\<lparr>current_epoll_events := EPOLLIN\<rparr>\<rparr>) s2;
          s4 = s3\<lparr>metrics3 := on_connection_accepted (metrics3 s3)\<rparr>
      in OnClientConnect cid s4)"

fun accept_loop3 :: "nat \<Rightarrow> (int \<times> kernel_socket) list \<Rightarrow> web_server3 \<Rightarrow> web_server3" where
  "accept_loop3 now [] s = s"
| "accept_loop3 now ((fd, k) # accepted) s = accept_loop3 now accepted (accept_one3 now fd k s)"

definition close_conn3 :: "nat \<Rightarrow> web_server3 \<Rightarrow> web_server3" where
  "close_conn3 cid s =
     (if closed (link3 (heap3 s cid)) then s
      else let s1 = upd3 cid (\<lambda>c. c\<lparr>link3 := (link3 c)\<lparr>closed := True\<rparr>\<rparr>) s;
               s2 = s1\<lparr>metrics3 := on_connection_closed (metrics3 s1)\<rparr>;
               s3 = OnClientDisconnect cid s2;
               s4 = upd3 cid (\<lambda>c. c\<lparr>link3 := (link3 c)\<lparr>ksock := (ksock (link3 c))\<lparr>interest := None\<rparr>\<rparr>\<rparr>) s3;
               fd = sock (link3 (heap3 s4 cid))
           in upd_shard3 (get_shard_idx3 s4 fd) (\<lambda>sh. sh\<lparr>connections := AList.delete fd (connections sh)\<rparr>) s4)"

text \<open>The read loop decodes with the codec of the connection, which is always the length-prefixed one,
  that is \<open>packet_decode\<close> (\<open>lp_decode_packet\<close>). Every message becomes a task.\<close>

definition push_message_task :: "nat \<Rightarrow> byte list \<Rightarrow> web_server3 \<Rightarrow> web_server3" where
  "push_message_task cid p s = s\<lparr>pool3 := tp_push_task (MessageTask cid p) (pool3 s)\<rparr>"

definition handle_read3 :: "nat \<Rightarrow> nat \<Rightarrow> web_server3 \<Rightarrow> web_server3" where
  "handle_read3 now cid s =
     (case read_loop now (metrics3 s) (link3 (heap3 s cid)) of
        (should_close, msgs, m, l) \<Rightarrow>
          (let s1 = fold (push_message_task cid) msgs ((upd3 cid (\<lambda>c. c\<lparr>link3 := l\<rparr>) s)\<lparr>metrics3 := m\<rparr>)
           in if should_close then close_conn3 cid s1 else s1))"

definition handle_write3 :: "nat \<Rightarrow> web_server3 \<Rightarrow> web_server3" where
  "handle_write3 cid s =
     (case handle_write_conn (metrics3 s) (link3 (heap3 s cid)) of
        (should_close, m, l) \<Rightarrow>
          (let s1 = (upd3 cid (\<lambda>c. c\<lparr>link3 := l\<rparr>) s)\<lparr>metrics3 := m\<rparr>
           in if should_close then close_conn3 cid s1 else s1))"

definition shard_conns3 :: "nat \<Rightarrow> web_server3 \<Rightarrow> nat list" where
  "shard_conns3 i s = map snd (connections (shards3 s ! i))"

definition flush_shard3 :: "(nat \<Rightarrow> bool) \<Rightarrow> nat \<Rightarrow> web_server3 \<Rightarrow> web_server3" where
  "flush_shard3 locks i s =
     (let active = filter (\<lambda>cid. \<not> closed (link3 (heap3 s cid)) \<and> outgoing_queue (link3 (heap3 s cid)) \<noteq> []) (shard_conns3 i s)
      in fold (\<lambda>cid. upd_link3 cid (flush_conn (locks cid))) active s)"

definition flush_all_queues3 :: "(nat \<Rightarrow> bool) \<Rightarrow> web_server3 \<Rightarrow> web_server3" where
  "flush_all_queues3 locks s = fold (flush_shard3 locks) [0..<length (shards3 s)] s"

definition sweep_shard3 :: "nat \<Rightarrow> nat \<Rightarrow> web_server3 \<Rightarrow> nat list \<times> web_server3" where
  "sweep_shard3 now i s =
     (let look = (\<lambda>fd. map_option (\<lambda>cid. (cid, last_activity (link3 (heap3 s cid)))) (map_of (connections (shards3 s ! i)) fd))
      in case sweep now look (timer_heap (shards3 s ! i)) of
          (h, out) \<Rightarrow> (out, upd_shard3 i (\<lambda>sh. sh\<lparr>timer_heap := h\<rparr>) s))"

fun sweep_shards3 :: "nat \<Rightarrow> nat list \<Rightarrow> web_server3 \<Rightarrow> nat list \<times> web_server3" where
  "sweep_shards3 now [] s = ([], s)"
| "sweep_shards3 now (i # is) s =
     (let (out, s1) = sweep_shard3 now i s; (outs, s2) = sweep_shards3 now is s1 in (out @ outs, s2))"

definition timeout_conn3 :: "nat \<Rightarrow> web_server3 \<Rightarrow> web_server3" where
  "timeout_conn3 cid s = close_conn3 cid (s\<lparr>metrics3 := on_timeout (metrics3 s)\<rparr>)"

definition check_timeouts3 :: "nat \<Rightarrow> web_server3 \<Rightarrow> web_server3" where
  "check_timeouts3 now s =
     (case sweep_shards3 now [0..<length (shards3 s)] s of (timed_out, s1) \<Rightarrow> fold timeout_conn3 timed_out s1)"

section \<open>Broadcasts\<close>

definition process_global_queue3 :: "web_server3 \<Rightarrow> web_server3" where
  "process_global_queue3 s =
     (if global_queue3 s = [] then s
      else let events = global_queue3 s;
               batch_tasks = map (\<lambda>i. BroadcastTask i events) [0..<length (shards3 s)];
               s1 = s\<lparr>global_queue3 := []\<rparr>
           in if batch_tasks \<noteq> [] then s1\<lparr>pool3 := tp_push_batch batch_tasks (pool3 s1)\<rparr> else s1)"

definition task_snapshot3 :: "nat \<Rightarrow> web_server3 \<Rightarrow> nat list" where
  "task_snapshot3 i s =
     filter (\<lambda>cid. \<not> closed (link3 (heap3 s cid)) \<and> recipient3 (heap3 s cid)) (shard_conns3 i s)"

text \<open>The events of a batch on one connection, each encoded again.\<close>

fun enqueue_broadcasts3 ::
  "broadcast_event list \<Rightarrow> bool \<Rightarrow> server_metrics \<Rightarrow> unit connection \<Rightarrow> bool \<times> server_metrics \<times> unit connection" where
  "enqueue_broadcasts3 [] added_any m c = (added_any, m, c)"
| "enqueue_broadcasts3 (evt # evts) added_any m c =
     (if sender_fd evt \<noteq> -1 \<and> sock c = sender_fd evt then enqueue_broadcasts3 evts added_any m c
      else if length (outgoing_queue c) \<ge> MAX_OUTGOING_QUEUE_SIZE
      then (added_any,
            if length (outgoing_queue c) = MAX_OUTGOING_QUEUE_SIZE then on_message_dropped m else m, c)
      else let packet = lp_encode_into (bpayload evt) [];
               pkt = \<lparr>payload = packet, sent_offset = 0\<rparr>
           in enqueue_broadcasts3 evts True m
                (c\<lparr>outgoing_queue := outgoing_queue c @ [pkt], pending_bytes := pending_bytes c + length packet\<rparr>))"

definition deliver_conn3 ::
  "broadcast_event list \<Rightarrow> server_metrics \<Rightarrow> unit connection \<Rightarrow> server_metrics \<times> unit connection" where
  "deliver_conn3 evts m c =
     (if closed c then (m, c)
      else case enqueue_broadcasts3 evts False m c of
          (added_any, m1, c1) \<Rightarrow>
            if \<not> added_any then (m1, c1)
            else write_and_arm m1
                   (if \<not> is_reading_paused c1 \<and> pending_bytes c1 \<ge> HIGH_WATER_MARK
                    then c1\<lparr>is_reading_paused := True\<rparr> else c1))"

section \<open>The message hook\<close>

text \<open>
  \<open>OnMessageRecv\<close> in its critical sections. The first runs under the mutex of the connection and,
  for a login, under \<open>app_mtx_\<close> inside: rate limit, test and reservation of the name. The second
  finishes a login, still under the mutex of the connection. What is sent follows without locks.
\<close>

datatype call3 = CallSend nat string | CallBroadcast string int | CallClose nat

datatype hook_result = Calls "call3 list" | NameTaken string

definition SPAM_NOTICE :: string where
  "SPAM_NOTICE = ''[Server]: You are sending messages too quickly, upgrade to premium! Disconnecting...'' @ [CHR 0x0A]"

definition TAKEN_NOTICE :: string where
  "TAKEN_NOTICE = ''[Server]: Invalid or taken. Try again: ''"

definition refill3 :: "(rat \<Rightarrow> rat) \<Rightarrow> nat \<Rightarrow> connection3 \<Rightarrow> connection3" where
  "refill3 fl now c =
     (let seconds = fl (rat_of_int (int now - int (last_refill3 c)) / 1000000000);
          t = fl (tokens3 c + fl (seconds * refill_rate3 c))
      in c\<lparr>tokens3 := (if t > max_tokens3 c then max_tokens3 c else t), last_refill3 := now\<rparr>)"

definition chat_text :: "string \<Rightarrow> string \<Rightarrow> string" where
  "chat_text name body = ''['' @ name @ '']: '' @ body @ [CHR 0x0A]"

definition message_start :: "(rat \<Rightarrow> rat) \<Rightarrow> nat \<Rightarrow> nat \<Rightarrow> byte list \<Rightarrow> web_server3 \<Rightarrow> hook_result \<times> web_server3" where
  "message_start fl now cid raw_msg s =
     (if closed (link3 (heap3 s cid)) then (Calls [], s)
      else let s1 = upd3 cid (refill3 fl now) s
           in if tokens3 (heap3 s1 cid) < 1 then (Calls [CallSend cid SPAM_NOTICE, CallClose cid], s1)
              else let s2 = upd3 cid (\<lambda>c. c\<lparr>tokens3 := fl (tokens3 c - 1)\<rparr>) s1;
                       body = plain_text raw_msg;
                       c = heap3 s2 cid
                   in if \<not> active3 c
                      then if body \<notin> set (usernames3 s2) \<and> body \<noteq> ''''
                           then (NameTaken body, s2\<lparr>usernames3 := body # usernames3 s2\<rparr>)
                           else (Calls [CallSend cid TAKEN_NOTICE], s2)
                      else (Calls [CallBroadcast (chat_text (username3 c) body) (sock (link3 c))], s2))"

definition message_login :: "nat \<Rightarrow> string \<Rightarrow> web_server3 \<Rightarrow> call3 list \<times> web_server3" where
  "message_login cid name s =
     (let s1 = upd3 cid (\<lambda>c. c\<lparr>username3 := name, active3 := True, recipient3 := True\<rparr>) s
      in ([CallSend cid (''[Server]: Username accepted! :)'' @ [CHR 0x0A]),
           CallBroadcast (''[Server]: '' @ name @ '' joined!'' @ [CHR 0x0A]) (sock (link3 (heap3 s1 cid)))], s1))"

definition do_call :: "call3 \<Rightarrow> web_server3 \<Rightarrow> web_server3" where
  "do_call c s = (case c of
      CallSend cid msg \<Rightarrow> SendFast cid msg s
    | CallBroadcast msg fd \<Rightarrow> Broadcast3 (raw msg) fd s
    | CallClose cid \<Rightarrow> close_conn3 cid s)"

text \<open>The hook in one piece, as it runs when nothing comes between.\<close>

definition OnMessageRecv :: "(rat \<Rightarrow> rat) \<Rightarrow> nat \<Rightarrow> nat \<Rightarrow> byte list \<Rightarrow> web_server3 \<Rightarrow> web_server3" where
  "OnMessageRecv fl now cid raw_msg s =
     (case message_start fl now cid raw_msg s of
        (Calls cs, s1) \<Rightarrow> fold do_call cs s1
      | (NameTaken name, s1) \<Rightarrow> (let (cs, s2) = message_login cid name s1 in fold do_call cs s2))"

section \<open>Construction, the loop and the end\<close>

definition add_server_fd3 :: "int \<Rightarrow> web_server3 \<Rightarrow> web_server3" where
  "add_server_fd3 fd s = (if fd < 0 \<or> fd \<in> set (server_fds3 s) then s else s\<lparr>server_fds3 := server_fds3 s @ [fd]\<rparr>)"

definition blank_server3 :: web_server3 where
  "blank_server3 =
     \<lparr>heap3 = \<lambda>_. new_connection3 (-1) 0 \<lparr>interest = None, wire = [], wscript = [], rscript = []\<rparr>, next3 = 0,
      shards3 = replicate NUM_SHARDS \<lparr>connections = [], timer_heap = []\<rparr>, global_queue3 = [], notify3 = 0,
      pool3 = tp_new, metrics3 = metrics_init, running3 = True, usernames3 = [], closed_fds3 = [],
      listen_fd3 = -1, epoll_fd3 = -1, sig_fd3 = -1, notify_fd3 = -1, timer_fd3 = -1, server_fds3 = [],
      stats_accumulator3 = 0, ticks3 = 0\<rparr>"

text \<open>The setup calls in the order of the constructor; every failure exits.\<close>

definition setup_signalfd3 :: "setup_env \<Rightarrow> web_server3 \<Rightarrow> web_server3 option" where
  "setup_signalfd3 env s =
     (if \<not> sigprocmask_ok env then None
      else let s1 = s\<lparr>sig_fd3 := signalfd_ret env\<rparr> in if sig_fd3 s1 = -1 then None else Some s1)"

definition setup_server_socket3 :: "setup_env \<Rightarrow> web_server3 \<Rightarrow> web_server3 option" where
  "setup_server_socket3 env s =
     (let s1 = s\<lparr>listen_fd3 := socket_ret env\<rparr>
      in if listen_fd3 s1 < 0 \<or> \<not> setsockopt_ok env \<or> \<not> bind_ok env \<or> \<not> listen_ok env then None else Some s1)"

definition setup_epoll3 :: "setup_env \<Rightarrow> web_server3 \<Rightarrow> web_server3 option" where
  "setup_epoll3 env s =
     (let s1 = s\<lparr>epoll_fd3 := epoll_create_ret env\<rparr>
      in if epoll_fd3 s1 = -1 then None
         else Some (add_server_fd3 (notify_fd3 s1) (add_server_fd3 (sig_fd3 s1) (add_server_fd3 (listen_fd3 s1) s1))))"

definition setup_eventfd3 :: "setup_env \<Rightarrow> web_server3 \<Rightarrow> web_server3 option" where
  "setup_eventfd3 env s =
     (let s1 = s\<lparr>notify_fd3 := eventfd_ret env\<rparr>
      in if notify_fd3 s1 = -1 then None else Some (add_server_fd3 (notify_fd3 s1) s1))"

definition setup_timerfd3 :: "setup_env \<Rightarrow> web_server3 \<Rightarrow> web_server3 option" where
  "setup_timerfd3 env s =
     (let s1 = s\<lparr>timer_fd3 := timerfd_ret env\<rparr>
      in if timer_fd3 s1 = -1 then None
         else if \<not> timerfd_settime_ok env then None
         else Some (add_server_fd3 (timer_fd3 s1) s1))"

definition new_server3 :: "setup_env \<Rightarrow> web_server3 option" where
  "new_server3 env =
     Option.bind (setup_signalfd3 env blank_server3) (\<lambda>s1.
     Option.bind (setup_server_socket3 env s1) (\<lambda>s2.
     Option.bind (setup_epoll3 env s2) (\<lambda>s3.
     Option.bind (setup_eventfd3 env s3) (setup_timerfd3 env))))"

definition handle_timer3 :: "wakeup \<Rightarrow> web_server3 \<Rightarrow> web_server3" where
  "handle_timer3 w s =
     (let s1 = flush_all_queues3 (\<lambda>cid. cid \<in> set (w_locks w)) s;
          s2 = s1\<lparr>stats_accumulator3 := stats_accumulator3 s1 + w_expirations w, ticks3 := ticks3 s1 + w_expirations w\<rparr>
      in if stats_accumulator3 s2 \<ge> 6000 then (check_timeouts3 (w_now w) s2)\<lparr>stats_accumulator3 := 0\<rparr> else s2)"

definition find_conn3 :: "int \<Rightarrow> web_server3 \<Rightarrow> nat option" where
  "find_conn3 fd s = map_of (connections (shards3 s ! get_shard_idx3 s fd)) fd"

definition handle_conn3 :: "wakeup \<Rightarrow> web_server3 \<Rightarrow> web_server3" where
  "handle_conn3 w s =
     (case find_conn3 (w_fd w) s of
        None \<Rightarrow> s
      | Some cid \<Rightarrow>
          if has_event (w_events w) (EPOLLERR OR EPOLLHUP) then close_conn3 cid s
          else let s1 = (if has_event (w_events w) EPOLLIN then handle_read3 (w_now w) cid s else s)
               in if has_event (w_events w) EPOLLOUT then handle_write3 cid s1 else s1)"

text \<open>The answers of the kernel to the calls on a connection.\<close>

definition kernel_answers3 :: "nat \<times> read_result list \<times> write_result list \<Rightarrow> web_server3 \<Rightarrow> web_server3" where
  "kernel_answers3 a s =
     (case a of (cid, rs, ws) \<Rightarrow>
        upd_link3 cid (\<lambda>m c. (m, c\<lparr>ksock := (ksock c)\<lparr>rscript := rscript (ksock c) @ rs, wscript := wscript (ksock c) @ ws\<rparr>\<rparr>)) s)"

text \<open>A batch of ready descriptors; the notification is handled where it comes.\<close>

fun run_batch3 :: "wakeup list \<Rightarrow> web_server3 \<Rightarrow> web_server3" where
  "run_batch3 [] s = s"
| "run_batch3 (w # ws) s0 =
     (let s = fold kernel_answers3 (w_answers w) s0
      in if w_fd w = listen_fd3 s then run_batch3 ws (accept_loop3 (w_now w) (w_accepted w) s)
         else if w_fd w = timer_fd3 s then run_batch3 ws (handle_timer3 w s)
         else if w_fd w = sig_fd3 s then s\<lparr>running3 := False\<rparr>
         else if w_fd w = notify_fd3 s then run_batch3 ws (process_global_queue3 (s\<lparr>notify3 := 0\<rparr>))
         else run_batch3 ws (handle_conn3 w s))"

definition Stop3 :: "web_server3 \<Rightarrow> web_server3" where
  "Stop3 s =
     (let s1 = s\<lparr>running3 := False, pool3 := tp_shutdown (pool3 s),
                 shards3 := map (\<lambda>sh. sh\<lparr>connections := []\<rparr>) (shards3 s)\<rparr>
      in s1\<lparr>closed_fds3 := closed_fds3 s1 @
              filter (\<lambda>fd. fd \<ge> 0) [listen_fd3 s1, epoll_fd3 s1, sig_fd3 s1, notify_fd3 s1, timer_fd3 s1]\<rparr>)"

fun Run3 :: "epoll_result list \<Rightarrow> web_server3 \<Rightarrow> bool \<times> web_server3" where
  "Run3 [] s = (if \<not> running3 s then (True, Stop3 s) else (False, s))"
| "Run3 (r # rs) s =
     (if \<not> running3 s then (True, Stop3 s)
      else case r of
          EIntr \<Rightarrow> Run3 rs s
        | EpollFailed \<Rightarrow> (True, Stop3 s)
        | Ready ws \<Rightarrow> Run3 rs (run_batch3 ws s))"

end
