(* ===== verification/ClientV3.thy ===== *)
theory ClientV3
  imports Client ServerV3
begin

text \<open>
  The terminal client of version 3 (\<open>v3/client.cpp\<close>, \<open>v3/client.h\<close>). It keeps what has arrived in a
  string instead of a ring, frames text instead of protobuf messages, and asks for the name until
  the server accepts one. The threads and their mutex are those of version 4 (\<open>ClientThreads\<close>).
  The names carry the suffix \<open>V3\<close>.
\<close>

section \<open>State\<close>

record client_v3 =
  sock_v3 :: int
  sig_v3 :: int
  name_v3 :: string
  prompt_v3 :: string
  line_v3 :: string
  in_v3 :: "byte list"
  queue_v3 :: "string safe_queue"
  running_v3 :: bool
  sent_v3 :: "byte list"
  screen_v3 :: string
  closed_v3 :: "int list"

definition show_v3 :: "string \<Rightarrow> client_v3 \<Rightarrow> client_v3" where
  "show_v3 s c = c\<lparr>screen_v3 := screen_v3 c @ s\<rparr>"

definition setup_signalfd_v3 :: "bool \<Rightarrow> int \<Rightarrow> client_v3 \<Rightarrow> client_v3 option" where
  "setup_signalfd_v3 mask_ok fd c =
     (if \<not> mask_ok then None
      else let c1 = c\<lparr>sig_v3 := fd\<rparr> in if sig_v3 c1 = -1 then None else Some c1)"

definition new_client_v3 :: "bool \<Rightarrow> int \<Rightarrow> client_v3 option" where
  "new_client_v3 mask_ok fd = setup_signalfd_v3 mask_ok fd
     \<lparr>sock_v3 = -1, sig_v3 = -1, name_v3 = '''', prompt_v3 = '''', line_v3 = '''', in_v3 = [], queue_v3 = sq_new,
      running_v3 = True, sent_v3 = [], screen_v3 = '''', closed_v3 = []\<rparr>"

definition connect_v3 :: "bool \<Rightarrow> int \<Rightarrow> bool \<Rightarrow> client_v3 \<Rightarrow> bool \<times> client_v3" where
  "connect_v3 getaddrinfo_ok fd connect_ok c =
     (if \<not> getaddrinfo_ok then (False, c)
      else let c1 = c\<lparr>sock_v3 := fd\<rparr>
           in if sock_v3 c1 < 0 then (False, c1\<lparr>closed_v3 := closed_v3 c1 @ [sock_v3 c1]\<rparr>)
              else if \<not> connect_ok then (False, c1\<lparr>closed_v3 := closed_v3 c1 @ [sock_v3 c1], sock_v3 := -1\<rparr>)
              else (True, c1))"

text \<open>\<open>stop\<close> without the joins of the two threads.\<close>

definition stop_v3 :: "client_v3 \<Rightarrow> client_v3" where
  "stop_v3 c = (if \<not> running_v3 c then c else c\<lparr>running_v3 := False, queue_v3 := sq_stop (queue_v3 c)\<rparr>)"

definition close_v3 :: "client_v3 \<Rightarrow> client_v3" where
  "close_v3 c =
     (let c0 = stop_v3 c;
          c1 = (if sock_v3 c0 \<noteq> -1 then c0\<lparr>closed_v3 := closed_v3 c0 @ [sock_v3 c0], sock_v3 := -1\<rparr> else c0)
      in if sig_v3 c1 \<noteq> -1 then c1\<lparr>closed_v3 := closed_v3 c1 @ [sig_v3 c1], sig_v3 := -1\<rparr> else c1)"

section \<open>Messages in a string\<close>

text \<open>One round of the loops that take a message from the front of \<open>in_buf_\<close>. There is no limit on the length.\<close>

definition take_message :: "byte list \<Rightarrow> (byte list \<times> byte list) option" where
  "take_message buf =
     (if length buf < 4 then None
      else let payload_len = unat (ntohl_bytes (take 4 buf))
           in if length buf < 4 + payload_len then None
              else Some (take payload_len (drop 4 buf), drop (4 + payload_len) buf))"

definition text_ok :: "byte list \<Rightarrow> bool" where
  "text_ok m \<longleftrightarrow> length m < 4294967296"

lemma take_message_shrinks: "take_message buf = Some (m, rest) \<Longrightarrow> length rest < length buf"
  by (auto simp: take_message_def Let_def split: if_splits)

interpretation strmsg: framing frame take_message text_ok
proof
  fix m rest xs ys :: "byte list"
  have len: "unat (word_of_nat (length m) :: u32) = length m" if "text_ok m"
    using that by (simp add: text_ok_def unat_of_nat)
  show "text_ok m \<Longrightarrow> take_message (frame m @ rest) = Some (m, rest)"
    by (simp add: take_message_def frame_def len Let_def)
  show "text_ok m \<Longrightarrow> frame m = xs @ ys \<Longrightarrow> ys \<noteq> [] \<Longrightarrow> take_message xs = None"
  proof -
    assume ok: "text_ok m" and split: "frame m = xs @ ys" and ne: "ys \<noteq> []"
    have short: "length xs < 4 + length m" using arg_cong[OF split, of length] ne by (cases ys) (auto simp: frame_def)
    show "take_message xs = None"
    proof (cases "length xs < 4")
      case False
      then have "take 4 xs = take 4 (frame m)" using split by simp
      also have "\<dots> = htonl_bytes (word_of_nat (length m))" by (simp add: frame_def)
      finally show ?thesis using False short len[OF ok] by (simp add: take_message_def)
    qed (simp add: take_message_def)
  qed
  show "take_message xs = Some (m, rest) \<Longrightarrow> length rest < length xs" by (rule take_message_shrinks)
  show "take_message [] = None" by (simp add: take_message_def)
qed

section \<open>Logging in\<close>

text \<open>
  What \<open>poll\<close> finds while the name is typed. A failed \<open>poll\<close> leaves the inner loop just as a
  newline does.
\<close>

datatype name_event = NamePollFailed | NameSignal | NameEof | NameKey char

datatype name_outcome = Entered | Aborted | Typing

fun type_name :: "name_event list \<Rightarrow> client_v3 \<Rightarrow> name_outcome \<times> name_event list \<times> client_v3" where
  "type_name [] c = (Typing, [], c)"
| "type_name (e # es) c =
     (let entered = (let c1 = show_v3 [NEWLINE] c
                     in if name_v3 c1 = ''''
                        then type_name es (show_v3 ''Username cannot be empty. Please enter a username: '' c1)
                        else (Entered, es, c1))
      in case e of
          NamePollFailed \<Rightarrow> entered
        | NameSignal \<Rightarrow> (Aborted, es, (show_v3 ([NEWLINE] @ ''Exiting...'' @ [NEWLINE]) c)\<lparr>running_v3 := False\<rparr>)
        | NameEof \<Rightarrow> (Aborted, es, c\<lparr>running_v3 := False\<rparr>)
        | NameKey ch \<Rightarrow>
            if ch = NEWLINE \<or> ch = RETURN then entered
            else if is_print ch then type_name es (show_v3 [ch] (c\<lparr>name_v3 := name_v3 c @ [ch]\<rparr>))
            else if (ch = CHR 0x7F \<or> ch = CHR 0x08) \<and> name_v3 c \<noteq> ''''
            then type_name es (show_v3 [CHR 0x08, CHR 0x20, CHR 0x08] (c\<lparr>name_v3 := butlast (name_v3 c)\<rparr>))
            else type_name es c)"

datatype login_outcome = LoggedIn | LoginFailed | LoginWaits

text \<open>
  \<open>rs\<close> are the results of \<open>recv\<close>, at most 4095 bytes each and empty for the end or an error; \<open>oks\<close> tells for
  every name whether the two \<open>send\<close> calls succeed, on a socket that still blocks. Each \<open>recv\<close> leads to one message at
  most, even if more have arrived.
\<close>

definition received_v3 :: "byte list \<Rightarrow> client_v3 \<Rightarrow> byte list \<times> client_v3" where
  "received_v3 r c =
     (let c1 = c\<lparr>in_v3 := in_v3 c @ r\<rparr>
      in case take_message (in_v3 c1) of None \<Rightarrow> ([], c1) | Some (msg, rest) \<Rightarrow> (msg, c1\<lparr>in_v3 := rest\<rparr>))"

definition send_name_v3 :: "bool \<times> bool \<Rightarrow> client_v3 \<Rightarrow> bool \<times> client_v3" where
  "send_name_v3 ok c =
     (let net_len = htonl_bytes (word_of_nat (length (name_v3 c)))
      in if \<not> fst ok then (False, c)
         else let c1 = c\<lparr>sent_v3 := sent_v3 c @ net_len\<rparr>
              in if \<not> snd ok then (False, c1) else (True, c1\<lparr>sent_v3 := sent_v3 c1 @ raw (name_v3 c1)\<rparr>))"

fun login_v3 :: "byte list list \<Rightarrow> name_event list \<Rightarrow> (bool \<times> bool) list \<Rightarrow> client_v3 \<Rightarrow> login_outcome \<times> client_v3" where
  "login_v3 rs es oks c =
     (if \<not> running_v3 c then (LoginFailed, c)
      else case rs of
          [] \<Rightarrow> (LoginWaits, c)
        | r # rs' \<Rightarrow>
            if r = [] then (LoginFailed, c)
            else (case received_v3 r c of
                (msg, c1) \<Rightarrow>
                  if msg = [] then login_v3 rs' es oks c1
                  else (let c2 = show_v3 (ERASE @ plain_text msg) c1
                        in if contains ACCEPTED (plain_text msg)
                           then (LoggedIn, c2\<lparr>prompt_v3 := ''['' @ name_v3 c2 @ '']: ''\<rparr>)
                           else case type_name es (c2\<lparr>name_v3 := ''''\<rparr>) of
                               (Aborted, _, c3) \<Rightarrow> (LoginFailed, c3)
                             | (Typing, _, c3) \<Rightarrow> (LoginWaits, c3)
                             | (Entered, es', c3) \<Rightarrow>
                                 (case oks of
                                    [] \<Rightarrow> (LoginWaits, c3)
                                  | ok # oks' \<Rightarrow>
                                      (case send_name_v3 ok c3 of
                                         (False, c4) \<Rightarrow> (LoginFailed, c4)
                                       | (True, c4) \<Rightarrow> login_v3 rs' es' oks' c4)))))"

declare login_v3.simps [simp del]

section \<open>The socket\<close>

definition push_v3 :: "byte list \<Rightarrow> client_v3 \<Rightarrow> client_v3" where
  "push_v3 msg c =
     (let txt = plain_text msg;
          txt1 = (if txt \<noteq> '''' \<and> last txt = NEWLINE then butlast txt else txt)
      in c\<lparr>queue_v3 := sq_push txt1 (queue_v3 c)\<rparr>)"

function process_buffer :: "client_v3 \<Rightarrow> client_v3" where
  "process_buffer c =
     (case take_message (in_v3 c) of
        None \<Rightarrow> c
      | Some (msg, rest) \<Rightarrow> process_buffer (push_v3 msg (c\<lparr>in_v3 := rest\<rparr>)))"
  by pat_completeness auto
termination
  by (relation "measure (\<lambda>c. length (in_v3 c))") (auto simp: push_v3_def Let_def dest: take_message_shrinks)

declare process_buffer.simps [simp del]

text \<open>One event is one \<open>poll\<close> and, if it says so, the \<open>recv\<close> of at most 4096 bytes; what is left is found by the next.\<close>

definition BUFFER_SIZE :: nat where "BUFFER_SIZE = 4096"

fun rx_size :: "rx_event \<Rightarrow> nat" where
  "rx_size (RxReady bs) = Suc (length bs)"
| "rx_size _ = 1"

function receive_rounds :: "rx_event list \<Rightarrow> client_v3 \<Rightarrow> client_v3" where
  "receive_rounds [] c = c"
| "receive_rounds (e # es) c =
     (if \<not> running_v3 c then c
      else case e of
          RxPollFailed \<Rightarrow> c
        | RxQuiet \<Rightarrow> receive_rounds es c
        | RxHangup \<Rightarrow> c\<lparr>queue_v3 := sq_push ''Server connection lost.'' (queue_v3 c), running_v3 := False\<rparr>
        | RxEnd \<Rightarrow> c
        | RxReady bs \<Rightarrow>
            if bs = [] then c
            else let got = take BUFFER_SIZE bs; left = drop BUFFER_SIZE bs
                 in receive_rounds (if left = [] then es else RxReady left # es)
                      (process_buffer (c\<lparr>in_v3 := in_v3 c @ got\<rparr>)))"
  by pat_completeness auto

termination
  by (relation "measure (\<lambda>(es, c). sum_list (map rx_size es))") (auto simp: BUFFER_SIZE_def)

definition receive_loop_v3 :: "rx_event list \<Rightarrow> client_v3 \<Rightarrow> client_v3" where
  "receive_loop_v3 es c = receive_rounds es (if in_v3 c \<noteq> [] then process_buffer c else c)"

section \<open>The keyboard and the printer\<close>

text \<open>A \<open>send\<close> takes some bytes of what it is given or fails; only the failure is looked at.\<close>

definition send_v3 :: "nat option \<Rightarrow> byte list \<Rightarrow> client_v3 \<Rightarrow> bool \<times> client_v3" where
  "send_v3 r bs c = (case r of None \<Rightarrow> (False, c) | Some k \<Rightarrow> (True, c\<lparr>sent_v3 := sent_v3 c @ take k bs\<rparr>))"

definition enter_line_v3 :: "nat option \<Rightarrow> nat option \<Rightarrow> client_v3 \<Rightarrow> bool \<times> client_v3" where
  "enter_line_v3 r1 r2 c =
     (if line_v3 c = ''exit'' then (True, stop_v3 c)
      else if line_v3 c \<noteq> '''' then
        (let c1 = show_v3 (ERASE @ prompt_v3 c @ line_v3 c @ [NEWLINE]) c
         in case send_v3 r1 (htonl_bytes (word_of_nat (length (line_v3 c1)))) c1 of
             (False, c2) \<Rightarrow> (True, stop_v3 c2)
           | (True, c2) \<Rightarrow>
               (case send_v3 r2 (raw (line_v3 c2)) c2 of
                  (False, c3) \<Rightarrow> (True, stop_v3 c3)
                | (True, c3) \<Rightarrow> (False, show_v3 (prompt_v3 c3) (c3\<lparr>line_v3 := ''''\<rparr>))))
      else (False, c))"

definition key_v3 :: "nat option \<Rightarrow> nat option \<Rightarrow> char \<Rightarrow> client_v3 \<Rightarrow> bool \<times> client_v3" where
  "key_v3 r1 r2 ch c =
     (if ch = NEWLINE \<or> ch = RETURN then enter_line_v3 r1 r2 c
      else if ch = CHR 0x7F \<or> ch = CHR 0x08 then
        (False, if line_v3 c \<noteq> ''''
                then let c1 = c\<lparr>line_v3 := butlast (line_v3 c)\<rparr> in show_v3 (ERASE @ prompt_v3 c1 @ line_v3 c1) c1
                else c)
      else if is_print ch then (False, show_v3 [ch] (c\<lparr>line_v3 := line_v3 c @ [ch]\<rparr>))
      else (False, c))"

datatype key_event_v3 = PollFailedV3 | QuietV3 | SignalV3 | EofV3 | KeyV3 char "nat option" "nat option"

fun input_loop_v3 :: "key_event_v3 list \<Rightarrow> client_v3 \<Rightarrow> client_v3" where
  "input_loop_v3 [] c = c"
| "input_loop_v3 (e # es) c =
     (if \<not> running_v3 c then c
      else case e of
          PollFailedV3 \<Rightarrow> c
        | QuietV3 \<Rightarrow> input_loop_v3 es c
        | SignalV3 \<Rightarrow> stop_v3 (show_v3 ([NEWLINE] @ ''Exiting...'' @ [NEWLINE]) c)
        | EofV3 \<Rightarrow> stop_v3 c
        | KeyV3 ch r1 r2 \<Rightarrow> (let (leave, c1) = key_v3 r1 r2 ch c in if leave then c1 else input_loop_v3 es c1))"

definition print_message_v3 :: "string \<Rightarrow> client_v3 \<Rightarrow> client_v3" where
  "print_message_v3 msg c = show_v3 (prompt_v3 c @ line_v3 c) (show_v3 (ERASE @ msg @ [NEWLINE]) c)"

function printer_loop_v3 :: "client_v3 \<Rightarrow> bool \<times> client_v3" where
  "printer_loop_v3 c =
     (case sq_pop (queue_v3 c) of
        (Popped msg, q) \<Rightarrow> printer_loop_v3 (print_message_v3 msg (c\<lparr>queue_v3 := q\<rparr>))
      | (Finished, q) \<Rightarrow> (True, c)
      | (Blocked, q) \<Rightarrow> (False, c))"
  by pat_completeness auto
termination
  by (relation "measure (\<lambda>c. length (queue (queue_v3 c)))")
    (auto simp: sq_pop_def print_message_v3_def show_v3_def split: if_splits)

declare printer_loop_v3.simps [simp del]

text \<open>\<open>run\<close> up to the start of the threads.\<close>

definition start_v3 :: "client_v3 \<Rightarrow> client_v3" where
  "start_v3 c = (show_v3 (prompt_v3 c) c)\<lparr>running_v3 := True\<rparr>"

end
