(* ===== verification/ChatV3.thy ===== *)
theory ChatV3
  imports ServerV3 Reachability
begin

text \<open>
  The threads of the server of version 3 together: the reactor, in steps of one operation of its
  loop, and the workers of the pool, in steps of one critical section of the message hook, one
  call of it, or one connection of a broadcast. A worker that has reserved a name still holds the
  mutex of the connection, so that reading, writing and sending on it wait; \<open>close_conn\<close> does not take
  that mutex. The rounding of the token arithmetic is the parameter \<open>fl\<close>.
\<close>

section \<open>States and steps\<close>

datatype worker3 = Idle3 | Has3 task3 | Naming3 nat string | Calling3 "call3 list"
  | Delivering3 "broadcast_event list" "nat list" | Gone3

record system3 =
  sv3 :: web_server3
  up3 :: bool
  crew3 :: "worker3 list"

definition system3_init :: "system3 \<Rightarrow> bool" where
  "system3_init s \<longleftrightarrow> (\<exists>env sv n. new_server3 env = Some sv \<and> s = \<lparr>sv3 = sv, up3 = True, crew3 = replicate n Idle3\<rparr>)"

definition locked3 :: "system3 \<Rightarrow> nat \<Rightarrow> bool" where
  "locked3 s cid \<longleftrightarrow> (\<exists>n. Naming3 cid n \<in> set (crew3 s))"

definition serve3 :: "(web_server3 \<Rightarrow> web_server3) \<Rightarrow> system3 \<Rightarrow> system3" where
  "serve3 f s = s\<lparr>sv3 := f (sv3 s)\<rparr>"

definition work3 :: "nat \<Rightarrow> worker3 \<Rightarrow> system3 \<Rightarrow> system3" where
  "work3 i w s = s\<lparr>crew3 := (crew3 s)[i := w]\<rparr>"

definition at3 :: "system3 \<Rightarrow> nat \<Rightarrow> worker3 \<Rightarrow> bool" where
  "at3 s i w \<longleftrightarrow> i < length (crew3 s) \<and> crew3 s ! i = w"

definition awaits3 :: "call3 \<Rightarrow> system3 \<Rightarrow> bool" where
  "awaits3 c s \<longleftrightarrow> (case c of CallSend cid _ \<Rightarrow> locked3 s cid | _ \<Rightarrow> False)"

text \<open>What a worker goes on with after the first section of the hook.\<close>

definition after_start :: "nat \<Rightarrow> hook_result \<Rightarrow> worker3" where
  "after_start cid r = (case r of Calls cs \<Rightarrow> Calling3 cs | NameTaken n \<Rightarrow> Naming3 cid n)"

inductive system3_step :: "(rat \<Rightarrow> rat) \<Rightarrow> system3 \<Rightarrow> system3 \<Rightarrow> bool" for fl where
  accepts: "up3 s \<Longrightarrow> find_conn3 fd (sv3 s) = None \<Longrightarrow> wire k = [] \<Longrightarrow>
     system3_step fl s (serve3 (accept_one3 now fd k) s)"
| answers: "up3 s \<Longrightarrow> system3_step fl s (serve3 (kernel_answers3 a) s)"
| hangs_up: "up3 s \<Longrightarrow> find_conn3 fd (sv3 s) = Some cid \<Longrightarrow> system3_step fl s (serve3 (close_conn3 cid) s)"
| reads: "up3 s \<Longrightarrow> find_conn3 fd (sv3 s) = Some cid \<Longrightarrow> \<not> locked3 s cid \<Longrightarrow>
     system3_step fl s (serve3 (handle_read3 now cid) s)"
| writes: "up3 s \<Longrightarrow> find_conn3 fd (sv3 s) = Some cid \<Longrightarrow> \<not> locked3 s cid \<Longrightarrow>
     system3_step fl s (serve3 (handle_write3 cid) s)"
| ticks: "up3 s \<Longrightarrow> list_all (\<lambda>cid. \<not> locked3 s cid) (w_locks w) \<Longrightarrow> system3_step fl s (serve3 (handle_timer3 w) s)"
| notified: "up3 s \<Longrightarrow> 0 < notify3 (sv3 s) \<Longrightarrow>
     system3_step fl s (serve3 (\<lambda>sv. process_global_queue3 (sv\<lparr>notify3 := 0\<rparr>)) s)"
| halts: "up3 s \<Longrightarrow>
     system3_step fl s ((serve3 (\<lambda>sv. sv\<lparr>running3 := False, pool3 := tp_shutdown (pool3 sv)\<rparr>) s)\<lparr>up3 := False\<rparr>)"
| stops: "\<not> up3 s \<Longrightarrow> set (crew3 s) \<subseteq> {Gone3} \<Longrightarrow> system3_step fl s (serve3 Stop3 s)"
| fetches: "at3 s i Idle3 \<Longrightarrow> worker_fetch (pool3 (sv3 s)) = (Popped t, p) \<Longrightarrow>
     system3_step fl s (work3 i (Has3 t) (serve3 (\<lambda>sv. sv\<lparr>pool3 := p\<rparr>) s))"
| leaves: "at3 s i Idle3 \<Longrightarrow> worker_fetch (pool3 (sv3 s)) = (Finished, p) \<Longrightarrow> system3_step fl s (work3 i Gone3 s)"
| starts: "at3 s i (Has3 (MessageTask cid bs)) \<Longrightarrow> \<not> locked3 s cid \<Longrightarrow> message_start fl now cid bs (sv3 s) = (r, sv) \<Longrightarrow>
     system3_step fl s (work3 i (after_start cid r) (serve3 (\<lambda>_. sv) s))"
| logs_in: "at3 s i (Naming3 cid n) \<Longrightarrow> message_login cid n (sv3 s) = (cs, sv) \<Longrightarrow>
     system3_step fl s (work3 i (Calling3 cs) (serve3 (\<lambda>_. sv) s))"
| calls: "at3 s i (Calling3 (c # cs)) \<Longrightarrow> \<not> awaits3 c s \<Longrightarrow>
     system3_step fl s (work3 i (Calling3 cs) (serve3 (do_call c) s))"
| called: "at3 s i (Calling3 []) \<Longrightarrow> system3_step fl s (work3 i Idle3 s)"
| snapshots: "at3 s i (Has3 (BroadcastTask k evts)) \<Longrightarrow>
     system3_step fl s (work3 i (Delivering3 evts (task_snapshot3 k (sv3 s))) s)"
| delivers: "at3 s i (Delivering3 evts (cid # cids)) \<Longrightarrow> \<not> locked3 s cid \<Longrightarrow>
     system3_step fl s (work3 i (Delivering3 evts cids) (serve3 (upd_link3 cid (deliver_conn3 evts)) s))"
| delivered: "at3 s i (Delivering3 evts []) \<Longrightarrow> system3_step fl s (work3 i Idle3 s)"

inductive_cases system3_stepE: "system3_step fl s s'"

section \<open>What the operations leave alone\<close>

text \<open>Whose mutexes and names an operation can refer to.\<close>

definition conns3 :: "web_server3 \<Rightarrow> nat set" where
  "conns3 sv = (\<Union>sh\<in>set (shards3 sv). snd ` set (connections sh))"

text \<open>Connections on the left, shards that do not exist on the right.\<close>

fun task_refs :: "nat \<Rightarrow> task3 \<Rightarrow> (nat + nat) set" where
  "task_refs n (MessageTask cid bs) = {Inl cid}"
| "task_refs n (BroadcastTask i evts) = (if i < n then {} else {Inr i})"

definition refs3 :: "web_server3 \<Rightarrow> (nat + nat) set" where
  "refs3 sv = Inl ` conns3 sv \<union> (\<Union>t\<in>set (task_queue (pool3 sv)). task_refs (length (shards3 sv)) t)"

definition open_as :: "web_server3 \<Rightarrow> nat \<Rightarrow> string \<Rightarrow> bool" where
  "open_as sv cid n \<longleftrightarrow> \<not> closed (link3 (heap3 sv cid)) \<and> username3 (heap3 sv cid) = n \<and> n \<noteq> ''''"

text \<open>
  All operations but the hook and the acceptance: sessions stay, connections are only closed, only
  names of connections closed meanwhile are freed, and only the streams of \<open>S\<close> change.
\<close>

definition quiet3 :: "nat set \<Rightarrow> web_server3 \<Rightarrow> web_server3 \<Rightarrow> bool" where
  "quiet3 S s s' \<longleftrightarrow>
     next3 s' = next3 s \<and> length (shards3 s') = length (shards3 s) \<and> refs3 s' \<subseteq> refs3 s \<and> conns3 s' \<subseteq> conns3 s \<and>
     (\<forall>cid. username3 (heap3 s' cid) = username3 (heap3 s cid) \<and> active3 (heap3 s' cid) = active3 (heap3 s cid) \<and>
        recipient3 (heap3 s' cid) = recipient3 (heap3 s cid) \<and>
        (closed (link3 (heap3 s cid)) \<longrightarrow> closed (link3 (heap3 s' cid))) \<and>
        (has_codec (link3 (heap3 s cid)) \<longrightarrow> has_codec (link3 (heap3 s' cid))) \<and>
        (cid \<notin> S \<longrightarrow> out_stream (link3 (heap3 s' cid)) = out_stream (link3 (heap3 s cid)))) \<and>
     set (usernames3 s') \<subseteq> set (usernames3 s) \<and> (distinct (usernames3 s) \<longrightarrow> distinct (usernames3 s')) \<and>
     (\<forall>n\<in>set (usernames3 s) - set (usernames3 s'). \<exists>cid. open_as s cid n \<and> \<not> open_as s' cid n)"

lemma quiet3D:
  assumes "quiet3 S s s'"
  shows "next3 s' = next3 s" "length (shards3 s') = length (shards3 s)" "refs3 s' \<subseteq> refs3 s" "conns3 s' \<subseteq> conns3 s"
    "username3 (heap3 s' cid) = username3 (heap3 s cid)" "active3 (heap3 s' cid) = active3 (heap3 s cid)"
    "recipient3 (heap3 s' cid) = recipient3 (heap3 s cid)"
    "closed (link3 (heap3 s cid)) \<Longrightarrow> closed (link3 (heap3 s' cid))"
    "cid \<notin> S \<Longrightarrow> out_stream (link3 (heap3 s' cid)) = out_stream (link3 (heap3 s cid))"
    "set (usernames3 s') \<subseteq> set (usernames3 s)" "distinct (usernames3 s) \<Longrightarrow> distinct (usernames3 s')"
    "n \<in> set (usernames3 s) \<Longrightarrow> n \<notin> set (usernames3 s') \<Longrightarrow> \<exists>cid. open_as s cid n \<and> \<not> open_as s' cid n"
    "has_codec (link3 (heap3 s cid)) \<Longrightarrow> has_codec (link3 (heap3 s' cid))"
  using assms unfolding quiet3_def by blast+

lemma quiet3_open: "quiet3 S s s' \<Longrightarrow> open_as s' cid n \<Longrightarrow> open_as s cid n"
  using quiet3D(5,8)[of S s s' cid] by (auto simp: open_as_def)

lemma quiet3_refl: "quiet3 S s s"
  by (simp add: quiet3_def)

lemma quiet3_trans:
  assumes "quiet3 S a b" "quiet3 S b c"
  shows "quiet3 S a c"
proof -
  have lost: "\<exists>cid. open_as a cid n \<and> \<not> open_as c cid n"
    if "n \<in> set (usernames3 a)" "n \<notin> set (usernames3 c)" for n
    using that quiet3D(12)[OF assms(1), of n] quiet3D(12)[OF assms(2), of n] quiet3_open[OF assms(1)] quiet3_open[OF assms(2)]
    by blast
  have subs: "refs3 c \<subseteq> refs3 a" "conns3 c \<subseteq> conns3 a" "set (usernames3 c) \<subseteq> set (usernames3 a)"
    using quiet3D(3,4,10)[OF assms(1)] quiet3D(3,4,10)[OF assms(2)] by (meson subset_trans)+
  show ?thesis unfolding quiet3_def[of S a c]
    using subs quiet3D(1,2,5-9,11,13)[OF assms(1)] quiet3D(1,2,5-9,11,13)[OF assms(2)] lost by (intro conjI allI ballI) simp_all
qed

lemma quiet3_fold:
  assumes "\<And>x t. x \<in> set xs \<Longrightarrow> quiet3 S t (f x t)"
  shows "quiet3 S s (fold f xs s)"
  using assms
proof (induction xs arbitrary: s)
  case (Cons x xs)
  then have "quiet3 S s (f x s)" "quiet3 S (f x s) (fold f xs (f x s))" by simp_all
  then show ?case using quiet3_trans by simp
qed (simp add: quiet3_refl)

text \<open>Changes of what the relation does not look at.\<close>

lemma quiet3_other:
  assumes "heap3 s' = heap3 s" "next3 s' = next3 s" "usernames3 s' = usernames3 s" "length (shards3 s') = length (shards3 s)"
    "refs3 s' \<subseteq> refs3 s" "conns3 s' \<subseteq> conns3 s"
  shows "quiet3 S s s'"
  using assms by (simp add: quiet3_def)

lemma quiet3_same:
  assumes "heap3 s' = heap3 s" "next3 s' = next3 s" "usernames3 s' = usernames3 s" "shards3 s' = shards3 s"
    "task_queue (pool3 s') = task_queue (pool3 s)"
  shows "quiet3 S s s'"
  by (rule quiet3_other) (use assms in \<open>simp_all add: refs3_def conns3_def\<close>)

lemma upd3_fields [simp]:
  "next3 (upd3 cid f s) = next3 s" "shards3 (upd3 cid f s) = shards3 s" "pool3 (upd3 cid f s) = pool3 s"
  "usernames3 (upd3 cid f s) = usernames3 s" "heap3 (upd3 cid f s) = (heap3 s)(cid := f (heap3 s cid))"
  "metrics3 (upd3 cid f s) = metrics3 s" "global_queue3 (upd3 cid f s) = global_queue3 s" "notify3 (upd3 cid f s) = notify3 s"
  by (simp_all add: upd3_def)

lemma upd_shard3_fields [simp]:
  "next3 (upd_shard3 i f s) = next3 s" "heap3 (upd_shard3 i f s) = heap3 s" "pool3 (upd_shard3 i f s) = pool3 s"
  "usernames3 (upd_shard3 i f s) = usernames3 s" "shards3 (upd_shard3 i f s) = (shards3 s)[i := f (shards3 s ! i)]"
  "metrics3 (upd_shard3 i f s) = metrics3 s"
  by (simp_all add: upd_shard3_def)

lemma quiet3_upd3:
  assumes "username3 (f (heap3 s cid)) = username3 (heap3 s cid)" "active3 (f (heap3 s cid)) = active3 (heap3 s cid)"
    "recipient3 (f (heap3 s cid)) = recipient3 (heap3 s cid)" "closed (link3 (f (heap3 s cid))) = closed (link3 (heap3 s cid))"
    "has_codec (link3 (heap3 s cid)) \<Longrightarrow> has_codec (link3 (f (heap3 s cid)))"
    "cid \<in> S \<or> out_stream (link3 (f (heap3 s cid))) = out_stream (link3 (heap3 s cid))"
  shows "quiet3 S s (upd3 cid f s)"
  using assms by (auto simp: quiet3_def refs3_def conns3_def)

lemma upd_link3_eq:
  "f (metrics3 s) (link3 (heap3 s cid)) = (m, l) \<Longrightarrow> upd_link3 cid f s = (upd3 cid (\<lambda>c. c\<lparr>link3 := l\<rparr>) s)\<lparr>metrics3 := m\<rparr>"
  by (simp add: upd_link3_def)

lemma quiet3_link:
  assumes "closed l = closed (link3 (heap3 s cid))" "has_codec (link3 (heap3 s cid)) \<Longrightarrow> has_codec l" "cid \<in> S \<or> out_stream l = out_stream (link3 (heap3 s cid))"
  shows "quiet3 S s ((upd3 cid (\<lambda>c. c\<lparr>link3 := l\<rparr>) s)\<lparr>metrics3 := m\<rparr>)"
proof -
  have "quiet3 S s (upd3 cid (\<lambda>c. c\<lparr>link3 := l\<rparr>) s)" by (rule quiet3_upd3) (use assms in simp_all)
  moreover have "quiet3 S (upd3 cid (\<lambda>c. c\<lparr>link3 := l\<rparr>) s) ((upd3 cid (\<lambda>c. c\<lparr>link3 := l\<rparr>) s)\<lparr>metrics3 := m\<rparr>)"
    by (rule quiet3_same) simp_all
  ultimately show ?thesis by (rule quiet3_trans)
qed

lemma conns3_shard_sub:
  assumes "\<And>sh. set (connections (f sh)) \<subseteq> set (connections sh)"
  shows "conns3 (upd_shard3 i f s) \<subseteq> conns3 s"
proof (cases "i < length (shards3 s)")
  case True
  have "set ((shards3 s)[i := f (shards3 s ! i)]) \<subseteq> insert (f (shards3 s ! i)) (set (shards3 s))"
    by (rule set_update_subset_insert)
  moreover have "shards3 s ! i \<in> set (shards3 s)" using True by simp
  ultimately show ?thesis using assms[of "shards3 s ! i"] by (fastforce simp: conns3_def)
qed (simp add: conns3_def list_update_beyond)

lemma quiet3_shard:
  assumes "\<And>sh. set (connections (f sh)) \<subseteq> set (connections sh)"
  shows "quiet3 S s (upd_shard3 i f s)"
  using conns3_shard_sub[of f i s, OF assms] by (intro quiet3_other) (auto simp: refs3_def)

section \<open>The operations of the reactor\<close>

lemma quiet3_heap: "heap3 s = heap3 t \<Longrightarrow> usernames3 s = usernames3 t \<Longrightarrow> shards3 s = shards3 t \<Longrightarrow>
    next3 s = next3 t \<Longrightarrow> pool3 s = pool3 t \<Longrightarrow> quiet3 S s t"
  by (rule quiet3_same) simp_all

text \<open>Closing an open connection, in one assignment to the heap.\<close>

lemma close_conn3_fields:
  assumes "\<not> closed (link3 (heap3 s cid))"
  shows "heap3 (close_conn3 cid s) = (heap3 s)(cid := (heap3 s cid)\<lparr>link3 := (link3 (heap3 s cid))\<lparr>closed := True,
      ksock := (ksock (link3 (heap3 s cid)))\<lparr>interest := None\<rparr>\<rparr>\<rparr>)"
    and "usernames3 (close_conn3 cid s) =
      (if username3 (heap3 s cid) = '''' then usernames3 s else removeAll (username3 (heap3 s cid)) (usernames3 s))"
    and "next3 (close_conn3 cid s) = next3 s"
    and "pool3 (close_conn3 cid s) = pool3 s"
    and "shards3 (close_conn3 cid s) =
      (let i = unat (word_of_int (sock (link3 (heap3 s cid))) :: u64) mod length (shards3 s)
       in (shards3 s)[i := (shards3 s ! i)\<lparr>connections := AList.delete (sock (link3 (heap3 s cid))) (connections (shards3 s ! i))\<rparr>])"
  using assms by (simp_all add: close_conn3_def OnClientDisconnect_def Broadcast3_def Let_def get_shard_idx3_def)

lemma close_conn3_closed [simp]: "closed (link3 (heap3 s cid)) \<Longrightarrow> close_conn3 cid s = s"
  by (simp add: close_conn3_def)

lemma quiet3_close: "quiet3 S s (close_conn3 cid s)"
proof (cases "closed (link3 (heap3 s cid))")
  case False
  note f = close_conn3_fields[OF False]
  let ?fd = "sock (link3 (heap3 s cid))"
  let ?i = "unat (word_of_int ?fd :: u64) mod length (shards3 s)"
  have "conns3 (close_conn3 cid s) =
      conns3 (upd_shard3 ?i (\<lambda>sh. sh\<lparr>connections := AList.delete ?fd (connections sh)\<rparr>) s)"
    by (simp add: conns3_def f Let_def)
  also have "\<dots> \<subseteq> conns3 s"
    by (rule conns3_shard_sub) (auto simp: AList.delete_eq)
  finally have conns: "conns3 (close_conn3 cid s) \<subseteq> conns3 s" .
  have shut: "closed (link3 (heap3 (close_conn3 cid s) cid))" by (simp add: f)
  have own: "open_as s cid n \<and> \<not> open_as (close_conn3 cid s) cid n"
    if "n \<in> set (usernames3 s)" "n \<notin> set (usernames3 (close_conn3 cid s))" for n
    using that False shut by (auto simp: f open_as_def split: if_splits)
  have "out_stream (link3 (heap3 (close_conn3 cid s) a)) = out_stream (link3 (heap3 s a))" for a
    by (simp add: f out_stream_def)
  then show ?thesis
    unfolding quiet3_def using conns own by (auto simp: f refs3_def distinct_removeAll Let_def)
qed (simp add: quiet3_refl)

lemma quiet3_accounts: "quiet3 S s (s\<lparr>metrics3 := m\<rparr>)" "quiet3 S s (s\<lparr>notify3 := n\<rparr>)"
  "quiet3 S s (s\<lparr>stats_accumulator3 := x\<rparr>)" "quiet3 S s (s\<lparr>ticks3 := x\<rparr>)"
  by (simp_all add: quiet3_same)

text \<open>Writing never takes the codec away.\<close>

lemma write_and_arm_codec: "write_and_arm m c = (m', c') \<Longrightarrow> has_codec c' = has_codec c"
  by (auto simp: write_and_arm_def write_frame_def split: prod.splits if_splits dest!: attempt_write_progress)

lemma handle_write_conn_codec: "handle_write_conn m c = (cl, m', c') \<Longrightarrow> has_codec c' = has_codec c"
  by (auto simp: handle_write_conn_def Let_def write_frame_def split: prod.splits if_splits dest!: attempt_write_progress)

lemma send_pre_encoded_codec:
  fixes c :: "'u connection"
  assumes "send_pre_encoded packet m c = (m', c')"
  shows "has_codec c' = has_codec c"
proof -
  have rearm: "has_codec (rearm d) = has_codec d" for d :: "'u connection" by (simp add: rearm_def Let_def)
  show ?thesis using assms
  proof (cases rule: send_pre_encoded_cases)
    case (attempted fatal c1)
    then show ?thesis using attempt_write_progress[OF attempted(2)] rearm toggle_write_interest_spec(4)[of c1]
      enqueue_packet_spec(7)[of packet c] by (simp add: write_frame_def)
  qed (simp_all add: rearm enqueue_packet_spec)
qed

lemma push_tasks3:
  "pool3 (fold (push_message_task cid) msgs s) = (pool3 s)\<lparr>task_queue := task_queue (pool3 s) @ map (MessageTask cid) msgs\<rparr>"
  "heap3 (fold (push_message_task cid) msgs s) = heap3 s" "next3 (fold (push_message_task cid) msgs s) = next3 s"
  "usernames3 (fold (push_message_task cid) msgs s) = usernames3 s"
  "shards3 (fold (push_message_task cid) msgs s) = shards3 s"
  by (induction msgs arbitrary: s) (simp_all add: push_message_task_def tp_push_task_def)

lemma quiet3_push: "cid \<in> conns3 s \<Longrightarrow> quiet3 S s (fold (push_message_task cid) msgs s)"
  by (rule quiet3_other) (auto simp: push_tasks3 refs3_def conns3_def)

lemma read_loop_same:
  assumes "read_loop now m c = (cl, msgs, m', c')"
  shows "closed c' = closed c" "out_stream c' = out_stream c" "has_codec c \<Longrightarrow> has_codec c'"
proof -
  have "read_frame c c' \<and> (has_codec c \<longrightarrow> has_codec c')"
    using _ assms
  proof (rule read_loop_invariant[where P = "\<lambda>_ c1. read_frame c c1 \<and> (has_codec c \<longrightarrow> has_codec c1)"])
  qed (auto simp: read_frame_def set_rscript_def take_in_def)
  then show "closed c' = closed c" "out_stream c' = out_stream c" "has_codec c \<Longrightarrow> has_codec c'"
    using read_frame_derived(1) by (auto simp: read_frame_def)
qed

lemma quiet3_read:
  assumes "cid \<in> conns3 s"
  shows "quiet3 S s (handle_read3 now cid s)"
proof -
  obtain cl msgs m l where r: "read_loop now (metrics3 s) (link3 (heap3 s cid)) = (cl, msgs, m, l)" by (metis prod_cases4)
  let ?s0 = "(upd3 cid (\<lambda>c. c\<lparr>link3 := l\<rparr>) s)\<lparr>metrics3 := m\<rparr>"
  let ?s1 = "fold (push_message_task cid) msgs ?s0"
  have "quiet3 S s ?s0" using read_loop_same[OF r] by (intro quiet3_link) simp_all
  moreover have "cid \<in> conns3 ?s0" using assms by (simp add: conns3_def)
  ultimately have "quiet3 S s ?s1" by (blast intro: quiet3_trans quiet3_push)
  then show ?thesis using r by (auto simp: handle_read3_def Let_def intro: quiet3_trans quiet3_close)
qed

lemma quiet3_write: "quiet3 S s (handle_write3 cid s)"
proof -
  obtain cl m l where w: "handle_write_conn (metrics3 s) (link3 (heap3 s cid)) = (cl, m, l)" by (metis prod_cases3)
  let ?s1 = "(upd3 cid (\<lambda>c. c\<lparr>link3 := l\<rparr>) s)\<lparr>metrics3 := m\<rparr>"
  have "quiet3 S s ?s1" using handle_write_conn_spec[OF w] handle_write_conn_codec[OF w] by (intro quiet3_link) (simp_all add: send_frame_def)
  then show ?thesis using w by (auto simp: handle_write3_def Let_def intro: quiet3_trans quiet3_close)
qed

lemma quiet3_flush: "quiet3 S s (flush_all_queues3 locks s)"
proof -
  have one: "quiet3 S t (upd_link3 cid (flush_conn (locks cid)) t)" for cid t
  proof -
    obtain m l where e: "flush_conn (locks cid) (metrics3 t) (link3 (heap3 t cid)) = (m, l)" by force
    then have "has_codec l = has_codec (link3 (heap3 t cid))"
      using write_and_arm_codec[of "metrics3 t" "link3 (heap3 t cid)" m l] by (auto simp: flush_conn_def split: if_splits)
    then show ?thesis unfolding upd_link3_eq[of "flush_conn (locks cid)", OF e]
      using flush_conn_sends[OF e] by (intro quiet3_link) (simp_all add: sends_def send_frame_def)
  qed
  have "quiet3 S t (flush_shard3 locks i t)" for i t
    unfolding flush_shard3_def Let_def by (rule quiet3_fold) (rule one)
  then show ?thesis unfolding flush_all_queues3_def by (intro quiet3_fold)
qed

lemma quiet3_sweeps: "sweep_shards3 now is s = (out, s') \<Longrightarrow> quiet3 S s s'"
proof (induction "is" arbitrary: s out s')
  case (Cons i "is")
  obtain o1 s1 where a: "sweep_shard3 now i s = (o1, s1)" by force
  obtain o2 s2 where b: "sweep_shards3 now is s1 = (o2, s2)" by force
  have "quiet3 S s s1" using a by (auto simp: sweep_shard3_def Let_def split: prod.splits intro: quiet3_shard)
  moreover have "s' = s2" using Cons.prems a b by simp
  ultimately show ?case using Cons.IH[OF b] quiet3_trans by blast
qed (simp add: quiet3_refl)

lemma quiet3_timeouts: "quiet3 S s (check_timeouts3 now s)"
proof -
  obtain out s1 where w: "sweep_shards3 now [0..<length (shards3 s)] s = (out, s1)" by force
  have "quiet3 S t (timeout_conn3 cid t)" for cid t
    unfolding timeout_conn3_def by (rule quiet3_trans[OF quiet3_accounts(1) quiet3_close])
  then have "quiet3 S s1 (fold timeout_conn3 out s1)" by (rule quiet3_fold)
  then show ?thesis using quiet3_trans[OF quiet3_sweeps[OF w]] w by (simp add: check_timeouts3_def)
qed

lemma quiet3_timer: "quiet3 S s (handle_timer3 w s)"
proof -
  let ?s1 = "flush_all_queues3 (\<lambda>cid. cid \<in> set (w_locks w)) s"
  let ?s2 = "?s1\<lparr>stats_accumulator3 := stats_accumulator3 ?s1 + w_expirations w, ticks3 := ticks3 ?s1 + w_expirations w\<rparr>"
  have "quiet3 S s ?s2" by (rule quiet3_trans[OF quiet3_flush quiet3_trans[OF quiet3_accounts(3) quiet3_accounts(4)]])
  moreover have "quiet3 S ?s2 ((check_timeouts3 (w_now w) ?s2)\<lparr>stats_accumulator3 := 0\<rparr>)"
    by (rule quiet3_trans[OF quiet3_timeouts quiet3_accounts(3)])
  ultimately show ?thesis unfolding handle_timer3_def Let_def using quiet3_trans by auto
qed

lemma quiet3_global: "quiet3 S s (process_global_queue3 s)"
  by (cases "shards3 s = []")
    (auto simp: process_global_queue3_def Let_def quiet3_refl tp_push_batch_items refs3_def conns3_def intro!: quiet3_other)

lemma quiet3_answers: "quiet3 S s (kernel_answers3 a s)"
  by (cases a) (simp add: kernel_answers3_def upd_link3_def quiet3_link out_stream_def)

lemma quiet3_stop: "quiet3 S s (Stop3 s)"
  by (rule quiet3_other) (auto simp: Stop3_def Let_def refs3_def conns3_def tp_shutdown_def)

lemma quiet3_halt: "quiet3 S s (s\<lparr>running3 := False, pool3 := tp_shutdown (pool3 s)\<rparr>)"
  by (rule quiet3_same) (simp_all add: tp_shutdown_def)

text \<open>A descriptor found in its shard is a connection of it.\<close>

lemma find_conn3_known: "find_conn3 fd s = Some cid \<Longrightarrow> 0 < length (shards3 s) \<Longrightarrow> cid \<in> conns3 s"
  by (auto simp: find_conn3_def conns3_def get_shard_idx3_def dest!: map_of_SomeD intro!: bexI image_eqI)

section \<open>The calls of the hook\<close>

lemma quiet3_send: "quiet3 {cid} s (SendPreEncoded3 cid packet s)"
proof -
  obtain m l where e: "send_pre_encoded packet (metrics3 s) (link3 (heap3 s cid)) = (m, l)" by force
  have "sends (if closed (link3 (heap3 s cid)) then [] else packet) (metrics3 s) (link3 (heap3 s cid)) m l"
    by (rule sends_send_pre_encoded[OF e])
  then have "closed l = closed (link3 (heap3 s cid))" by (simp add: sends_def send_frame_def)
  then show ?thesis unfolding SendPreEncoded3_def upd_link3_eq[of "send_pre_encoded packet", OF e]
    using send_pre_encoded_codec[OF e] by (intro quiet3_link) simp_all
qed

lemma quiet3_call:
  "quiet3 (case c of CallSend cid _ \<Rightarrow> {cid} | _ \<Rightarrow> {}) s (do_call c s)"
proof (cases c)
  case (CallSend cid msg)
  then show ?thesis using quiet3_send by (simp add: do_call_def SendFast_def Let_def quiet3_refl)
next
  case (CallBroadcast msg fd)
  then show ?thesis by (simp add: do_call_def Broadcast3_def Let_def quiet3_same)
qed (simp add: do_call_def quiet3_close)

section \<open>Names\<close>

text \<open>
  Names are reserved before they are used, once each; a name that is being given to a connection
  is reserved, and nobody online has it.
\<close>

definition names3_wf :: "system3 \<Rightarrow> bool" where
  "names3_wf s \<longleftrightarrow>
     shards3 (sv3 s) \<noteq> [] \<and>
     distinct (usernames3 (sv3 s)) \<and>
     (\<forall>cid. (active3 (heap3 (sv3 s) cid) \<longleftrightarrow> username3 (heap3 (sv3 s) cid) \<noteq> '''') \<and>
            recipient3 (heap3 (sv3 s) cid) = active3 (heap3 (sv3 s) cid)) \<and>
     (\<forall>cid n. open_as (sv3 s) cid n \<longrightarrow> n \<in> set (usernames3 (sv3 s))) \<and>
     (\<forall>a b n. open_as (sv3 s) a n \<longrightarrow> open_as (sv3 s) b n \<longrightarrow> a = b) \<and>
     (\<forall>cid n. Naming3 cid n \<in> set (crew3 s) \<longrightarrow>
        n \<noteq> '''' \<and> n \<in> set (usernames3 (sv3 s)) \<and> \<not> active3 (heap3 (sv3 s) cid) \<and> (\<forall>a. \<not> open_as (sv3 s) a n)) \<and>
     (\<forall>i j a n b m. at3 s i (Naming3 a n) \<longrightarrow> at3 s j (Naming3 b m) \<longrightarrow> i \<noteq> j \<longrightarrow> a \<noteq> b \<and> n \<noteq> m)"

lemma names3_wfD:
  assumes "names3_wf s"
  shows "distinct (usernames3 (sv3 s))"
    "active3 (heap3 (sv3 s) cid) \<longleftrightarrow> username3 (heap3 (sv3 s) cid) \<noteq> ''''"
    "recipient3 (heap3 (sv3 s) cid) = active3 (heap3 (sv3 s) cid)"
    "open_as (sv3 s) cid n \<Longrightarrow> n \<in> set (usernames3 (sv3 s))"
    "open_as (sv3 s) a n \<Longrightarrow> open_as (sv3 s) b n \<Longrightarrow> a = b"
    "Naming3 cid n \<in> set (crew3 s) \<Longrightarrow> n \<noteq> ''''" "Naming3 cid n \<in> set (crew3 s) \<Longrightarrow> n \<in> set (usernames3 (sv3 s))"
    "Naming3 cid n \<in> set (crew3 s) \<Longrightarrow> \<not> active3 (heap3 (sv3 s) cid)"
    "Naming3 cid n \<in> set (crew3 s) \<Longrightarrow> \<not> open_as (sv3 s) a n"
    "at3 s i (Naming3 a n) \<Longrightarrow> at3 s j (Naming3 b m) \<Longrightarrow> i \<noteq> j \<Longrightarrow> a \<noteq> b \<and> n \<noteq> m"
    "shards3 (sv3 s) \<noteq> []"
  using assms unfolding names3_wf_def by blast+

lemma names3_wfI:
  assumes "shards3 (sv3 s) \<noteq> []" "distinct (usernames3 (sv3 s))"
    "\<And>cid. active3 (heap3 (sv3 s) cid) \<longleftrightarrow> username3 (heap3 (sv3 s) cid) \<noteq> ''''"
    "\<And>cid. recipient3 (heap3 (sv3 s) cid) = active3 (heap3 (sv3 s) cid)"
    "\<And>cid n. open_as (sv3 s) cid n \<Longrightarrow> n \<in> set (usernames3 (sv3 s))"
    "\<And>a b n. open_as (sv3 s) a n \<Longrightarrow> open_as (sv3 s) b n \<Longrightarrow> a = b"
    "\<And>cid n. Naming3 cid n \<in> set (crew3 s) \<Longrightarrow> n \<noteq> '''' \<and> n \<in> set (usernames3 (sv3 s)) \<and>
       \<not> active3 (heap3 (sv3 s) cid)"
    "\<And>cid n a. Naming3 cid n \<in> set (crew3 s) \<Longrightarrow> open_as (sv3 s) a n \<Longrightarrow> False"
    "\<And>i j a n b m. at3 s i (Naming3 a n) \<Longrightarrow> at3 s j (Naming3 b m) \<Longrightarrow> i \<noteq> j \<Longrightarrow> a \<noteq> b \<and> n \<noteq> m"
  shows "names3_wf s"
  unfolding names3_wf_def using assms by (intro conjI allI impI) blast+

lemma serve3_fields [simp]: "sv3 (serve3 f s) = f (sv3 s)" "crew3 (serve3 f s) = crew3 s" "up3 (serve3 f s) = up3 s"
  "at3 (serve3 f s) i w = at3 s i w" "locked3 (serve3 f s) cid = locked3 s cid"
  by (simp_all add: serve3_def at3_def locked3_def)

lemma work3_fields [simp]: "sv3 (work3 i w s) = sv3 s" "up3 (work3 i w s) = up3 s"
  "crew3 (work3 i w s) = (crew3 s)[i := w]"
  by (simp_all add: work3_def)

lemma at3_work: "i < length (crew3 s) \<Longrightarrow> at3 (work3 i w s) j v \<longleftrightarrow> (if j = i then v = w else at3 s j v)"
  by (auto simp: at3_def work3_def)

lemma at3_member: "w \<in> set (crew3 s) \<longleftrightarrow> (\<exists>i. at3 s i w)"
  by (auto simp: at3_def in_set_conv_nth)

text \<open>The view of the server that the invariant has.\<close>

lemma names3_wf_quiet:
  assumes wf: "names3_wf s" and q: "quiet3 S (sv3 s) sv" and crew: "crew3 t = crew3 s" "sv3 t = sv"
  shows "names3_wf t"
proof -
  note op = quiet3_open[OF q]
  have kept: "n \<in> set (usernames3 sv)" if "n \<in> set (usernames3 (sv3 s))" "\<And>a. open_as (sv3 s) a n \<Longrightarrow> open_as sv a n" for n
    using quiet3D(12)[OF q that(1)] that(2) by blast
  have at: "at3 t i w = at3 s i w" for i w using crew(1) by (simp add: at3_def)
  have c4: "n \<in> set (usernames3 sv)" if "open_as sv cid n" for cid n
    using kept[OF names3_wfD(4)[OF wf op[OF that]]] names3_wfD(5)[OF wf op[OF that]] that by blast
  have c7: "n \<in> set (usernames3 sv)" if "Naming3 cid n \<in> set (crew3 s)" for cid n
    using kept[OF names3_wfD(7)[OF wf that]] names3_wfD(9)[OF wf that] by blast
  show ?thesis
  proof (rule names3_wfI, unfold crew at)
    show "shards3 sv \<noteq> []" using quiet3D(2)[OF q] names3_wfD(11)[OF wf] by auto
    show "distinct (usernames3 sv)" by (rule quiet3D(11)[OF q names3_wfD(1)[OF wf]])
    show "active3 (heap3 sv cid) \<longleftrightarrow> username3 (heap3 sv cid) \<noteq> ''''" "recipient3 (heap3 sv cid) = active3 (heap3 sv cid)" for cid
      using names3_wfD(2,3)[OF wf] quiet3D(5-7)[OF q] by simp_all
    show "open_as sv a n \<Longrightarrow> open_as sv b n \<Longrightarrow> a = b" for a b n by (rule names3_wfD(5)[OF wf op op])
    show "Naming3 cid n \<in> set (crew3 s) \<Longrightarrow> n \<noteq> '''' \<and> n \<in> set (usernames3 sv) \<and> \<not> active3 (heap3 sv cid)" for cid n
      using names3_wfD(6,8)[OF wf] c7 quiet3D(6)[OF q] by simp
    show "Naming3 cid n \<in> set (crew3 s) \<Longrightarrow> open_as sv a n \<Longrightarrow> False" for cid n a
      using names3_wfD(9)[OF wf] op by blast
  qed (rule c4, assumption, rule names3_wfD(10)[OF wf])
qed

text \<open>A worker goes on to something else than giving a name.\<close>

lemma names3_wf_work:
  assumes wf: "names3_wf s" and i: "i < length (crew3 s)" and w: "\<And>cid n. w \<noteq> Naming3 cid n"
  shows "names3_wf (work3 i w s)"
proof -
  have sub: "Naming3 cid n \<in> set (crew3 s)" if "Naming3 cid n \<in> set ((crew3 s)[i := w])" for cid n
    using that w set_update_subset_insert[of "crew3 s" i w] by auto
  have at: "at3 s j (Naming3 a n)" if "at3 (work3 i w s) j (Naming3 a n)" for j a n
    using that w at3_work[OF i] by (metis (full_types))
  show ?thesis
    by (rule names3_wfI, unfold work3_fields)
      (use names3_wfD(1-5,11)[OF wf] names3_wfD(6-9)[OF wf sub] names3_wfD(10)[OF wf at at] in \<open>simp | blast\<close>)+
qed

lemma names3_wf_step:
  assumes "names3_wf s" "quiet3 S (sv3 s) (f (sv3 s))"
  shows "names3_wf (serve3 f s)"
  by (rule names3_wf_quiet[OF assms]) simp_all

text \<open>The acceptance of a connection.\<close>

lemma accept_one3_fields:
  "next3 (accept_one3 now fd k s) = Suc (next3 s)" "usernames3 (accept_one3 now fd k s) = usernames3 s"
  "pool3 (accept_one3 now fd k s) = pool3 s" "length (shards3 (accept_one3 now fd k s)) = length (shards3 s)"
  "a \<noteq> next3 s \<Longrightarrow> heap3 (accept_one3 now fd k s) a = heap3 s a"
  "username3 (heap3 (accept_one3 now fd k s) (next3 s)) = ''''"
  "active3 (heap3 (accept_one3 now fd k s) (next3 s)) = False"
  "recipient3 (heap3 (accept_one3 now fd k s) (next3 s)) = False"
  "wire k = [] \<Longrightarrow> out_stream (link3 (heap3 (accept_one3 now fd k s) (next3 s))) = lp_encode (raw WELCOME)"
  "conns3 (accept_one3 now fd k s) \<subseteq> insert (next3 s) (conns3 s)"
  "\<not> closed (link3 (heap3 (accept_one3 now fd k s) (next3 s)))"
  "in_buf (link3 (heap3 (accept_one3 now fd k s) (next3 s))) = rb_new 8192"
  "rscript (ksock (link3 (heap3 (accept_one3 now fd k s) (next3 s)))) = rscript k"
  "tokens3 (heap3 (accept_one3 now fd k s) (next3 s)) = 60" "max_tokens3 (heap3 (accept_one3 now fd k s) (next3 s)) = 60"
  "last_refill3 (heap3 (accept_one3 now fd k s) (next3 s)) = now"
  "shards3 s \<noteq> [] \<Longrightarrow> find_conn3 fd (accept_one3 now fd k s) = Some (next3 s)"
  "has_codec (link3 (heap3 (accept_one3 now fd k s) (next3 s)))"
proof -
  define s1 where "s1 = s\<lparr>heap3 := (heap3 s)(next3 s := new_connection3 fd now k), next3 := next3 s + 1\<rparr>"
  define s2 where "s2 = upd_shard3 (get_shard_idx3 s1 fd) (\<lambda>sh. sh\<lparr>connections := AList.update fd (next3 s) (connections sh),
      timer_heap := heap_push (TimerEvent (now + CONNECTION_TIMEOUT) fd) (timer_heap sh)\<rparr>) s1"
  define s4 where "s4 = upd3 (next3 s) (\<lambda>c. c\<lparr>link3 := (link3 c)\<lparr>has_codec := True\<rparr>\<rparr>)
     ((upd3 (next3 s) (\<lambda>c. c\<lparr>link3 := (add_fd_to_epoll EPOLLIN (link3 c))\<lparr>current_epoll_events := EPOLLIN\<rparr>\<rparr>) s2)
       \<lparr>metrics3 := on_connection_accepted (metrics3 s2)\<rparr>)"
  have acc: "accept_one3 now fd k s = SendPreEncoded3 (next3 s) (lp_encode (raw WELCOME)) s4"
    by (simp add: accept_one3_def OnClientConnect_def SendFast_def Let_def s1_def s2_def s4_def)
  obtain m l where e: "send_pre_encoded (lp_encode (raw WELCOME)) (metrics3 s4) (link3 (heap3 s4 (next3 s))) = (m, l)" by force
  have res: "accept_one3 now fd k s = (upd3 (next3 s) (\<lambda>c. c\<lparr>link3 := l\<rparr>) s4)\<lparr>metrics3 := m\<rparr>"
    unfolding acc SendPreEncoded3_def by (rule upd_link3_eq[of "send_pre_encoded (lp_encode (raw WELCOME))", OF e])
  have new: "username3 (heap3 s4 (next3 s)) = '''' \<and> \<not> active3 (heap3 s4 (next3 s)) \<and> \<not> recipient3 (heap3 s4 (next3 s))"
    "\<not> closed (link3 (heap3 s4 (next3 s)))" "out_stream (link3 (heap3 s4 (next3 s))) = wire k"
    "in_buf (link3 (heap3 s4 (next3 s))) = rb_new 8192" "rscript (ksock (link3 (heap3 s4 (next3 s)))) = rscript k"
    "tokens3 (heap3 s4 (next3 s)) = 60 \<and> max_tokens3 (heap3 s4 (next3 s)) = 60 \<and> last_refill3 (heap3 s4 (next3 s)) = now"
    "has_codec (link3 (heap3 s4 (next3 s)))"
    by (simp_all add: s4_def s2_def s1_def new_connection3_def new_connection_def add_fd_to_epoll_def out_stream_def)
  note sent = sends_send_pre_encoded[OF e] new(2,3)
  show "next3 (accept_one3 now fd k s) = Suc (next3 s)" "usernames3 (accept_one3 now fd k s) = usernames3 s"
    "pool3 (accept_one3 now fd k s) = pool3 s" "length (shards3 (accept_one3 now fd k s)) = length (shards3 s)"
    "a \<noteq> next3 s \<Longrightarrow> heap3 (accept_one3 now fd k s) a = heap3 s a"
    by (simp_all add: res s4_def s2_def s1_def)
  show "username3 (heap3 (accept_one3 now fd k s) (next3 s)) = ''''"
    "active3 (heap3 (accept_one3 now fd k s) (next3 s)) = False"
    "recipient3 (heap3 (accept_one3 now fd k s) (next3 s)) = False"
    unfolding res using new(1) by simp_all
  show "has_codec (link3 (heap3 (accept_one3 now fd k s) (next3 s)))"
    unfolding res using send_pre_encoded_codec[OF e] new(7) by simp
  show "\<not> closed (link3 (heap3 (accept_one3 now fd k s) (next3 s)))"
    "in_buf (link3 (heap3 (accept_one3 now fd k s) (next3 s))) = rb_new 8192"
    "rscript (ksock (link3 (heap3 (accept_one3 now fd k s) (next3 s)))) = rscript k"
    "tokens3 (heap3 (accept_one3 now fd k s) (next3 s)) = 60" "max_tokens3 (heap3 (accept_one3 now fd k s) (next3 s)) = 60"
    "last_refill3 (heap3 (accept_one3 now fd k s) (next3 s)) = now"
    unfolding res using sent(1) new(2,4-6) by (simp_all add: sends_def send_frame_def)
  show "wire k = [] \<Longrightarrow> out_stream (link3 (heap3 (accept_one3 now fd k s) (next3 s))) = lp_encode (raw WELCOME)"
    unfolding res using sent by (simp add: sends_def)
  have s1: "conns3 s1 = conns3 s" "shards3 s1 = shards3 s" by (simp_all add: conns3_def s1_def)
  let ?f = "\<lambda>sh. sh\<lparr>connections := AList.update fd (next3 s) (connections sh),
      timer_heap := heap_push (TimerEvent (now + CONNECTION_TIMEOUT) fd) (timer_heap sh)\<rparr>"
  have up: "snd ` set (AList.update fd (next3 s) xs) \<subseteq> insert (next3 s) (snd ` set xs)" for xs
    by (induction xs) auto
  have "conns3 s2 \<subseteq> insert (next3 s) (conns3 s)"
  proof (cases "shards3 s = []")
    case False
    let ?i = "get_shard_idx3 s1 fd"
    have mem: "shards3 s ! ?i \<in> set (shards3 s)" using False by (simp add: get_shard_idx3_def s1(2))
    have sub: "set (shards3 s2) \<subseteq> insert (?f (shards3 s ! ?i)) (set (shards3 s))"
      unfolding s2_def by (simp add: s1(2) set_update_subset_insert)
    have own: "snd ` set (connections (shards3 s ! ?i)) \<subseteq> conns3 s" using mem by (auto simp: conns3_def)
    have "conns3 s2 \<subseteq> snd ` set (connections (?f (shards3 s ! ?i))) \<union> conns3 s"
      using UN_mono[OF sub subset_refl, of "\<lambda>sh. snd ` set (connections sh)"] by (simp add: conns3_def)
    also have "\<dots> \<subseteq> insert (next3 s) (conns3 s)" using up[of "connections (shards3 s ! ?i)"] own by simp blast
    finally show ?thesis .
  qed (simp add: conns3_def s2_def s1(2))
  moreover have shards: "shards3 (accept_one3 now fd k s) = shards3 s2" by (simp add: res s4_def)
  then have "conns3 (accept_one3 now fd k s) = conns3 s2" by (simp add: conns3_def)
  ultimately show "conns3 (accept_one3 now fd k s) \<subseteq> insert (next3 s) (conns3 s)" by simp
  show "find_conn3 fd (accept_one3 now fd k s) = Some (next3 s)" if "shards3 s \<noteq> []"
    using that by (simp add: find_conn3_def get_shard_idx3_def shards s2_def s1(2) update_conv)
qed

lemma accept_one3_open: "open_as (accept_one3 now fd k s) a n \<Longrightarrow> open_as s a n"
  by (cases "a = next3 s") (auto simp: open_as_def accept_one3_fields)

lemma accept_one3_open': "a \<noteq> next3 s \<Longrightarrow> open_as (accept_one3 now fd k s) a n \<longleftrightarrow> open_as s a n"
  by (simp add: open_as_def accept_one3_fields)

lemma names3_wf_accept:
  assumes wf: "names3_wf s"
  shows "names3_wf (serve3 (accept_one3 now fd k) s)"
proof -
  have act: "active3 (heap3 (accept_one3 now fd k (sv3 s)) a) = (a \<noteq> next3 (sv3 s) \<and> active3 (heap3 (sv3 s) a))"
    "recipient3 (heap3 (accept_one3 now fd k (sv3 s)) a) = (a \<noteq> next3 (sv3 s) \<and> recipient3 (heap3 (sv3 s) a))"
    "username3 (heap3 (accept_one3 now fd k (sv3 s)) a) = (if a = next3 (sv3 s) then '''' else username3 (heap3 (sv3 s) a))" for a
    by (cases "a = next3 (sv3 s)"; simp add: accept_one3_fields)+
  note op = accept_one3_open[of now fd k "sv3 s"]
  show ?thesis
  proof (rule names3_wfI, unfold serve3_fields accept_one3_fields(2))
    show "shards3 (accept_one3 now fd k (sv3 s)) \<noteq> []"
      using names3_wfD(11)[OF wf] accept_one3_fields(4)[of now fd k "sv3 s"] by auto
    show "open_as (accept_one3 now fd k (sv3 s)) cid n \<Longrightarrow> n \<in> set (usernames3 (sv3 s))" for cid n
      by (rule names3_wfD(4)[OF wf op])
    show "open_as (accept_one3 now fd k (sv3 s)) a n \<Longrightarrow> open_as (accept_one3 now fd k (sv3 s)) b n \<Longrightarrow> a = b" for a b n
      by (rule names3_wfD(5)[OF wf op op])
    show "Naming3 cid n \<in> set (crew3 s) \<Longrightarrow> open_as (accept_one3 now fd k (sv3 s)) a n \<Longrightarrow> False" for cid n a
      using names3_wfD(9)[OF wf] op by blast
  qed (use names3_wfD(1-3,6-8)[OF wf] names3_wfD(10)[OF wf] act in auto)
qed

section \<open>The message hook\<close>

text \<open>How the first section of the hook ends: with calls, or with a reserved name.\<close>

lemma message_start_cases:
  assumes "message_start fl now cid bs s = (r, s')"
  obtains (told) cs where "r = Calls cs" "quiet3 {} s s'"
      "cs \<in> {[], [CallSend cid SPAM_NOTICE, CallClose cid], [CallSend cid TAKEN_NOTICE]} \<or> (\<exists>msg fd. cs = [CallBroadcast msg fd])"
  | (taken) n t where "r = NameTaken n" "quiet3 {} s t" "s' = t\<lparr>usernames3 := n # usernames3 t\<rparr>" "heap3 s' = heap3 t"
      "usernames3 t = usernames3 s" "n \<notin> set (usernames3 s)" "n \<noteq> ''''" "\<not> active3 (heap3 s cid)"
      "\<not> closed (link3 (heap3 s cid))" "n = plain_text bs"
proof (cases "closed (link3 (heap3 s cid))")
  case True
  show ?thesis by (rule told[of "[]"]) (use assms True in \<open>simp_all add: message_start_def quiet3_refl\<close>)
next
  case False
  let ?s1 = "upd3 cid (refill3 fl now) s"
  let ?s2 = "upd3 cid (\<lambda>c. c\<lparr>tokens3 := fl (tokens3 c - 1)\<rparr>) ?s1"
  have q1: "quiet3 {} s ?s1" by (rule quiet3_upd3) (simp_all add: refill3_def Let_def)
  have q2: "quiet3 {} s ?s2" by (rule quiet3_trans[OF q1]) (rule quiet3_upd3; simp)
  show ?thesis
  proof (cases "tokens3 (heap3 ?s1 cid) < 1")
    case True
    show ?thesis
      by (rule told[of "[CallSend cid SPAM_NOTICE, CallClose cid]"])
        (use assms False True q1 in \<open>simp_all add: message_start_def Let_def\<close>)
  next
    case rich: False
    note eq = assms[unfolded message_start_def Let_def, simplified False rich if_False]
    have act: "active3 (heap3 ?s2 cid) = active3 (heap3 s cid)" by (simp add: refill3_def Let_def)
    show ?thesis
    proof (cases "active3 (heap3 s cid)")
      case True
      show ?thesis
        by (rule told[of "[CallBroadcast (chat_text (username3 (heap3 ?s2 cid)) (plain_text bs)) (sock (link3 (heap3 ?s2 cid)))]"])
          (use eq True act q2 in auto)
    next
      case waiting: False
      show ?thesis
      proof (cases "plain_text bs \<notin> set (usernames3 ?s2) \<and> plain_text bs \<noteq> ''''")
        case True
        show ?thesis
          by (rule taken[of "plain_text bs" ?s2]) (use eq True waiting act q2 False in \<open>auto\<close>)
      next
        case no: False
        show ?thesis
          by (rule told[of "[CallSend cid TAKEN_NOTICE]"]) (use eq no waiting act q2 in \<open>auto split: if_splits\<close>)
      qed
    qed
  qed
qed

lemma names3_wf_starts:
  assumes wf: "names3_wf s" and i: "at3 s i (Has3 (MessageTask cid bs))" and free: "\<not> locked3 s cid"
    and start: "message_start fl now cid bs (sv3 s) = (r, sv)"
  shows "names3_wf (work3 i (after_start cid r) (serve3 (\<lambda>_. sv) s))"
  using start
proof (cases rule: message_start_cases)
  case (told cs)
  then show ?thesis
    using names3_wf_step[OF wf, where f = "\<lambda>_. sv"] i by (intro names3_wf_work) (auto simp: after_start_def at3_def)
next
  case (taken n t)
  have len: "i < length (crew3 s)" using i by (simp add: at3_def)
  have wft: "names3_wf (serve3 (\<lambda>_. t) s)" by (rule names3_wf_step[OF wf taken(2)])
  note wfD = names3_wfD[OF wft, unfolded serve3_fields taken(5)]
  have sub: "Naming3 a m \<in> set (crew3 s) \<or> a = cid \<and> m = n" if "Naming3 a m \<in> set ((crew3 s)[i := Naming3 cid n])" for a m
    using that set_update_subset_insert[of "crew3 s" i "Naming3 cid n"] by auto
  have named: "a \<noteq> cid \<and> m \<noteq> n" if "at3 s j (Naming3 a m)" for j a m
  proof -
    have "Naming3 a m \<in> set (crew3 s)" using that at3_member by blast
    then show ?thesis using free taken(6) wfD(7) by (auto simp: locked3_def)
  qed
  have idle: "\<not> active3 (heap3 t cid)" using taken(8) quiet3D(6)[OF taken(2)] by simp
  have op: "open_as sv a m \<longleftrightarrow> open_as t a m" for a m using taken(4) by (simp add: open_as_def)
  have at: "at3 (work3 i (Naming3 cid n) (serve3 (\<lambda>_. sv) s)) j w \<longleftrightarrow> (if j = i then w = Naming3 cid n else at3 s j w)" for j w
    using at3_work[of i "serve3 (\<lambda>_. sv) s"] len by simp
  have names: "usernames3 sv = n # usernames3 (sv3 s)" using taken(3,5) by simp
  have "names3_wf (work3 i (Naming3 cid n) (serve3 (\<lambda>_. sv) s))"
  proof (rule names3_wfI, unfold work3_fields serve3_fields op at names taken(4))
    show "shards3 sv \<noteq> []" using wfD(11) taken(3) by simp
    show "distinct (n # usernames3 (sv3 s))" using wfD(1) taken(6) by simp
    show "m \<noteq> '''' \<and> m \<in> set (n # usernames3 (sv3 s)) \<and> \<not> active3 (heap3 t a)"
      if "Naming3 a m \<in> set ((crew3 s)[i := Naming3 cid n])" for a m
      using sub[OF that] wfD(6-8) idle taken(7) by auto
    show "Naming3 a m \<in> set ((crew3 s)[i := Naming3 cid n]) \<Longrightarrow> open_as t b m \<Longrightarrow> False" for a m b
      using sub wfD(9) wfD(4) taken(6) by blast
    show "(if j = i then Naming3 a m = Naming3 cid n else at3 s j (Naming3 a m)) \<Longrightarrow>
        (if k = i then Naming3 b l = Naming3 cid n else at3 s k (Naming3 b l)) \<Longrightarrow> j \<noteq> k \<Longrightarrow> a \<noteq> b \<and> m \<noteq> l" for j k a b m l
      using named wfD(10) by (auto split: if_splits)
    show "open_as t a m \<Longrightarrow> m \<in> set (n # usernames3 (sv3 s))" for a m using wfD(4) by simp
  qed (rule wfD(2), rule wfD(3), rule wfD(5))
  then show ?thesis by (simp add: taken(1) after_start_def)
qed

lemma names3_wf_login:
  assumes wf: "names3_wf s" and i: "at3 s i (Naming3 cid n)" and login: "message_login cid n (sv3 s) = (cs, sv)"
  shows "names3_wf (work3 i (Calling3 cs) (serve3 (\<lambda>_. sv) s))"
proof -
  note wfD = names3_wfD[OF wf]
  have len: "i < length (crew3 s)" using i by (simp add: at3_def)
  have mine: "Naming3 cid n \<in> set (crew3 s)" using i at3_member by blast
  have sv: "sv = upd3 cid (\<lambda>c. c\<lparr>username3 := n, active3 := True, recipient3 := True\<rparr>) (sv3 s)"
    using login by (auto simp: message_login_def Let_def)
  have op: "open_as sv a m \<longleftrightarrow> (if a = cid then \<not> closed (link3 (heap3 (sv3 s) cid)) \<and> m = n else open_as (sv3 s) a m)" for a m
    using wfD(6)[OF mine] by (auto simp: open_as_def sv)
  have at: "at3 (work3 i (Calling3 cs) (serve3 (\<lambda>_. sv) s)) j w \<longleftrightarrow> (if j = i then w = Calling3 cs else at3 s j w)" for j w
    using at3_work[of i "serve3 (\<lambda>_. sv) s"] len by simp
  have other: "\<exists>j. j \<noteq> i \<and> at3 s j (Naming3 a m)" if m: "Naming3 a m \<in> set ((crew3 s)[i := Calling3 cs])" for a m
  proof -
    obtain j where "j < length ((crew3 s)[i := Calling3 cs])" "(crew3 s)[i := Calling3 cs] ! j = Naming3 a m"
      using m unfolding in_set_conv_nth by blast
    then show ?thesis by (cases "j = i") (auto simp: at3_def)
  qed
  show ?thesis
  proof (rule names3_wfI, unfold work3_fields serve3_fields op at)
    show "shards3 sv \<noteq> []" using wfD(11) by (simp add: sv)
    show "distinct (usernames3 sv)" using wfD(1) by (simp add: sv)
    show "active3 (heap3 sv a) \<longleftrightarrow> username3 (heap3 sv a) \<noteq> ''''" "recipient3 (heap3 sv a) = active3 (heap3 sv a)" for a
      using wfD(2,3) wfD(6)[OF mine] by (auto simp: sv)
    show "(if a = cid then \<not> closed (link3 (heap3 (sv3 s) cid)) \<and> m = n else open_as (sv3 s) a m) \<Longrightarrow> m \<in> set (usernames3 sv)" for a m
      using wfD(4) wfD(7)[OF mine] by (auto simp: sv split: if_splits)
    show "(if a = cid then \<not> closed (link3 (heap3 (sv3 s) cid)) \<and> m = n else open_as (sv3 s) a m) \<Longrightarrow>
        (if b = cid then \<not> closed (link3 (heap3 (sv3 s) cid)) \<and> m = n else open_as (sv3 s) b m) \<Longrightarrow> a = b" for a b m
      using wfD(5) wfD(9)[OF mine] by (auto split: if_splits)
    show "Naming3 a m \<in> set ((crew3 s)[i := Calling3 cs]) \<Longrightarrow> m \<noteq> '''' \<and> m \<in> set (usernames3 sv) \<and> \<not> active3 (heap3 sv a)" for a m
      using other wfD(6-8) wfD(10)[OF i] at3_member by (simp add: sv) blast
    show "Naming3 a m \<in> set ((crew3 s)[i := Calling3 cs]) \<Longrightarrow>
        (if b = cid then \<not> closed (link3 (heap3 (sv3 s) cid)) \<and> m = n else open_as (sv3 s) b m) \<Longrightarrow> False" for a m b
      using other wfD(9) wfD(10)[OF i] at3_member by (metis (no_types))
    show "(if j = i then Naming3 a m = Calling3 cs else at3 s j (Naming3 a m)) \<Longrightarrow>
        (if k = i then Naming3 b l = Calling3 cs else at3 s k (Naming3 b l)) \<Longrightarrow> j \<noteq> k \<Longrightarrow> a \<noteq> b \<and> m \<noteq> l" for j k a b m l
      using wfD(10) by (auto split: if_splits)
  qed
qed

text \<open>Delivering is sending.\<close>

lemma enqueue_broadcasts3_v4:
  "enqueue_broadcasts3 evts added m c = enqueue_broadcasts (map (\<lambda>e. e\<lparr>bpayload := lp_encode (bpayload e)\<rparr>) evts) added m c"
  by (induction evts added m c rule: enqueue_broadcasts3.induct) (simp_all add: lp_encode_frame Let_def)

lemma deliver_conn3_v4:
  assumes "has_codec c"
  shows "deliver_conn3 evts m c = deliver_conn (map (\<lambda>e. e\<lparr>bpayload := lp_encode (bpayload e)\<rparr>) evts) m c"
proof -
  have "c\<lparr>has_codec := True\<rparr> = c" using assms by (cases c) simp
  then show ?thesis by (simp add: deliver_conn3_def deliver_conn_def enqueue_broadcasts3_v4)
qed

lemma deliver_conn3_same:
  assumes "deliver_conn3 evts m c = (m', c')"
  shows "closed c' = closed c \<and> has_codec c' = has_codec c"
proof (cases "closed c")
  case False
  obtain added m1 c1 where e: "enqueue_broadcasts3 evts False m c = (added, m1, c1)" by (metis prod_cases3)
  have c1: "closed c1 = closed c" "has_codec c1 = has_codec c"
    by (subst enqueue_broadcasts_spec(2)[OF e[unfolded enqueue_broadcasts3_v4]], simp)+
  show ?thesis
  proof (cases added)
    case True
    let ?c2 = "if \<not> is_reading_paused c1 \<and> pending_bytes c1 \<ge> HIGH_WATER_MARK then c1\<lparr>is_reading_paused := True\<rparr> else c1"
    have w: "write_and_arm m1 ?c2 = (m', c')" using assms e True False by (simp add: deliver_conn3_def)
    show ?thesis using write_and_arm_spec[OF w] write_and_arm_codec[OF w] c1 by (auto simp: send_frame_def split: if_splits)
  qed (use assms e False c1 in \<open>simp add: deliver_conn3_def\<close>)
qed (use assms in \<open>simp add: deliver_conn3_def\<close>)

lemma quiet3_deliver: "quiet3 {cid} s (upd_link3 cid (deliver_conn3 evts) s)"
proof -
  obtain m l where e: "deliver_conn3 evts (metrics3 s) (link3 (heap3 s cid)) = (m, l)" by force
  show ?thesis unfolding upd_link3_eq[of "deliver_conn3 evts", OF e]
    using deliver_conn3_same[OF e] by (intro quiet3_link) simp_all
qed

text \<open>Every step keeps the names.\<close>

lemma quiet3_fetch: "worker_fetch (pool3 s) = (r, p) \<Longrightarrow> quiet3 S s (s\<lparr>pool3 := p\<rparr>)"
  by (rule quiet3_other)
    (auto simp: worker_fetch_def tp_wait_def refs3_def conns3_def dest: list.set_sel(2) split: if_splits)

text \<open>The steps that neither accept nor touch sessions, with what they do to the crew.\<close>

lemma system3_step_kind:
  assumes "system3_step fl s s'" "shards3 (sv3 s) \<noteq> []"
  obtains (reactor) "quiet3 {} (sv3 s) (sv3 s')" "crew3 s' = crew3 s"
  | (worker) S i v w where "at3 s i v" "quiet3 S (sv3 s) (sv3 s')" "crew3 s' = (crew3 s)[i := w]" "\<And>cid n. w \<noteq> Naming3 cid n"
  | (accepted) now fd k where "s' = serve3 (accept_one3 now fd k) s" "wire k = []"
  | (started) i cid bs now r sv where "at3 s i (Has3 (MessageTask cid bs))" "\<not> locked3 s cid"
      "message_start fl now cid bs (sv3 s) = (r, sv)" "s' = work3 i (after_start cid r) (serve3 (\<lambda>_. sv) s)"
  | (logged_in) i cid n cs sv where "at3 s i (Naming3 cid n)" "message_login cid n (sv3 s) = (cs, sv)"
      "s' = work3 i (Calling3 cs) (serve3 (\<lambda>_. sv) s)"
  using assms(1)
proof cases
  case (accepts fd k now) then show ?thesis using accepted by blast
next
  case (answers a) then show ?thesis using reactor quiet3_answers by simp
next
  case (hangs_up fd cid) then show ?thesis using reactor quiet3_close by simp
next
  case (reads fd cid now)
  then have "cid \<in> conns3 (sv3 s)" using find_conn3_known assms(2) by simp
  then show ?thesis using reads reactor quiet3_read by simp
next
  case (writes fd cid) then show ?thesis using reactor quiet3_write by simp
next
  case (ticks w) then show ?thesis using reactor quiet3_timer by simp
next
  case notified
  then show ?thesis using reactor quiet3_trans[OF quiet3_accounts(2) quiet3_global] by simp
next
  case halts then show ?thesis using reactor quiet3_halt by simp
next
  case stops then show ?thesis using reactor quiet3_stop by simp
next
  case (fetches i t p)
  then show ?thesis using worker[of i Idle3 "{}" "Has3 t"] quiet3_fetch by simp
next
  case (leaves i p) then show ?thesis using worker[of i Idle3 "{}" Gone3] quiet3_refl by simp
next
  case (calls i c cs)
  then show ?thesis using worker[of i "Calling3 (c # cs)" "case c of CallSend cid _ \<Rightarrow> {cid} | _ \<Rightarrow> {}" "Calling3 cs"]
      quiet3_call[of c "sv3 s"] by simp
next
  case (called i) then show ?thesis using worker[of i "Calling3 []" "{}" Idle3] quiet3_refl by simp
next
  case (snapshots i k evts)
  then show ?thesis using worker[of i _ "{}" "Delivering3 evts (task_snapshot3 k (sv3 s))"] quiet3_refl by simp
next
  case (delivers i evts cid cids)
  then show ?thesis using worker[of i _ "{cid}" "Delivering3 evts cids"] quiet3_deliver by simp
next
  case (delivered i evts) then show ?thesis using worker[of i _ "{}" Idle3] quiet3_refl by simp
qed (use started logged_in in blast)+

lemma names3_wf_stepped:
  assumes wf: "names3_wf s" and step: "system3_step fl s s'"
  shows "names3_wf s'"
  using step names3_wfD(11)[OF wf]
proof (cases rule: system3_step_kind)
  case reactor then show ?thesis using names3_wf_quiet[OF wf] by blast
next
  case (worker S i v w)
  have "names3_wf (s\<lparr>sv3 := sv3 s'\<rparr>)" by (rule names3_wf_quiet[OF wf worker(2)]) simp_all
  then have "names3_wf (work3 i w (s\<lparr>sv3 := sv3 s'\<rparr>))"
    using worker(1,4) by (intro names3_wf_work) (simp_all add: at3_def)
  from names3_wf_quiet[OF this, of "{}" "sv3 s'" s'] show ?thesis using worker(3) quiet3_refl by simp
next
  case (accepted now fd k) then show ?thesis using names3_wf_accept[OF wf] by simp
next
  case (started i cid bs now r sv) then show ?thesis using names3_wf_starts[OF wf] by blast
next
  case (logged_in i cid n cs sv) then show ?thesis using names3_wf_login[OF wf] by blast
qed

lemma new_server3_fields:
  assumes "new_server3 env = Some sv"
  shows "heap3 sv = heap3 blank_server3" "next3 sv = 0" "usernames3 sv = []" "shards3 sv = shards3 blank_server3"
    "pool3 sv = tp_new" "global_queue3 sv = []"
  using assms
  by (auto simp: new_server3_def setup_signalfd3_def setup_server_socket3_def setup_epoll3_def setup_eventfd3_def
      setup_timerfd3_def blank_server3_def add_server_fd3_def Let_def split: if_splits bind_splits)

lemma names3_wf_init: "system3_init s \<Longrightarrow> names3_wf s"
  by (auto simp: system3_init_def names3_wf_def new_server3_fields blank_server3_def new_connection3_def open_as_def
      at3_def NUM_SHARDS_def)

interpretation names3: inductive_invariant system3_init "system3_step fl" names3_wf
  by unfold_locales (rule names3_wf_init, assumption, rule names3_wf_stepped)

section \<open>Streams\<close>

text \<open>
  What is sent to a connection that has no name: the welcome and then notices, nothing else.
\<close>

definition notices_only :: "byte list \<Rightarrow> bool" where
  "notices_only bs \<longleftrightarrow> (\<exists>ns. set ns \<subseteq> {TAKEN_NOTICE, SPAM_NOTICE} \<and> bs = concat (map (\<lambda>n. lp_encode (raw n)) (WELCOME # ns)))"

lemma notices_only_more: "notices_only bs \<Longrightarrow> n \<in> {TAKEN_NOTICE, SPAM_NOTICE} \<Longrightarrow> notices_only (bs @ lp_encode (raw n))"
proof -
  assume "notices_only bs" "n \<in> {TAKEN_NOTICE, SPAM_NOTICE}"
  then obtain ns where "set (ns @ [n]) \<subseteq> {TAKEN_NOTICE, SPAM_NOTICE}"
    "bs @ lp_encode (raw n) = concat (map (\<lambda>n. lp_encode (raw n)) (WELCOME # (ns @ [n])))"
    by (auto simp: notices_only_def)
  then show ?thesis unfolding notices_only_def by blast
qed

fun call_ok :: "web_server3 \<Rightarrow> call3 \<Rightarrow> bool" where
  "call_ok sv (CallSend cid msg) \<longleftrightarrow> cid < next3 sv \<and> (active3 (heap3 sv cid) \<or> msg \<in> {TAKEN_NOTICE, SPAM_NOTICE})"
| "call_ok sv c \<longleftrightarrow> True"

fun worker_ok :: "web_server3 \<Rightarrow> worker3 \<Rightarrow> bool" where
  "worker_ok sv (Has3 t) \<longleftrightarrow> task_refs (length (shards3 sv)) t \<subseteq> Inl ` {..<next3 sv}"
| "worker_ok sv (Naming3 cid n) \<longleftrightarrow> cid < next3 sv"
| "worker_ok sv (Calling3 cs) \<longleftrightarrow> list_all (call_ok sv) cs"
| "worker_ok sv (Delivering3 evts cids) \<longleftrightarrow> list_all (\<lambda>cid. cid < next3 sv \<and> active3 (heap3 sv cid)) cids"
| "worker_ok sv w \<longleftrightarrow> True"

definition says3_wf :: "system3 \<Rightarrow> bool" where
  "says3_wf s \<longleftrightarrow>
     refs3 (sv3 s) \<subseteq> Inl ` {..<next3 (sv3 s)} \<and> list_all (worker_ok (sv3 s)) (crew3 s) \<and>
     (\<forall>cid<next3 (sv3 s). has_codec (link3 (heap3 (sv3 s) cid))) \<and>
     (\<forall>cid<next3 (sv3 s). \<not> active3 (heap3 (sv3 s) cid) \<longrightarrow> notices_only (out_stream (link3 (heap3 (sv3 s) cid))))"

lemma says3_wfD:
  assumes "says3_wf s"
  shows "refs3 (sv3 s) \<subseteq> Inl ` {..<next3 (sv3 s)}" "at3 s i w \<Longrightarrow> worker_ok (sv3 s) w" "list_all (worker_ok (sv3 s)) (crew3 s)"
    "cid < next3 (sv3 s) \<Longrightarrow> \<not> active3 (heap3 (sv3 s) cid) \<Longrightarrow> notices_only (out_stream (link3 (heap3 (sv3 s) cid)))"
    "cid < next3 (sv3 s) \<Longrightarrow> has_codec (link3 (heap3 (sv3 s) cid))"
  using assms by (auto simp: says3_wf_def list_all_length at3_def)

text \<open>Nothing becomes inactive, and no connection disappears.\<close>

lemma worker_ok_mono:
  assumes "worker_ok s w" "next3 s \<le> next3 s'" "length (shards3 s') = length (shards3 s)" "\<And>cid. cid < next3 s \<Longrightarrow> active3 (heap3 s cid) \<Longrightarrow> active3 (heap3 s' cid)"
  shows "worker_ok s' w"
proof -
  have "call_ok s' c" if "call_ok s c" for c using that assms(2,4) by (cases c) auto
  then show ?thesis using assms by (cases w) (fastforce simp: list_all_iff)+
qed

lemma workers_ok_update: "list_all P xs \<Longrightarrow> P x \<Longrightarrow> list_all P (xs[i := x])"
  using set_update_subset_insert[of xs i x] by (auto simp: list_all_iff)

text \<open>A quiet step may write only to active connections.\<close>

lemma says3_wf_quiet:
  assumes wf: "says3_wf s" and q: "quiet3 S (sv3 s) (sv3 t)"
    and crew: "crew3 t = (crew3 s)[i := w]" "worker_ok (sv3 s) w"
    and S: "\<And>cid. cid \<in> S \<Longrightarrow> cid < next3 (sv3 s) \<Longrightarrow> active3 (heap3 (sv3 s) cid) \<or>
      notices_only (out_stream (link3 (heap3 (sv3 t) cid)))"
  shows "says3_wf t"
proof -
  have "list_all (worker_ok (sv3 s)) (crew3 t)" unfolding crew(1) using says3_wfD(3)[OF wf] crew(2) by (rule workers_ok_update)
  then have "list_all (worker_ok (sv3 t)) (crew3 t)"
    by (rule list.pred_mono_strong) (erule worker_ok_mono; simp add: quiet3D(1,2,6)[OF q])
  moreover have "notices_only (out_stream (link3 (heap3 (sv3 t) cid)))"
    if "cid < next3 (sv3 t)" "\<not> active3 (heap3 (sv3 t) cid)" for cid
    using that says3_wfD(4)[OF wf, of cid] S[of cid] quiet3D(1)[OF q] quiet3D(6)[OF q, of cid] quiet3D(9)[OF q, of cid]
    by (cases "cid \<in> S") auto
  moreover have "has_codec (link3 (heap3 (sv3 t) cid))" if "cid < next3 (sv3 t)" for cid
    using that says3_wfD(5)[OF wf, of cid] quiet3D(1,13)[OF q] by simp
  ultimately show ?thesis unfolding says3_wf_def using quiet3D(1,3)[OF q] says3_wfD(1)[OF wf] by auto
qed

lemma SendFast_stream:
  "out_stream (link3 (heap3 (SendFast cid msg s) cid)) = out_stream (link3 (heap3 s cid)) \<or>
   out_stream (link3 (heap3 (SendFast cid msg s) cid)) = out_stream (link3 (heap3 s cid)) @ lp_encode (raw msg)"
proof (cases "has_codec (link3 (heap3 s cid))")
  case True
  obtain m l where e: "send_pre_encoded (lp_encode (raw msg)) (metrics3 s) (link3 (heap3 s cid)) = (m, l)" by force
  have "SendFast cid msg s = (upd3 cid (\<lambda>c. c\<lparr>link3 := l\<rparr>) s)\<lparr>metrics3 := m\<rparr>"
    using True upd_link3_eq[of "send_pre_encoded (lp_encode (raw msg))", OF e] by (simp add: SendFast_def SendPreEncoded3_def)
  then show ?thesis using sends_send_pre_encoded[OF e] by (auto simp: sends_def split: if_splits)
qed (simp add: SendFast_def)

lemma says3_wf_accept:
  assumes wf: "says3_wf s" and wire: "wire k = []"
  shows "says3_wf (serve3 (accept_one3 now fd k) s)"
proof -
  let ?sv = "accept_one3 now fd k (sv3 s)"
  note f = accept_one3_fields[where now = now and fd = fd and k = k and s = "sv3 s"]
  have act: "active3 (heap3 ?sv cid) = active3 (heap3 (sv3 s) cid)" "link3 (heap3 ?sv cid) = link3 (heap3 (sv3 s) cid)"
    if "cid < next3 (sv3 s)" for cid using f(5)[of cid] that by simp_all
  have "list_all (worker_ok ?sv) (crew3 s)"
    using says3_wfD(3)[OF wf] by (rule list.pred_mono_strong) (erule worker_ok_mono; simp add: f(1,4) act)
  moreover have "refs3 ?sv \<subseteq> insert (Inl (next3 (sv3 s))) (refs3 (sv3 s))"
    using f(10) by (auto simp: refs3_def f(3,4))
  moreover have "notices_only (lp_encode (raw WELCOME))"
    unfolding notices_only_def by (rule exI[of _ "[]"]) simp
  then have "notices_only (out_stream (link3 (heap3 ?sv cid)))" if "cid < Suc (next3 (sv3 s))" "\<not> active3 (heap3 ?sv cid)" for cid
    using that says3_wfD(4)[OF wf, of cid] act[of cid] f(9)[OF wire] by (cases "cid = next3 (sv3 s)") auto
  moreover have "has_codec (link3 (heap3 ?sv cid))" if "cid < Suc (next3 (sv3 s))" for cid
    using that says3_wfD(5)[OF wf, of cid] act[of cid] f(18) by (cases "cid = next3 (sv3 s)") auto
  ultimately show ?thesis
    unfolding says3_wf_def serve3_fields f(1) using says3_wfD(1)[OF wf] by (auto simp: lessThan_Suc)
qed

lemma says3_wf_starts:
  assumes wf: "says3_wf s" and i: "at3 s i (Has3 (MessageTask cid bs))"
    and start: "message_start fl now cid bs (sv3 s) = (r, sv)"
  shows "says3_wf (work3 i (after_start cid r) (serve3 (\<lambda>_. sv) s))"
proof -
  have cid: "cid < next3 (sv3 s)" using says3_wfD(2)[OF wf i] by auto
  show ?thesis using start
  proof (cases rule: message_start_cases)
    case (told cs)
    have "quiet3 {} (sv3 s) (sv3 (work3 i (after_start cid r) (serve3 (\<lambda>_. sv) s)))" using told(2) by simp
    moreover have "worker_ok (sv3 s) (after_start cid r)" using told(1,3) cid by (auto simp: after_start_def)
    ultimately show ?thesis by (intro says3_wf_quiet[OF wf, of "{}" _ i "after_start cid r"]) simp_all
  next
    case (taken n t)
    have "says3_wf (work3 i (Naming3 cid n) (serve3 (\<lambda>_. t) s))"
      by (rule says3_wf_quiet[OF wf, of "{}" _ i "Naming3 cid n"]) (use taken(2) cid in simp_all)
    moreover have "worker_ok sv w = worker_ok t w" for w
      using worker_ok_mono[of sv w t] worker_ok_mono[of t w sv] taken(3) by auto
    ultimately show ?thesis
      unfolding says3_wf_def using taken(1,3) by (simp add: after_start_def refs3_def conns3_def cong: list.pred_cong)
  qed
qed

lemma says3_wf_login:
  assumes wf: "says3_wf s" and i: "at3 s i (Naming3 cid n)" and login: "message_login cid n (sv3 s) = (cs, sv)"
  shows "says3_wf (work3 i (Calling3 cs) (serve3 (\<lambda>_. sv) s))"
proof -
  have cid: "cid < next3 (sv3 s)" using says3_wfD(2)[OF wf i] by simp
  have sv: "sv = upd3 cid (\<lambda>c. c\<lparr>username3 := n, active3 := True, recipient3 := True\<rparr>) (sv3 s)"
    using login by (auto simp: message_login_def Let_def)
  have "list_all (call_ok sv) cs" using login cid by (auto simp: message_login_def Let_def)
  moreover have "list_all (worker_ok sv) (crew3 s)"
    using says3_wfD(3)[OF wf] by (rule list.pred_mono_strong) (erule worker_ok_mono; simp add: sv)
  ultimately have "list_all (worker_ok sv) ((crew3 s)[i := Calling3 cs])" by (intro workers_ok_update) simp_all
  then show ?thesis
    using says3_wfD(1)[OF wf] says3_wfD(4,5)[OF wf] by (auto simp: says3_wf_def sv refs3_def conns3_def)
qed

lemma says3_wf_stepped:
  assumes names: "names3_wf s" and wf: "says3_wf s" and step: "system3_step fl s s'"
  shows "says3_wf s'"
proof -
  have quiet: "says3_wf s'" if "quiet3 {} (sv3 s) (sv3 s')" "crew3 s' = (crew3 s)[i := w]" "worker_ok (sv3 s) w" for i w
    using that by (intro says3_wf_quiet[OF wf, of "{}"]) simp_all
  have reactor: "says3_wf s'" if "quiet3 {} (sv3 s) (sv3 s')" "crew3 s' = crew3 s"
    using that quiet[of "length (crew3 s)" Idle3] by (simp add: list_update_beyond)
  note shards = names3_wfD(11)[OF names] and ok = says3_wfD(2)[OF wf]
  show ?thesis using step
  proof cases
    case (accepts fd k now) then show ?thesis using says3_wf_accept[OF wf] by simp
  next
    case (answers a) then show ?thesis using reactor quiet3_answers by simp
  next
    case (hangs_up fd cid) then show ?thesis using reactor quiet3_close by simp
  next
    case (reads fd cid now) then show ?thesis using reactor quiet3_read find_conn3_known shards by simp
  next
    case (writes fd cid) then show ?thesis using reactor quiet3_write by simp
  next
    case (ticks w) then show ?thesis using reactor quiet3_timer by simp
  next
    case notified then show ?thesis using reactor quiet3_trans[OF quiet3_accounts(2) quiet3_global] by simp
  next
    case halts then show ?thesis using reactor quiet3_halt by simp
  next
    case stops then show ?thesis using reactor quiet3_stop by simp
  next
    case (fetches i t p)
    have "t \<in> set (task_queue (pool3 (sv3 s)))"
      using fetches(3) by (auto simp: worker_fetch_def tp_wait_def split: if_splits)
    then have "task_refs (length (shards3 (sv3 s))) t \<subseteq> refs3 (sv3 s)" by (auto simp: refs3_def)
    then have "worker_ok (sv3 s) (Has3 t)" using says3_wfD(1)[OF wf] by (simp only: worker_ok.simps)
    then show ?thesis using fetches quiet3_fetch quiet[of i "Has3 t"] by simp
  next
    case (leaves i p) then show ?thesis using quiet[of i Gone3] quiet3_refl by simp
  next
    case (starts i cid bs now r sv) then show ?thesis using says3_wf_starts[OF wf] by simp
  next
    case (logs_in i cid n cs sv) then show ?thesis using says3_wf_login[OF wf] by simp
  next
    case (calls i c cs)
    note okc = ok[OF calls(2)]
    show ?thesis
    proof (rule says3_wf_quiet[OF wf, where w = "Calling3 cs"])
      show "quiet3 (case c of CallSend cid _ \<Rightarrow> {cid} | _ \<Rightarrow> {}) (sv3 s) (sv3 s')" using calls(1) quiet3_call by simp
      show "crew3 s' = (crew3 s)[i := Calling3 cs]" "worker_ok (sv3 s) (Calling3 cs)" using calls(1) okc by simp_all
      show "active3 (heap3 (sv3 s) cid) \<or> notices_only (out_stream (link3 (heap3 (sv3 s') cid)))"
        if to: "cid \<in> (case c of CallSend cid _ \<Rightarrow> {cid} | _ \<Rightarrow> {})" and cid: "cid < next3 (sv3 s)" for cid
      proof -
        obtain msg where c: "c = CallSend cid msg" using to by (cases c) auto
        have sv: "sv3 s' = SendFast cid msg (sv3 s)" using calls(1) c by (simp add: do_call_def)
        show ?thesis
        proof (cases "active3 (heap3 (sv3 s) cid)")
          case False
          then have "msg \<in> {TAKEN_NOTICE, SPAM_NOTICE}" using okc c by simp
          then show ?thesis unfolding sv
            using says3_wfD(4)[OF wf cid False] SendFast_stream[of cid msg "sv3 s"] notices_only_more by metis
        qed simp
      qed
    qed
  next
    case (called i) then show ?thesis using quiet[of i Idle3] quiet3_refl by simp
  next
    case (snapshots i k evts)
    have "k < length (shards3 (sv3 s))" using ok[OF snapshots(2)] by (simp split: if_splits) auto
    then have "shards3 (sv3 s) ! k \<in> set (shards3 (sv3 s))" by simp
    then have conns: "set (shard_conns3 k (sv3 s)) \<subseteq> conns3 (sv3 s)"
      unfolding shard_conns3_def conns3_def set_map by (rule UN_upper)
    have "Inl ` conns3 (sv3 s) \<subseteq> (Inl ` {..<next3 (sv3 s)} :: (nat + nat) set)" using says3_wfD(1)[OF wf] by (auto simp: refs3_def)
    then have "conns3 (sv3 s) \<subseteq> {..<next3 (sv3 s)}" by auto
    then have "worker_ok (sv3 s) (Delivering3 evts (task_snapshot3 k (sv3 s)))"
      using subset_trans[OF conns] names3_wfD(3)[OF names] by (fastforce simp: task_snapshot3_def list_all_iff)
    then show ?thesis using snapshots quiet3_refl quiet by simp
  next
    case (delivers i evts cid cids)
    then show ?thesis
      using ok[OF delivers(2)] quiet3_deliver
      by (intro says3_wf_quiet[OF wf, of "{cid}" _ i "Delivering3 evts cids"]) simp_all
  next
    case (delivered i evts) then show ?thesis using quiet[of i Idle3] quiet3_refl by simp
  qed
qed

lemma says3_wf_init: "system3_init s \<Longrightarrow> says3_wf s"
  by (auto simp: system3_init_def says3_wf_def new_server3_fields blank_server3_def refs3_def conns3_def tp_new_def list_all_iff)

definition system3_wf :: "system3 \<Rightarrow> bool" where
  "system3_wf s \<longleftrightarrow> names3_wf s \<and> says3_wf s"

interpretation chat3: inductive_invariant system3_init "system3_step fl" system3_wf
  by unfold_locales
    (auto simp: system3_wf_def intro: names3_wf_init says3_wf_init names3_wf_stepped says3_wf_stepped)

end
