(* ===== verification/ChatV3Props.thy ===== *)
theory ChatV3Props
  imports ChatV3
begin

text \<open>
  What version 3 promises over all interleavings: names are unique, nobody hears the chat before
  logging in, broadcasts arrive as in version 4; and what it does not: a name can be lost.
\<close>

section \<open>A sample run\<close>

definition sample_env3 :: setup_env where
  "sample_env3 = \<lparr>sigprocmask_ok = True, signalfd_ret = 3, socket_ret = 4, setsockopt_ok = True, bind_ok = True,
     listen_ok = True, epoll_create_ret = 5, eventfd_ret = 6, timerfd_ret = 7, timerfd_settime_ok = True\<rparr>"

text \<open>A client that has sent its name already.\<close>

definition al_socket :: kernel_socket where
  "al_socket = \<lparr>interest = None, wire = [], wscript = [], rscript = [Bytes (frame (raw ''al''))]\<rparr>"

definition room_empty :: system3 where
  "room_empty = \<lparr>sv3 = the (new_server3 sample_env3), up3 = True, crew3 = [Idle3]\<rparr>"

definition al_connected :: system3 where
  "al_connected = serve3 (accept_one3 0 11 al_socket) room_empty"

definition al_read :: system3 where
  "al_read = serve3 (handle_read3 0 0) al_connected"

definition al_taken :: system3 where
  "al_taken = work3 0 (Has3 (MessageTask 0 (raw ''al''))) (serve3 (\<lambda>sv. sv\<lparr>pool3 := (pool3 sv)\<lparr>task_queue := []\<rparr>\<rparr>) al_read)"

definition al_reserved :: system3 where
  "al_reserved = work3 0 (Naming3 0 ''al'') (serve3 (\<lambda>sv. snd (message_start (\<lambda>x. x) 0 0 (raw ''al'') sv)) al_taken)"

lemma room_empty_init: "system3_init room_empty"
proof -
  have "new_server3 sample_env3 = Some (the (new_server3 sample_env3))"
    by (simp add: new_server3_def sample_env3_def setup_signalfd3_def setup_server_socket3_def setup_epoll3_def
        setup_eventfd3_def setup_timerfd3_def Let_def)
  then show ?thesis unfolding system3_init_def room_empty_def by (metis replicate_0 replicate_Suc One_nat_def)
qed

lemma room_empty_fields:
  "next3 (sv3 room_empty) = 0" "usernames3 (sv3 room_empty) = []" "pool3 (sv3 room_empty) = tp_new"
  "length (shards3 (sv3 room_empty)) = NUM_SHARDS" "shards3 (sv3 room_empty) = shards3 blank_server3"
  "up3 room_empty" "crew3 room_empty = [Idle3]"
  using new_server3_fields[of sample_env3 "the (new_server3 sample_env3)"]
  by (simp_all add: room_empty_def new_server3_def sample_env3_def setup_signalfd3_def setup_server_socket3_def setup_epoll3_def
      setup_eventfd3_def setup_timerfd3_def Let_def blank_server3_def add_server_fd3_def)

lemma room_empty_reachable: "reachable system3_init (system3_step fl) room_empty"
  by (rule reachable_init) (rule room_empty_init)

text \<open>Reading on a fresh connection, whatever the chunks.\<close>

lemma frame_not_Nil [simp]: "frame p \<noteq> []" "[] \<noteq> frame p"
proof -
  have "length (frame p) = 4 + length p" by (simp add: frame_def)
  then show "frame p \<noteq> []" "[] \<noteq> frame p" by auto
qed

lemma read_frames:
  assumes "in_buf c = rb_new 8192" "rscript (ksock c) = map Bytes chunks" "[] \<notin> set chunks"
    "concat chunks = concat (map frame ms)" "list_all (\<lambda>p. length p \<le> 8188) ms"
  obtains m' c' where "read_loop now m c = (False, ms, m', c')"
proof -
  have start: "parse_frame [] = Incomplete" by (simp add: parse_frame_def)
  have inc: "incoming (map Bytes cs) = concat cs" for cs by (induction cs) simp_all
  have fit: "list_all (fits (rb_capacity (in_buf c))) ms"
    using assms(5) by (fastforce simp: assms(1) list_all_iff fits_def packet_ok_def rb_capacity_def rb_new_def)
  have data: "data_only (rscript (ksock c))" using assms(3) by (auto simp: assms(2) data_only_def list_all_iff)
  obtain got todo m' c' where r: "ms = got @ todo" "read_loop now m c = (False, got, m', c')"
    "rb_contents (in_buf c') @ [] = concat (map frame todo)" "parse_frame (rb_contents (in_buf c')) = Incomplete"
    using read_loop_reassembles[OF _ _ fit data, of "[]" now m] rb_wf_new[of 8192] assms(1,2,4) start inc[of chunks] by auto
  have "todo = []"
  proof (cases todo)
    case (Cons p ps)
    then have "packet_ok p" using fit r(1) fits_packet_ok[of "rb_capacity (in_buf c)" ms] by simp
    then have "packet_split (concat (map frame todo)) = Some (p, concat (map frame ps))" using packet.dec_enc Cons by simp
    then show ?thesis using r(3,4) by (simp add: packet_split_def)
  qed simp
  then show ?thesis using that r(1,2) by simp
qed

lemma al_connected_fields:
  "next3 (sv3 al_connected) = 1" "usernames3 (sv3 al_connected) = []" "task_queue (pool3 (sv3 al_connected)) = []"
  "crew3 al_connected = [Idle3]" "up3 al_connected" "find_conn3 11 (sv3 al_connected) = Some 0"
  "\<not> active3 (heap3 (sv3 al_connected) 0)" "pool_running (pool3 (sv3 al_connected))"
proof -
  have "shards3 (sv3 room_empty) \<noteq> []" by (simp add: room_empty_fields(5) blank_server3_def NUM_SHARDS_def)
  then show "next3 (sv3 al_connected) = 1" "usernames3 (sv3 al_connected) = []" "task_queue (pool3 (sv3 al_connected)) = []"
    "crew3 al_connected = [Idle3]" "up3 al_connected" "find_conn3 11 (sv3 al_connected) = Some 0"
    "\<not> active3 (heap3 (sv3 al_connected) 0)" "pool_running (pool3 (sv3 al_connected))"
    using accept_one3_fields[where now = 0 and fd = 11 and k = al_socket and s = "sv3 room_empty", unfolded room_empty_fields(1)]
      room_empty_fields(2,3,6,7)
    by (simp_all add: al_connected_def tp_new_def)
qed

lemma al_connected_reachable: "reachable system3_init (system3_step fl) al_connected"
proof (rule reachable_step[OF room_empty_reachable])
  have "find_conn3 11 (sv3 room_empty) = None"
    by (simp add: find_conn3_def get_shard_idx3_def room_empty_fields(5) blank_server3_def NUM_SHARDS_def)
  then show "system3_step fl room_empty al_connected"
    unfolding al_connected_def by (rule accepts[rotated]) (simp_all add: room_empty_fields al_socket_def)
qed

lemma al_read_fields:
  "next3 (sv3 al_read) = 1" "usernames3 (sv3 al_read) = []" "task_queue (pool3 (sv3 al_read)) = [MessageTask 0 (raw ''al'')]"
  "crew3 al_read = [Idle3]" "up3 al_read" "pool_running (pool3 (sv3 al_read))"
  "\<not> closed (link3 (heap3 (sv3 al_read) 0))" "\<not> active3 (heap3 (sv3 al_read) 0)"
  "tokens3 (heap3 (sv3 al_read) 0) = 60" "max_tokens3 (heap3 (sv3 al_read) 0) = 60" "last_refill3 (heap3 (sv3 al_read) 0) = 0"
  "shards3 (sv3 al_read) = shards3 (sv3 al_connected)"
proof -
  let ?c = "link3 (heap3 (sv3 al_connected) 0)"
  note acc = accept_one3_fields(11-16)[where now = 0 and fd = 11 and k = al_socket and s = "sv3 room_empty", unfolded room_empty_fields(1)]
  have c: "?c = link3 (heap3 (accept_one3 0 11 al_socket (sv3 room_empty)) 0)" by (simp add: al_connected_def)
  obtain m l where r: "read_loop 0 (metrics3 (sv3 al_connected)) ?c = (False, [raw ''al''], m, l)"
    by (rule read_frames[of ?c "[frame (raw ''al'')]" "[raw ''al'']" 0 "metrics3 (sv3 al_connected)"])
      (use acc in \<open>simp_all add: c al_socket_def raw_def\<close>)
  have sv: "sv3 al_read = push_message_task 0 (raw ''al'')
      ((upd3 0 (\<lambda>c. c\<lparr>link3 := l\<rparr>) (sv3 al_connected))\<lparr>metrics3 := m\<rparr>)"
    by (simp add: al_read_def handle_read3_def r)
  have closed: "\<not> closed l" using read_loop_same(1)[OF r] acc(1) by (simp add: c)
  show "next3 (sv3 al_read) = 1" "usernames3 (sv3 al_read) = []" "task_queue (pool3 (sv3 al_read)) = [MessageTask 0 (raw ''al'')]"
    "crew3 al_read = [Idle3]" "up3 al_read" "pool_running (pool3 (sv3 al_read))"
    using al_connected_fields by (simp_all add: sv push_message_task_def tp_push_task_def) (simp_all add: al_read_def)
  show "shards3 (sv3 al_read) = shards3 (sv3 al_connected)" by (simp add: sv push_message_task_def)
  show "\<not> closed (link3 (heap3 (sv3 al_read) 0))" "\<not> active3 (heap3 (sv3 al_read) 0)"
    "tokens3 (heap3 (sv3 al_read) 0) = 60" "max_tokens3 (heap3 (sv3 al_read) 0) = 60" "last_refill3 (heap3 (sv3 al_read) 0) = 0"
    using al_connected_fields closed acc by (simp_all add: sv push_message_task_def al_connected_def)
qed

lemma al_read_reachable: "reachable system3_init (system3_step fl) al_read"
  unfolding al_read_def
  by (rule reachable_step[OF al_connected_reachable]) (rule reads[where fd = 11], simp_all add: al_connected_fields locked3_def)

lemma al_taken_fields:
  "sv3 al_taken = (sv3 al_read)\<lparr>pool3 := (pool3 (sv3 al_read))\<lparr>task_queue := []\<rparr>\<rparr>"
  "crew3 al_taken = [Has3 (MessageTask 0 (raw ''al''))]" "up3 al_taken"
  using al_read_fields by (simp_all add: al_taken_def)

lemma al_taken_reachable: "reachable system3_init (system3_step fl) al_taken"
  unfolding al_taken_def
proof (rule reachable_step[OF al_read_reachable])
  have "worker_fetch (pool3 (sv3 al_read)) = (Popped (MessageTask 0 (raw ''al'')), (pool3 (sv3 al_read))\<lparr>task_queue := []\<rparr>)"
    using al_read_fields by (simp add: worker_fetch_def tp_wait_def)
  moreover have "at3 al_read 0 Idle3" using al_read_fields by (simp add: at3_def)
  ultimately have "system3_step fl al_read
      (work3 0 (Has3 (MessageTask 0 (raw ''al''))) (serve3 (\<lambda>sv. sv\<lparr>pool3 := (pool3 (sv3 al_read))\<lparr>task_queue := []\<rparr>\<rparr>) al_read))"
    by (intro fetches)
  then show "system3_step fl al_read
      (work3 0 (Has3 (MessageTask 0 (raw ''al''))) (serve3 (\<lambda>sv. sv\<lparr>pool3 := (pool3 sv)\<lparr>task_queue := []\<rparr>\<rparr>) al_read))"
    by (simp add: serve3_def)
qed

lemma plain_raw [simp]: "plain_text (raw s) = s"
proof (induction s)
  case (Cons c s)
  have "(of_char c :: byte) = word_of_nat (of_char c)" by (simp only: of_nat_of_char)
  then have "unat (of_char c :: byte) = of_char c mod 256" by (simp only: unat_of_nat) simp
  then show ?case using Cons by (simp add: plain_text_def raw_def)
qed (simp add: plain_text_def raw_def)

lemma raw_length [simp]: "length (raw s) = length s" "raw s = [] \<longleftrightarrow> s = ''''" "[] = raw s \<longleftrightarrow> s = ''''"
  by (auto simp: raw_def)

lemma al_start:
  "message_start (\<lambda>x. x) 0 0 (raw ''al'') (sv3 al_taken) = (NameTaken ''al'', sv3 al_reserved)"
  "usernames3 (sv3 al_reserved) = [''al'']" "next3 (sv3 al_reserved) = 1"
  "\<not> closed (link3 (heap3 (sv3 al_reserved) 0))" "find_conn3 11 (sv3 al_reserved) = Some 0"
  using al_read_fields al_connected_fields(6)
  by (simp_all add: al_reserved_def al_taken_fields message_start_def Let_def refill3_def find_conn3_def get_shard_idx3_def)

lemma al_reserved_crew: "crew3 al_reserved = [Naming3 0 ''al'']" "up3 al_reserved"
  by (simp_all add: al_reserved_def al_taken_fields)

lemma al_reserved_reachable: "reachable system3_init (system3_step (\<lambda>x. x)) al_reserved"
proof (rule reachable_step[OF al_taken_reachable])
  have "al_reserved = work3 0 (after_start 0 (NameTaken ''al'')) (serve3 (\<lambda>_. sv3 al_reserved) al_taken)"
    by (simp add: al_reserved_def after_start_def serve3_def work3_def)
  moreover have "at3 al_taken 0 (Has3 (MessageTask 0 (raw ''al'')))" by (simp add: at3_def al_taken_fields)
  moreover have "\<not> locked3 al_taken 0" by (simp add: locked3_def al_taken_fields)
  ultimately show "system3_step (\<lambda>x. x) al_taken al_reserved" using starts al_start(1) by metis
qed

text \<open>The name arrives in order, or the connection is closed while it is being given.\<close>

definition give_al :: "system3 \<Rightarrow> system3" where
  "give_al s = work3 0 (Calling3 (fst (message_login 0 ''al'' (sv3 s)))) (serve3 (\<lambda>sv. snd (message_login 0 ''al'' sv)) s)"

definition al_online :: system3 where
  "al_online = give_al al_reserved"

definition al_lost :: system3 where
  "al_lost = give_al (serve3 (close_conn3 0) al_reserved)"

lemma give_al_step: "crew3 s = [Naming3 0 ''al''] \<Longrightarrow> system3_step fl s (give_al s)"
  using logs_in[of s 0 0 "''al''" "fst (message_login 0 ''al'' (sv3 s))" "snd (message_login 0 ''al'' (sv3 s))" fl]
  by (simp add: give_al_def at3_def serve3_def)

lemma al_online_reachable: "reachable system3_init (system3_step (\<lambda>x. x)) al_online"
  unfolding al_online_def by (rule reachable_step[OF al_reserved_reachable give_al_step[OF al_reserved_crew(1)]])

lemma al_lost_reachable: "reachable system3_init (system3_step (\<lambda>x. x)) al_lost"
  unfolding al_lost_def
proof (rule reachable_step[OF reachable_step[OF al_reserved_reachable]])
  show "system3_step (\<lambda>x. x) al_reserved (serve3 (close_conn3 0) al_reserved)"
    using al_reserved_crew(2) al_start(5) by (rule hangs_up)
  show "system3_step (\<lambda>x. x) (serve3 (close_conn3 0) al_reserved) (give_al (serve3 (close_conn3 0) al_reserved))"
    by (rule give_al_step) (simp add: al_reserved_crew)
qed

section \<open>Names\<close>

text \<open>C30: Names of version 3: in every reachable state of reactor and workers the reserved names are without
  duplicates, no two open connections that have logged in have the same name, and their names are
  reserved and not empty.\<close>

theorem v3_names_unique:
  assumes "reachable system3_init (system3_step fl) s"
  defines "online \<equiv> {cid. \<not> closed (link3 (heap3 (sv3 s) cid)) \<and> active3 (heap3 (sv3 s) cid)}"
    and "name \<equiv> \<lambda>cid. username3 (heap3 (sv3 s) cid)"
  shows "distinct (usernames3 (sv3 s)) \<and> inj_on name online \<and> name ` online \<subseteq> set (usernames3 (sv3 s)) - {''''}"
proof -
  have wf: "names3_wf s" by (rule names3.inv_reachable[OF assms(1)])
  have op: "open_as (sv3 s) cid (name cid)" if "cid \<in> online" for cid
    using that names3_wfD(2)[OF wf] by (simp add: open_as_def online_def name_def)
  have "inj_on name online" using names3_wfD(5)[OF wf op] op by (metis inj_onI)
  then show ?thesis using names3_wfD(1)[OF wf] names3_wfD(4)[OF wf op] op by (auto simp: open_as_def)
qed

theorem v3_names_unique_witness:
  "distinct (usernames3 (sv3 al_online)) \<and> username3 (heap3 (sv3 al_online) 0) \<in> set (usernames3 (sv3 al_online))"
proof -
  have "\<not> closed (link3 (heap3 (sv3 al_online) 0)) \<and> active3 (heap3 (sv3 al_online) 0)"
    using al_start(4) by (simp add: al_online_def give_al_def message_login_def)
  then show ?thesis using v3_names_unique[OF al_online_reachable] by (auto simp: image_subset_iff)
qed

text \<open>Nobody online has the name and nobody is being given it, but it is reserved.\<close>

definition orphan3 :: "string \<Rightarrow> system3 \<Rightarrow> bool" where
  "orphan3 n s \<longleftrightarrow> n \<in> set (usernames3 (sv3 s)) \<and> (\<forall>cid. \<not> open_as (sv3 s) cid n) \<and> (\<forall>cid. Naming3 cid n \<notin> set (crew3 s))"

lemma orphan3D:
  assumes "orphan3 n s"
  shows "n \<in> set (usernames3 (sv3 s))" "\<not> open_as (sv3 s) cid n" "Naming3 cid n \<notin> set (crew3 s)"
  using assms by (auto simp: orphan3_def)

lemma orphan3_quiet:
  assumes "orphan3 n s" "quiet3 S (sv3 s) (sv3 t)" "\<And>cid. Naming3 cid n \<notin> set (crew3 t)"
  shows "orphan3 n t"
  unfolding orphan3_def using orphan3D[OF assms(1)] quiet3D(12)[OF assms(2), of n] quiet3_open[OF assms(2)] assms(3) by blast

lemma orphan3_step:
  assumes o: "orphan3 n s" and wf: "names3_wf s" and step: "system3_step fl s s'"
  shows "orphan3 n s'"
  using step names3_wfD(11)[OF wf]
proof (cases rule: system3_step_kind)
  case reactor then show ?thesis using orphan3_quiet[OF o] orphan3D(3)[OF o] by simp
next
  case (worker S i v w)
  have "Naming3 cid n \<notin> set (crew3 s')" for cid
    using worker(3,4) orphan3D(3)[OF o] set_update_subset_insert[of "crew3 s" i w] by auto
  then show ?thesis using orphan3_quiet[OF o worker(2)] by blast
next
  case (accepted now fd k)
  then show ?thesis using orphan3D[OF o] by (auto simp: orphan3_def accept_one3_fields(2) dest: accept_one3_open)
next
  case (started i cid bs now r sv)
  note crew = set_update_subset_insert[of "crew3 s" i]
  show ?thesis using started(3)
  proof (cases rule: message_start_cases)
    case (told cs)
    have "Naming3 a n \<notin> set (crew3 s')" for a
      using started(4) told(1) orphan3D(3)[OF o] crew by (auto simp: after_start_def)
    then show ?thesis using orphan3_quiet[OF o, of "{}" s'] told(2) started(4) by simp
  next
    case (taken m t)
    have "m \<noteq> n" using taken(6) orphan3D(1)[OF o] by blast
    then have "Naming3 a n \<notin> set (crew3 s')" for a
      using started(4) taken(1) orphan3D(3)[OF o] crew by (auto simp: after_start_def)
    moreover have "\<not> open_as sv a n" for a
      using orphan3D(2)[OF o, of a] quiet3_open[OF taken(2), of a n] taken(4) by (auto simp: open_as_def)
    ultimately show ?thesis using started(4) taken(3,5) orphan3D(1)[OF o] by (simp add: orphan3_def)
  qed
next
  case (logged_in i cid m cs sv)
  have "Naming3 cid m \<in> set (crew3 s)" using logged_in(1) at3_member by blast
  then have "m \<noteq> n" using orphan3D(3)[OF o] by blast
  moreover have sv: "sv = upd3 cid (\<lambda>c. c\<lparr>username3 := m, active3 := True, recipient3 := True\<rparr>) (sv3 s)"
    using logged_in(2) by (auto simp: message_login_def Let_def)
  moreover have "Naming3 a n \<notin> set (crew3 s')" for a
    using logged_in(3) orphan3D(3)[OF o] set_update_subset_insert[of "crew3 s" i] by auto
  ultimately show ?thesis using logged_in(3) orphan3D(1,2)[OF o] by (auto simp: orphan3_def open_as_def)
qed

text \<open>C31: A name can be lost in version 3: when a client disconnects while a worker has reserved its name but not yet
  stored it in the connection, nothing frees the name (the witness reaches such a state). From then
  on it stays reserved whatever happens, and every login under it is refused.\<close>

theorem v3_lost_name_stays:
  assumes "reachable system3_init (system3_step fl) s" "orphan3 n s" "(system3_step fl)\<^sup>*\<^sup>* s s'"
  shows "orphan3 n s' \<and> (\<forall>fl now cid bs. fst (message_start fl now cid bs (sv3 s')) \<noteq> NameTaken n)"
proof -
  have wf: "names3_wf s" by (rule names3.inv_reachable[OF assms(1)])
  have "orphan3 n s' \<and> names3_wf s'"
    using assms(3) by (induction rule: rtranclp_induct) (use assms(2) wf orphan3_step names3_wf_stepped in blast)+
  moreover have "fst (message_start fl' now cid bs (sv3 s')) \<noteq> NameTaken n" if "orphan3 n s'" for fl' now cid bs
  proof
    assume taken: "fst (message_start fl' now cid bs (sv3 s')) = NameTaken n"
    obtain r sv where m: "message_start fl' now cid bs (sv3 s') = (r, sv)" by force
    show False using m by (cases rule: message_start_cases) (use taken m orphan3D(1)[OF that] in auto)
  qed
  ultimately show ?thesis by blast
qed

lemma al_lost_orphan: "orphan3 ''al'' al_lost"
proof -
  have named: "Naming3 0 ''al'' \<in> set (crew3 al_reserved)" by (simp add: al_reserved_crew)
  note wf = names3.inv_reachable[OF al_reserved_reachable]
  have shut: "closed (link3 (heap3 (close_conn3 0 (sv3 al_reserved)) 0))" by (simp add: close_conn3_fields al_start(4))
  have user: "username3 (heap3 (sv3 al_reserved) 0) = ''''" using names3_wfD(2,8)[OF wf] named by blast
  then have "usernames3 (sv3 al_lost) = [''al'']"
    using close_conn3_fields(2)[OF al_start(4)] al_start(2) by (simp add: al_lost_def give_al_def message_login_def)
  moreover have "\<not> open_as (sv3 al_lost) a ''al''" for a
    using shut names3_wfD(9)[OF wf named, of a] quiet3_open[OF quiet3_close, of 0 "sv3 al_reserved" a "''al''"]
    by (auto simp: open_as_def al_lost_def give_al_def message_login_def)
  moreover have "crew3 al_lost = [Calling3 (fst (message_login 0 ''al'' (close_conn3 0 (sv3 al_reserved))))]"
    by (simp add: al_lost_def give_al_def al_reserved_crew)
  ultimately show ?thesis by (simp add: orphan3_def)
qed

theorem v3_lost_name_stays_witness:
  "reachable system3_init (system3_step (\<lambda>x. x)) al_lost \<and> orphan3 ''al'' al_lost \<and>
   fst (message_start (\<lambda>x. x) 0 0 (raw ''al'') (sv3 al_lost)) \<noteq> NameTaken ''al''"
  using v3_lost_name_stays[OF al_lost_reachable al_lost_orphan, of al_lost] al_lost_reachable by blast

section \<open>Streams\<close>

text \<open>C32: Before it has logged in, a client of version 3 sees nothing of the chat: in every reachable state the bytes
  sent to it and queued for it are the encoded welcome, followed only by refusals of names and
  warnings against spam.\<close>

theorem v3_no_chat_before_login:
  assumes "reachable system3_init (system3_step fl) s" "cid < next3 (sv3 s)" "\<not> active3 (heap3 (sv3 s) cid)"
  shows "\<exists>ns. set ns \<subseteq> {TAKEN_NOTICE, SPAM_NOTICE} \<and>
    out_stream (link3 (heap3 (sv3 s) cid)) = concat (map (\<lambda>n. lp_encode (raw n)) (WELCOME # ns))"
  using chat3.inv_reachable[OF assms(1)] says3_wfD(4) assms(2,3) by (simp add: system3_wf_def notices_only_def)

theorem v3_no_chat_before_login_witness:
  "\<exists>ns. set ns \<subseteq> {TAKEN_NOTICE, SPAM_NOTICE} \<and>
    out_stream (link3 (heap3 (sv3 al_read) 0)) = concat (map (\<lambda>n. lp_encode (raw n)) (WELCOME # ns))"
  using v3_no_chat_before_login[OF al_read_reachable, of 0] al_read_fields by simp



text \<open>Broadcasts of version 3 against version 4: on an open connection with a codec a task of version 3, which encodes every
  event again for the connection, does exactly what version 4 does with the events encoded beforehand; the connection
  gets, behind what it already had, the encoded events that do not exclude it, in order, as far as its queue has room.\<close>

theorem v3_broadcast_as_v4:
  assumes "has_codec c" "\<not> closed c" "deliver_conn3 evts m c = (m', c')"
  shows "deliver_conn (map (\<lambda>e. e\<lparr>bpayload := lp_encode (bpayload e)\<rparr>) evts) m c = (m', c') \<and>
    out_stream c' = out_stream c @ concat (map (\<lambda>e. lp_encode (bpayload e))
      (take (MAX_OUTGOING_QUEUE_SIZE - length (outgoing_queue c)) (filter (\<lambda>e. sender_fd e = -1 \<or> sock c \<noteq> sender_fd e) evts)))"
proof -
  let ?enc = "\<lambda>e. e\<lparr>bpayload := lp_encode (bpayload e)\<rparr>"
  have v4: "deliver_conn (map ?enc evts) m c = (m', c')" using deliver_conn3_v4[OF assms(1)] assms(3) by simp
  have "filter (\<lambda>e. sender_fd e = -1 \<or> sock c \<noteq> sender_fd e) (map ?enc evts) =
      map ?enc (filter (\<lambda>e. sender_fd e = -1 \<or> sock c \<noteq> sender_fd e) evts)"
    by (induction evts) auto
  then have "map bpayload (accepted_broadcasts (map ?enc evts) c) = map (\<lambda>e. lp_encode (bpayload e))
      (take (MAX_OUTGOING_QUEUE_SIZE - length (outgoing_queue c)) (filter (\<lambda>e. sender_fd e = -1 \<or> sock c \<noteq> sender_fd e) evts))"
    by (simp add: accepted_broadcasts_def take_map comp_def)
  then show ?thesis using v4 deliver_conn_sends[OF v4] assms(2) by (simp add: sends_def)
qed

theorem v3_broadcast_as_v4_witness:
  "out_stream (snd (deliver_conn3 [\<lparr>sender_fd = 5, bpayload = [1]\<rparr>, \<lparr>sender_fd = 7, bpayload = [2]\<rparr>] metrics_init
     ((registered_connection [Wrote 1])\<lparr>has_codec := True\<rparr>))) = [0, 0, 0, 1, 2]"
proof -
  let ?c = "(registered_connection [Wrote 1])\<lparr>has_codec := True\<rparr>"
  let ?e = "[\<lparr>sender_fd = 5, bpayload = [1]\<rparr>, \<lparr>sender_fd = 7, bpayload = [2]\<rparr>] :: broadcast_event list"
  have c: "has_codec ?c" "\<not> closed ?c" "out_stream ?c = []" "outgoing_queue ?c = []" "sock ?c = 5"
    by (simp_all add: registered_connection_def new_connection_def add_fd_to_epoll_def out_stream_def)
  obtain m' c' where d: "deliver_conn3 ?e metrics_init ?c = (m', c')" by force
  have "lp_encode [2] = [0, 0, 0, 1, 2]" by (simp add: lp_encode_frame frame_def htonl_bytes_def)
  then show ?thesis using v3_broadcast_as_v4[OF c(1,2) d] d c(3-5) by (simp add: MAX_OUTGOING_QUEUE_SIZE_def)
qed

end
