(* ===== verification/ClientV3Props.thy ===== *)
theory ClientV3Props
  imports ClientV3 ChatV3Props
begin

text \<open>
  The client of version 3: what it shows of what arrives, what logging in sends, and its lines up
  to the message hook of the server.
\<close>

section \<open>Receiving\<close>

text \<open>The text the printer gets for a packet.\<close>

definition shown_v3 :: "byte list \<Rightarrow> string" where
  "shown_v3 msg = (let txt = plain_text msg in if txt \<noteq> '''' \<and> last txt = NEWLINE then butlast txt else txt)"

lemma push_v3_shown: "push_v3 msg c = c\<lparr>queue_v3 := (queue_v3 c)\<lparr>queue := queue (queue_v3 c) @ [shown_v3 msg]\<rparr>\<rparr>"
  by (simp add: push_v3_def shown_v3_def Let_def sq_push_def)

lemma process_frames:
  assumes "list_all text_ok got" "take_message part = None" "in_v3 c = concat (map frame got) @ part"
  shows "process_buffer c = c\<lparr>in_v3 := part, queue_v3 := (queue_v3 c)\<lparr>queue := queue (queue_v3 c) @ map shown_v3 got\<rparr>\<rparr>"
  using assms
proof (induction got arbitrary: c)
  case Nil
  then show ?case by (simp add: process_buffer.simps[of c])
next
  case (Cons m got)
  let ?c = "push_v3 m (c\<lparr>in_v3 := concat (map frame got) @ part\<rparr>)"
  have "take_message (in_v3 c) = Some (m, concat (map frame got) @ part)"
    using strmsg.dec_enc[of m] Cons.prems by simp
  then have "process_buffer c = process_buffer ?c" by (simp add: process_buffer.simps[of c])
  also have "\<dots> = ?c\<lparr>in_v3 := part, queue_v3 := (queue_v3 ?c)\<lparr>queue := queue (queue_v3 ?c) @ map shown_v3 got\<rparr>\<rparr>"
    using Cons.prems by (intro Cons.IH) (simp_all add: push_v3_shown)
  finally show ?case by (simp add: push_v3_shown)
qed

lemma receive_rounds_frames:
  assumes "running_v3 c" "[] \<notin> set chunks" "take_message (in_v3 c) = None" "list_all text_ok packets"
    "in_v3 c @ concat chunks = concat (map frame packets)"
  shows "receive_rounds (map RxReady chunks) c =
    c\<lparr>in_v3 := [], queue_v3 := (queue_v3 c)\<lparr>queue := queue (queue_v3 c) @ map shown_v3 packets\<rparr>\<rparr>"
  using assms
proof (induction "length (concat chunks)" arbitrary: chunks c packets rule: less_induct)
  case less
  show ?case
  proof (cases chunks)
    case Nil
    have "packets = []"
    proof (cases packets)
      case (Cons p ps)
      then show ?thesis using strmsg.dec_enc[of p "concat (map frame ps)"] less.prems Nil by simp
    qed simp
    then show ?thesis using Nil less.prems by simp
  next
    case (Cons bs cs)
    let ?got = "take BUFFER_SIZE bs" and ?left = "drop BUFFER_SIZE bs"
    let ?cs = "if ?left = [] then cs else ?left # cs"
    have bs: "bs \<noteq> []" using less.prems(2) Cons by auto
    have cat: "concat ?cs = ?left @ concat cs" by simp
    have "concat (map frame packets) = (in_v3 c @ ?got) @ concat ?cs"
      using less.prems(5) Cons cat by (metis append.assoc append_take_drop_id concat.simps(2))
    from strmsg.prefix_encs[OF less.prems(4) this] obtain got todo part where
      d: "packets = got @ todo" "in_v3 c @ ?got = concat (map frame got) @ part" "take_message part = None"
        "part @ concat ?cs = concat (map frame todo)" by blast
    let ?c1 = "c\<lparr>in_v3 := part, queue_v3 := (queue_v3 c)\<lparr>queue := queue (queue_v3 c) @ map shown_v3 got\<rparr>\<rparr>"
    have ok: "list_all text_ok got" "list_all text_ok todo" using less.prems(4) d(1) by simp_all
    have "process_buffer (c\<lparr>in_v3 := in_v3 c @ ?got\<rparr>) = ?c1"
      using process_frames[OF ok(1) d(3), of "c\<lparr>in_v3 := in_v3 c @ ?got\<rparr>"] d(2) by simp
    moreover have "map RxReady ?cs = (if ?left = [] then map RxReady cs else RxReady ?left # map RxReady cs)" by simp
    ultimately have "receive_rounds (map RxReady chunks) c = receive_rounds (map RxReady ?cs) ?c1"
      using Cons bs less.prems(1) by simp
    also have "\<dots> = ?c1\<lparr>in_v3 := [], queue_v3 := (queue_v3 ?c1)\<lparr>queue := queue (queue_v3 ?c1) @ map shown_v3 todo\<rparr>\<rparr>"
    proof (rule less.hyps)
      show "length (concat ?cs) < length (concat chunks)" using Cons bs by (simp add: BUFFER_SIZE_def)
      show "[] \<notin> set ?cs" using less.prems(2) Cons by auto
    qed (use less.prems(1) ok(2) d(3,4) in simp_all)
    finally show ?thesis using d(1) by simp
  qed
qed

text \<open>What the server of version 3 sends is shown: whatever the chunks and whatever was left over from
  the login, the receiving thread hands the text of every message to the printer, in order, without the
  newline at its end, and keeps nothing back; unlike in version 4 there is no limit on the length.\<close>

theorem v3_client_receives_all:
  assumes "running_v3 c" "[] \<notin> set chunks" "list_all (\<lambda>p. length p < 4294967296) packets"
    "in_v3 c @ concat chunks = concat (map frame packets)"
  shows "receive_loop_v3 (map RxReady chunks) c =
    c\<lparr>in_v3 := [], queue_v3 := (queue_v3 c)\<lparr>queue := queue (queue_v3 c) @
      map (\<lambda>p. let txt = plain_text p in if txt \<noteq> '''' \<and> last txt = NEWLINE then butlast txt else txt) packets\<rparr>\<rparr>"
proof -
  have ok: "list_all text_ok packets" using assms(3) by (simp add: list_all_iff text_ok_def)
  have "receive_loop_v3 (map RxReady chunks) c =
    c\<lparr>in_v3 := [], queue_v3 := (queue_v3 c)\<lparr>queue := queue (queue_v3 c) @ map shown_v3 packets\<rparr>\<rparr>"
  proof (cases "in_v3 c = []")
    case True
    then show ?thesis using receive_rounds_frames[OF assms(1,2) _ ok assms(4)] strmsg.dec_Nil by (simp add: receive_loop_v3_def)
  next
    case False
    from strmsg.prefix_encs[OF ok assms(4)[symmetric]] obtain got todo part where
      d: "packets = got @ todo" "in_v3 c = concat (map frame got) @ part" "take_message part = None"
        "part @ concat chunks = concat (map frame todo)" by blast
    have oks: "list_all text_ok got" "list_all text_ok todo" using ok d(1) by simp_all
    let ?c1 = "c\<lparr>in_v3 := part, queue_v3 := (queue_v3 c)\<lparr>queue := queue (queue_v3 c) @ map shown_v3 got\<rparr>\<rparr>"
    have "receive_loop_v3 (map RxReady chunks) c = receive_rounds (map RxReady chunks) ?c1"
      using False process_frames[OF oks(1) d(3,2)] by (simp add: receive_loop_v3_def)
    also have "\<dots> = ?c1\<lparr>in_v3 := [], queue_v3 := (queue_v3 ?c1)\<lparr>queue := queue (queue_v3 ?c1) @ map shown_v3 todo\<rparr>\<rparr>"
      by (rule receive_rounds_frames) (use assms(1,2) oks(2) d(3,4) in simp_all)
    finally show ?thesis using d(1) by simp
  qed
  then show ?thesis by (simp add: shown_v3_def[abs_def])
qed

definition fresh_v3 :: client_v3 where
  "fresh_v3 = the (new_client_v3 True 3)"

lemma fresh_v3: "fresh_v3 = \<lparr>sock_v3 = -1, sig_v3 = 3, name_v3 = '''', prompt_v3 = '''', line_v3 = '''', in_v3 = [],
    queue_v3 = sq_new, running_v3 = True, sent_v3 = [], screen_v3 = '''', closed_v3 = []\<rparr>"
  by (simp add: fresh_v3_def new_client_v3_def setup_signalfd_v3_def Let_def)

theorem v3_client_receives_all_witness:
  "queue (queue_v3 (receive_loop_v3 (map RxReady [[0, 1], raw [NEWLINE]]) (fresh_v3\<lparr>in_v3 := frame (raw ''A'') @ [0, 0]\<rparr>))) = [''A'', '''']"
proof -
  let ?c = "fresh_v3\<lparr>in_v3 := frame (raw ''A'') @ [0, 0]\<rparr>"
  have "in_v3 ?c @ concat [[0, 1], raw [NEWLINE]] = concat (map frame [raw ''A'', raw [NEWLINE]])"
    by (simp add: frame_def htonl_bytes_def)
  from v3_client_receives_all[OF _ _ _ this] show ?thesis by (simp add: fresh_v3 sq_new_def NEWLINE_def)
qed

section \<open>Logging in\<close>

text \<open>Typing a name: its characters and a newline.\<close>

definition name_keys :: "string \<Rightarrow> name_event list" where
  "name_keys n = map NameKey n @ [NameKey NEWLINE]"

lemma type_name_chars:
  assumes "list_all is_print n"
  shows "type_name (map NameKey n @ es) c = type_name es (c\<lparr>name_v3 := name_v3 c @ n, screen_v3 := screen_v3 c @ n\<rparr>)"
  using assms
proof (induction n arbitrary: c)
  case (Cons ch n)
  then show ?case using is_print_not_control[of ch] by (simp add: show_v3_def)
qed simp

lemma type_name_keys:
  assumes "list_all is_print n" "n \<noteq> ''''"
  shows "type_name (name_keys n @ es) (c\<lparr>name_v3 := ''''\<rparr>) =
    (Entered, es, c\<lparr>name_v3 := n, screen_v3 := screen_v3 c @ n @ [NEWLINE]\<rparr>)"
  using assms type_name_chars[of n "[NameKey NEWLINE] @ es" "c\<lparr>name_v3 := ''''\<rparr>"]
  by (simp add: name_keys_def show_v3_def)

lemma received_frame:
  assumes "text_ok p" "in_v3 c = []"
  shows "received_v3 (frame p) c = (p, c)"
  using strmsg.dec_enc[OF assms(1), of "[]"] assms(2) by (cases c) (simp add: received_v3_def)

text \<open>What counts as a refusal: any message without the words that the server accepts with.\<close>

definition refusal :: "byte list \<Rightarrow> bool" where
  "refusal p \<longleftrightarrow> text_ok p \<and> p \<noteq> [] \<and> \<not> contains ACCEPTED (plain_text p)"

definition good_name :: "string \<Rightarrow> bool" where
  "good_name n \<longleftrightarrow> n \<noteq> '''' \<and> list_all is_print n"

lemma login_round:
  assumes "refusal p" "good_name n" "running_v3 c" "in_v3 c = []"
  shows "\<exists>c'. login_v3 (frame p # rs) (name_keys n @ es) ((True, True) # oks) c = login_v3 rs es oks c' \<and>
    running_v3 c' \<and> in_v3 c' = [] \<and> name_v3 c' = n \<and> sent_v3 c' = sent_v3 c @ frame (raw n)"
proof -
  let ?c2 = "show_v3 (ERASE @ plain_text p) c"
  let ?c3 = "?c2\<lparr>name_v3 := n, screen_v3 := screen_v3 ?c2 @ n @ [NEWLINE]\<rparr>"
  let ?c4 = "?c3\<lparr>sent_v3 := (sent_v3 ?c3 @ htonl_bytes (word_of_nat (length n))) @ raw n\<rparr>"
  have "send_name_v3 (True, True) ?c3 = (True, ?c4)" by (simp add: send_name_v3_def Let_def)
  then have "login_v3 (frame p # rs) (name_keys n @ es) ((True, True) # oks) c = login_v3 rs es oks ?c4"
    using assms type_name_keys[of n es ?c2] received_frame[of p c]
    by (simp add: login_v3.simps[of "frame p # rs"] refusal_def good_name_def)
  moreover have "frame (raw n) = htonl_bytes (word_of_nat (length n)) @ raw n" by (simp add: frame_def raw_def)
  ultimately show ?thesis using assms(3,4) by (intro exI[of _ ?c4]) (simp add: show_v3_def)
qed

lemma login_rounds:
  assumes "list_all refusal ps" "list_all good_name ns" "length ns = length ps" "running_v3 c" "in_v3 c = []"
  shows "\<exists>c'. login_v3 (map frame ps @ rs) (concat (map name_keys ns) @ es) (replicate (length ps) (True, True) @ oks) c =
      login_v3 rs es oks c' \<and>
    running_v3 c' \<and> in_v3 c' = [] \<and> name_v3 c' = last (name_v3 c # ns) \<and> sent_v3 c' = sent_v3 c @ concat (map (\<lambda>n. frame (raw n)) ns)"
  using assms
proof (induction ps arbitrary: ns c)
  case (Cons p ps)
  then obtain n ns' where ns: "ns = n # ns'" by (cases ns) auto
  with Cons.prems obtain c1 where c1:
    "login_v3 (frame p # map frame ps @ rs) (name_keys n @ concat (map name_keys ns') @ es)
       ((True, True) # replicate (length ps) (True, True) @ oks) c =
     login_v3 (map frame ps @ rs) (concat (map name_keys ns') @ es) (replicate (length ps) (True, True) @ oks) c1"
    "running_v3 c1" "in_v3 c1 = []" "name_v3 c1 = n" "sent_v3 c1 = sent_v3 c @ frame (raw n)"
    using login_round[of p n c "map frame ps @ rs" "concat (map name_keys ns') @ es"] by fastforce
  show ?case using Cons.IH[of ns' c1] Cons.prems ns c1 by fastforce
qed auto

text \<open>C34: Logging in with version 3: every message before the one with the words of acceptance counts as a
  refusal, whatever it says, and makes the client ask for another name and send it; the name in the
  prompt is the last one. A chat line that the server delivers between reserving the name and
  accepting it therefore costs the client its next line, and the prompt shows that line instead of the name.\<close>

theorem v3_login_asks_again:
  assumes "list_all (\<lambda>p. p \<noteq> [] \<and> length p < 4294967296 \<and> \<not> contains ''Username accepted!'' (plain_text p)) ps"
    and "list_all (\<lambda>n. n \<noteq> '''' \<and> list_all is_print n) ns" "length ns = length ps"
    and "contains ''Username accepted!'' (plain_text p)" "p \<noteq> []" "length p < 4294967296"
    and "running_v3 c" "in_v3 c = []"
  shows "\<exists>c'. login_v3 (map frame (ps @ [p])) (concat (map name_keys ns)) (replicate (length ps) (True, True)) c = (LoggedIn, c') \<and>
    sent_v3 c' = sent_v3 c @ concat (map (\<lambda>n. frame (raw n)) ns) \<and>
    prompt_v3 c' = ''['' @ last (name_v3 c # ns) @ '']: ''"
proof -
  have "list_all refusal ps" "list_all good_name ns" "text_ok p"
    using assms(1,2,6) by (simp_all add: list_all_iff refusal_def good_name_def text_ok_def ACCEPTED_def)
  from login_rounds[OF this(1,2) assms(3,7,8), of "[frame p]" "[]" "[]"] obtain c1 where c1:
    "login_v3 (map frame (ps @ [p])) (concat (map name_keys ns)) (replicate (length ps) (True, True)) c = login_v3 [frame p] [] [] c1"
    "running_v3 c1" "in_v3 c1 = []" "name_v3 c1 = last (name_v3 c # ns)" "sent_v3 c1 = sent_v3 c @ concat (map (\<lambda>n. frame (raw n)) ns)"
    by auto
  then show ?thesis
    using assms(4,5) received_frame[OF \<open>text_ok p\<close> c1(3)]
    by (simp add: login_v3.simps[of "[frame p]"] ACCEPTED_def show_v3_def)
qed

theorem v3_login_asks_again_witness:
  "\<exists>c'. login_v3 (map frame [raw WELCOME, raw ''[eve]: hi'', raw ''[Server]: Username accepted! :)''])
      (concat (map name_keys [''al'', ''hello''])) [(True, True), (True, True)] fresh_v3 = (LoggedIn, c') \<and>
    sent_v3 c' = frame (raw ''al'') @ frame (raw ''hello'') \<and> prompt_v3 c' = ''[hello]: ''"
proof -
  have "contains ''Username accepted!'' ''[Server]: Username accepted! :)''" by (simp add: contains_def)
  moreover have "\<not> contains ''Username accepted!'' WELCOME" "\<not> contains ''Username accepted!'' ''[eve]: hi''"
    by (simp_all add: contains_def WELCOME_def)
  ultimately show ?thesis
    using v3_login_asks_again[of "[raw WELCOME, raw ''[eve]: hi'']" "[''al'', ''hello'']" "raw ''[Server]: Username accepted! :)''" fresh_v3]
    by (simp add: fresh_v3 is_print_def numeral_2_eq_2) (simp add: WELCOME_def)
qed

section \<open>From the keyboard to the server\<close>

text \<open>A line and what typing it does, if the kernel takes both parts of the message.\<close>

definition plain_v3 :: "string \<Rightarrow> bool" where
  "plain_v3 line \<longleftrightarrow> line \<noteq> '''' \<and> line \<noteq> ''exit'' \<and> length line \<le> 8188 \<and> list_all is_print line"

definition line_keys :: "string \<Rightarrow> key_event_v3 list" where
  "line_keys line = map (\<lambda>ch. KeyV3 ch None None) line @ [KeyV3 NEWLINE (Some 4) (Some (length line))]"

lemma type_line_v3:
  assumes "list_all is_print line" "running_v3 c"
  shows "input_loop_v3 (map (\<lambda>ch. KeyV3 ch None None) line @ es) c =
    input_loop_v3 es (c\<lparr>line_v3 := line_v3 c @ line, screen_v3 := screen_v3 c @ line\<rparr>)"
  using assms
proof (induction line arbitrary: c)
  case (Cons ch line)
  have "key_v3 None None ch c = (False, show_v3 [ch] (c\<lparr>line_v3 := line_v3 c @ [ch]\<rparr>))"
    using is_print_not_control[of ch] Cons.prems by (simp add: key_v3_def)
  then show ?case using Cons by (simp add: show_v3_def)
qed simp

lemma type_line_keys:
  assumes "plain_v3 line" "running_v3 c" "line_v3 c = ''''"
  shows "\<exists>c'. input_loop_v3 (line_keys line @ es) c = input_loop_v3 es c' \<and> running_v3 c' \<and> line_v3 c' = '''' \<and>
    sent_v3 c' = sent_v3 c @ frame (raw line)"
proof -
  let ?c1 = "c\<lparr>line_v3 := line, screen_v3 := screen_v3 c @ line\<rparr>"
  let ?c2 = "show_v3 (prompt_v3 c)
      ((show_v3 (ERASE @ prompt_v3 c @ line @ [NEWLINE]) ?c1)\<lparr>sent_v3 := sent_v3 c @ htonl_bytes (word_of_nat (length line)) @ raw line, line_v3 := ''''\<rparr>)"
  have "key_v3 (Some 4) (Some (length line)) NEWLINE ?c1 = (False, ?c2)"
    using assms(1) by (simp add: key_v3_def enter_line_v3_def plain_v3_def send_v3_def show_v3_def Let_def)
  then have "input_loop_v3 (line_keys line @ es) c = input_loop_v3 es ?c2"
    using type_line_v3[of line c "KeyV3 NEWLINE (Some 4) (Some (length line)) # es"] assms
    by (simp add: line_keys_def plain_v3_def)
  then show ?thesis by (intro exI[of _ ?c2]) (use assms(2) in \<open>simp add: show_v3_def frame_def\<close>)
qed

lemma type_lines_v3:
  assumes "list_all plain_v3 lines" "running_v3 c" "line_v3 c = ''''"
  shows "sent_v3 (input_loop_v3 (concat (map line_keys lines)) c) = sent_v3 c @ concat (map (\<lambda>l. frame (raw l)) lines)"
  using assms
proof (induction lines arbitrary: c)
  case (Cons line lines)
  obtain c' where "input_loop_v3 (line_keys line @ concat (map line_keys lines)) c = input_loop_v3 (concat (map line_keys lines)) c'"
    "running_v3 c'" "line_v3 c' = ''''" "sent_v3 c' = sent_v3 c @ frame (raw line)"
    using type_line_keys[of line c "concat (map line_keys lines)"] Cons.prems by auto
  then show ?case using Cons.IH[of c'] Cons.prems by simp
qed simp

text \<open>C35: From the keyboard of version 3 to its server: lines typed by the user become tasks for the message hook, one per
  line, in order and with exactly the text of the line, if the kernel takes what is sent, and however the network cuts
  the bytes into chunks.\<close>

theorem v3_lines_reach_hook:
  assumes "running_v3 c" "line_v3 c = ''''" "sent_v3 c = []"
    and "list_all (\<lambda>l. l \<noteq> '''' \<and> l \<noteq> ''exit'' \<and> length l \<le> 8188 \<and> list_all is_print l) lines"
    and "in_buf (link3 (heap3 s cid)) = rb_new 8192" "rscript (ksock (link3 (heap3 s cid))) = map Bytes chunks" "[] \<notin> set chunks"
    and "concat chunks = sent_v3 (input_loop_v3 (concat (map line_keys lines)) c)"
  shows "task_queue (pool3 (handle_read3 now cid s)) = task_queue (pool3 s) @ map (\<lambda>l. MessageTask cid (raw l)) lines \<and>
    closed (link3 (heap3 (handle_read3 now cid s) cid)) = closed (link3 (heap3 s cid)) \<and>
    map (\<lambda>l. plain_text (raw l)) lines = lines"
proof -
  let ?c = "link3 (heap3 s cid)" and ?ms = "map raw lines"
  have plain: "list_all plain_v3 lines" using assms(4) by (simp add: list_all_iff plain_v3_def)
  have cat: "concat chunks = concat (map frame ?ms)"
    using type_lines_v3[OF plain assms(1,2)] assms(3,8) by (simp add: comp_def)
  obtain m' l where r: "read_loop now (metrics3 s) ?c = (False, ?ms, m', l)"
    by (rule read_frames[OF assms(5-7) cat]) (use plain in \<open>simp_all add: list_all_iff plain_v3_def\<close>)
  then have hr: "handle_read3 now cid s = fold (push_message_task cid) ?ms ((upd3 cid (\<lambda>c. c\<lparr>link3 := l\<rparr>) s)\<lparr>metrics3 := m'\<rparr>)"
    by (simp add: handle_read3_def)
  show ?thesis using read_loop_same(1)[OF r] by (simp add: hr push_tasks3 comp_def)
qed

theorem v3_lines_reach_hook_witness:
  "task_queue (pool3 (handle_read3 0 0 (sv3 al_connected))) = [MessageTask 0 (raw ''al'')]"
proof -
  have "sent_v3 (input_loop_v3 (concat (map line_keys [''al''])) fresh_v3) = frame (raw ''al'')"
    using type_lines_v3[of "[''al'']" fresh_v3] by (simp add: fresh_v3 plain_v3_def is_print_def)
  moreover have "in_buf (link3 (heap3 (sv3 al_connected) 0)) = rb_new 8192"
    "rscript (ksock (link3 (heap3 (sv3 al_connected) 0))) = map Bytes [frame (raw ''al'')]"
    using accept_one3_fields(12,13)[where now = 0 and fd = 11 and k = al_socket and s = "sv3 room_empty", unfolded room_empty_fields(1)]
    by (simp_all add: al_connected_def al_socket_def)
  ultimately show ?thesis
    using v3_lines_reach_hook[of fresh_v3 "[''al'']" "sv3 al_connected" 0 "[frame (raw ''al'')]" 0] al_connected_fields(3)
    by (simp add: fresh_v3 is_print_def)
qed

end
