(* ===== verification/EchoV1.thy ===== *)
theory EchoV1
  imports Reachability
begin

text \<open>
  Version 1: the echo server \<open>v1/echoServerV1.cpp\<close> and its client \<open>v1/clientV1.cpp\<close>. Each is one
  loop of blocking calls, so the two together are a step relation whose state holds the bytes
  under way in both directions. The network cuts the bytes as it likes: a \<open>recv\<close> returns any
  non-empty front of what has arrived that fits into its buffer.
\<close>

section \<open>Setting up\<close>

text \<open>Setting up the server: the listening descriptor, or None for the exit code 1. The descriptor is not
  closed if \<open>bind\<close> or \<open>listen\<close> fails.\<close>

definition echo_listen :: "int \<Rightarrow> bool \<Rightarrow> bool \<Rightarrow> int option" where
  "echo_listen server_fd bind_ok listen_ok =
     (if server_fd < 0 then None else if \<not> bind_ok then None else if \<not> listen_ok then None else Some server_fd)"

text \<open>The client's socket, or -1, and the descriptors that have been closed.\<close>

definition setup_client_socket1 :: "int \<Rightarrow> bool \<Rightarrow> bool \<Rightarrow> int \<times> int list" where
  "setup_client_socket1 fd address_ok connect_ok =
     (if fd < 0 then (-1, [])
      else if \<not> address_ok then (-1, [fd])
      else if \<not> connect_ok then (-1, [fd])
      else (fd, []))"

text \<open>A \<open>char\<close> array printed as a C string ends at its first zero.\<close>

definition c_string :: "string \<Rightarrow> string" where
  "c_string buf = takeWhile (\<lambda>ch. ch \<noteq> CHR 0x00) buf"

definition BUFFER1 :: nat where "BUFFER1 = 1023"

section \<open>The server\<close>

datatype recv1 = Bytes1 string | Eof1 | Failed1

datatype served = ClientLeft | RecvError | Serving

text \<open>One client: the answers of \<open>recv\<close>, what is echoed and what is logged. The server serves one client at a
  time and accepts the next one after this loop has ended.\<close>

fun serve_client :: "recv1 list \<Rightarrow> served \<times> string \<times> string list" where
  "serve_client [] = (Serving, '''', [])"
| "serve_client (Eof1 # rs) = (ClientLeft, '''', [])"
| "serve_client (Failed1 # rs) = (RecvError, '''', [])"
| "serve_client (Bytes1 bs # rs) =
     (if bs = '''' then (ClientLeft, '''', [])
      else let (how, sent, received) = serve_client rs in (how, bs @ sent, c_string bs # received))"

text \<open>The loop over the clients: a failed \<open>accept\<close> (None) is skipped; every other client is closed after it has
  been served, and the next one has to wait until then.\<close>

fun serve_all :: "(int \<times> recv1 list) option list \<Rightarrow> int list \<times> string list" where
  "serve_all [] = ([], [])"
| "serve_all (None # cs) = serve_all cs"
| "serve_all (Some (client_fd, rs) # cs) =
     (case serve_client rs of
        (Serving, sent, _) \<Rightarrow> ([], [sent])
      | (_, sent, _) \<Rightarrow> (let (closed_fds, echoes) = serve_all cs in (client_fd # closed_fds, sent # echoes)))"

section \<open>Client and server together\<close>

text \<open>\<open>typed1\<close> are the lines the user is going to type, \<open>up1\<close> and \<open>down1\<close> the bytes under way, \<open>said1\<close> all that the client
  has sent, \<open>heard1\<close> what each \<open>recv\<close> has returned, \<open>shown1\<close> what was printed of it.\<close>

record echo1 =
  typed1 :: "string list"
  up1 :: string
  down1 :: string
  waiting1 :: bool
  left1 :: bool
  said1 :: string
  heard1 :: "string list"
  shown1 :: "string list"

definition echo_start :: "string list \<Rightarrow> echo1" where
  "echo_start lines = \<lparr>typed1 = lines, up1 = '''', down1 = '''', waiting1 = False, left1 = False, said1 = '''', heard1 = [], shown1 = []\<rparr>"

text \<open>The client's round up to \<open>recv\<close>, for a \<open>send\<close> that takes the whole line.\<close>

definition say1 :: "string \<Rightarrow> echo1 \<Rightarrow> echo1" where
  "say1 message w =
     (if message = ''exit'' then w\<lparr>left1 := True\<rparr>
      else w\<lparr>up1 := up1 w @ message, said1 := said1 w @ message, waiting1 := True\<rparr>)"

text \<open>The rest of it: what \<open>recv\<close> has returned. The end and an error leave the loop.\<close>

definition answer1 :: "recv1 \<Rightarrow> echo1 \<Rightarrow> echo1" where
  "answer1 r w =
     (case r of
        Bytes1 buffer \<Rightarrow> w\<lparr>waiting1 := False, heard1 := heard1 w @ [buffer], shown1 := shown1 w @ [c_string buffer]\<rparr>
      | Eof1 \<Rightarrow> w\<lparr>waiting1 := False, left1 := True\<rparr>
      | Failed1 \<Rightarrow> w\<lparr>waiting1 := False, left1 := True\<rparr>)"

definition hear1 :: "nat \<Rightarrow> echo1 \<Rightarrow> echo1" where
  "hear1 k w = answer1 (Bytes1 (take k (down1 w))) (w\<lparr>down1 := drop k (down1 w)\<rparr>)"

text \<open>A round of the server that receives \<open>k\<close> bytes and sends them back.\<close>

definition echo_back :: "nat \<Rightarrow> echo1 \<Rightarrow> echo1" where
  "echo_back k w = (let buffer = take k (up1 w) in w\<lparr>up1 := drop k (up1 w), down1 := down1 w @ buffer\<rparr>)"

inductive echo_step :: "echo1 \<Rightarrow> echo1 \<Rightarrow> bool" where
  client_says: "\<not> waiting1 w \<Longrightarrow> \<not> left1 w \<Longrightarrow> typed1 w = message # rest \<Longrightarrow> echo_step w (say1 message (w\<lparr>typed1 := rest\<rparr>))"
| client_hears: "waiting1 w \<Longrightarrow> 0 < k \<Longrightarrow> k \<le> BUFFER1 \<Longrightarrow> k \<le> length (down1 w) \<Longrightarrow> echo_step w (hear1 k w)"
| server_echoes: "0 < k \<Longrightarrow> k \<le> BUFFER1 \<Longrightarrow> k \<le> length (up1 w) \<Longrightarrow> echo_step w (echo_back k w)"

inductive_simps echo_step_iff: "echo_step w w'"

text \<open>The connection may fail as well: a \<open>send\<close> or a \<open>recv\<close> of the client, which then leaves.\<close>

inductive echo_fails :: "echo1 \<Rightarrow> echo1 \<Rightarrow> bool" where
  send_fails: "\<not> waiting1 w \<Longrightarrow> \<not> left1 w \<Longrightarrow> typed1 w = message # rest \<Longrightarrow> message \<noteq> ''exit'' \<Longrightarrow>
    echo_fails w (w\<lparr>typed1 := rest, left1 := True\<rparr>)"
| recv_fails: "waiting1 w \<Longrightarrow> r = Eof1 \<or> r = Failed1 \<Longrightarrow> echo_fails w (answer1 r w)"

definition echo_any :: "echo1 \<Rightarrow> echo1 \<Rightarrow> bool" where
  "echo_any w w' \<longleftrightarrow> echo_step w w' \<or> echo_fails w w'"

text \<open>The server's round is that of \<open>serve_client\<close>.\<close>

lemma serve_client_echo:
  assumes "0 < k" "k \<le> length (up1 w)"
  shows "down1 (echo_back k w) = down1 w @ fst (snd (serve_client [Bytes1 (take k (up1 w))]))"
  using assms by (auto simp: echo_back_def Let_def)

section \<open>What comes back\<close>

text \<open>The bytes are kept in order; a client that waits has something under way or has just sent nothing.\<close>

definition echo_wf :: "string list \<Rightarrow> echo1 \<Rightarrow> bool" where
  "echo_wf lines w \<longleftrightarrow>
     concat (heard1 w) @ down1 w @ up1 w = said1 w \<and> shown1 w = map c_string (heard1 w) \<and>
     (\<exists>past. lines = past @ typed1 w \<and> (waiting1 w \<longrightarrow> down1 w @ up1 w \<noteq> '''' \<or> past \<noteq> [] \<and> last past = ''''))"

lemma say_wf:
  assumes "echo_wf lines w" "\<not> waiting1 w" "typed1 w = message # rest"
  shows "echo_wf lines (say1 message (w\<lparr>typed1 := rest\<rparr>))"
proof -
  from assms obtain past where "lines = past @ message # rest" by (auto simp: echo_wf_def)
  moreover have "concat (heard1 w) @ down1 w @ up1 w = said1 w" "shown1 w = map c_string (heard1 w)"
    using assms(1) by (simp_all add: echo_wf_def)
  ultimately show ?thesis
    using assms(2) unfolding echo_wf_def by (intro conjI exI[of _ "past @ [message]"]) (auto simp: say1_def)
qed

lemma fails_wf:
  assumes "echo_wf lines w" "echo_fails w w'"
  shows "echo_wf lines w'"
  using assms(2)
proof cases
  case (send_fails message rest)
  from assms(1) send_fails obtain past where "lines = past @ message # rest" by (auto simp: echo_wf_def)
  then show ?thesis using assms(1) send_fails unfolding echo_wf_def
    by (intro conjI exI[of _ "past @ [message]"]) simp_all
next
  case (recv_fails r)
  then show ?thesis using assms(1) by (auto simp: echo_wf_def answer1_def)
qed

lemma take_drop_append: "take k xs @ drop k xs @ ys = xs @ ys"
  by (metis append.assoc append_take_drop_id)

lemma hear_wf: "echo_wf lines w \<Longrightarrow> echo_wf lines (hear1 k w)"
  unfolding echo_wf_def by (auto simp: hear1_def answer1_def take_drop_append)

lemma echo_back_same:
  "down1 (echo_back k w) @ up1 (echo_back k w) = down1 w @ up1 w" "heard1 (echo_back k w) = heard1 w"
  "shown1 (echo_back k w) = shown1 w" "typed1 (echo_back k w) = typed1 w" "left1 (echo_back k w) = left1 w"
  "said1 (echo_back k w) = said1 w" "waiting1 (echo_back k w) = waiting1 w"
  by (simp_all add: echo_back_def Let_def)

lemma echo_back_wf: "echo_wf lines w \<Longrightarrow> echo_wf lines (echo_back k w)"
  unfolding echo_wf_def by (simp only: echo_back_same)

interpretation echo: inductive_invariant "\<lambda>w. w = echo_start lines" echo_any "echo_wf lines" for lines
proof
  show "echo_wf lines w" if "w = echo_start lines" for w using that by (simp add: echo_wf_def echo_start_def)
  show "echo_wf lines w'" if "echo_wf lines w" "echo_any w w'" for w w'
    using that(2) unfolding echo_any_def
  proof
    assume "echo_step w w'"
    then show "echo_wf lines w'" using that(1) by cases (auto intro: say_wf hear_wf echo_back_wf)
  qed (rule fails_wf[OF that(1)])
qed

lemma echo_stuck:
  assumes "\<And>w'. \<not> echo_step w w'"
  shows "up1 w = ''''" "waiting1 w \<Longrightarrow> down1 w = ''''" "\<not> waiting1 w \<Longrightarrow> left1 w \<or> typed1 w = []"
proof -
  show "up1 w = ''''"
  proof (rule ccontr)
    assume "up1 w \<noteq> ''''"
    then have "echo_step w (echo_back 1 w)" by (intro server_echoes) (auto simp: BUFFER1_def Suc_le_eq)
    then show False using assms by blast
  qed
  show "down1 w = ''''" if "waiting1 w"
  proof (rule ccontr)
    assume "down1 w \<noteq> ''''"
    then have "echo_step w (hear1 1 w)" using that by (intro client_hears) (auto simp: BUFFER1_def Suc_le_eq)
    then show False using assms by blast
  qed
  show "left1 w \<or> typed1 w = []" if "\<not> waiting1 w"
    using assms client_says[OF that] by (cases "typed1 w") blast+
qed

text \<open>C39: The echo of version 1: whatever the pieces the network delivers, the replies the client has read, followed by what
  is under way, are exactly the bytes it has sent, in order. Client and server come to a halt only when the
  user has left or types nothing more or the connection has failed, unless the user enters an empty line: then nothing is sent, and once
  all earlier replies have been read the client waits for ever for an answer.\<close>

theorem v1_echo_in_order:
  assumes "reachable (\<lambda>w. w = echo_start lines) echo_any w"
  shows "concat (heard1 w) @ down1 w @ up1 w = said1 w \<and> shown1 w = map c_string (heard1 w) \<and>
    ((\<exists>w'. echo_step w w') \<or> left1 w \<or> typed1 w = [] \<and> \<not> waiting1 w \<or>
     waiting1 w \<and> concat (heard1 w) = said1 w \<and> '''' \<in> set (take (length lines - length (typed1 w)) lines))"
proof -
  have wf: "echo_wf lines w" by (rule echo.inv_reachable[OF assms])
  then have 1: "concat (heard1 w) @ down1 w @ up1 w = said1 w" "shown1 w = map c_string (heard1 w)"
    by (simp_all add: echo_wf_def)
  have "left1 w \<or> typed1 w = [] \<and> \<not> waiting1 w \<or>
     waiting1 w \<and> concat (heard1 w) = said1 w \<and> '''' \<in> set (take (length lines - length (typed1 w)) lines)"
    if stuck: "\<And>w'. \<not> echo_step w w'"
  proof (cases "waiting1 w")
    case True
    note s = echo_stuck[OF stuck]
    from wf obtain past where "lines = past @ typed1 w" "past \<noteq> []" "last past = ''''"
      using True s(1,2) by (auto simp: echo_wf_def)
    then have "'''' \<in> set (take (length lines - length (typed1 w)) lines)" using last_in_set by fastforce
    then show ?thesis using True 1 s(1,2) by simp
  next
    case False
    then show ?thesis using echo_stuck(3)[OF stuck] by blast
  qed
  then show ?thesis using 1 by blast
qed

text \<open>The empty line: a first one hangs at once.\<close>

definition hung :: echo1 where
  "hung = (echo_start ['''', ''hello''])\<lparr>typed1 := [''hello''], waiting1 := True\<rparr>"

lemma hung_stuck: "\<not> echo_step hung w'"
  by (simp add: echo_step_iff hung_def echo_start_def)

lemma hung_reachable: "reachable (\<lambda>w. w = echo_start ['''', ''hello'']) echo_any hung"
proof -
  have "echo_step (echo_start ['''', ''hello'']) (say1 '''' ((echo_start ['''', ''hello''])\<lparr>typed1 := [''hello'']\<rparr>))"
    by (rule client_says) (simp_all add: echo_start_def)
  moreover have "say1 '''' ((echo_start ['''', ''hello''])\<lparr>typed1 := [''hello'']\<rparr>) = hung"
    by (simp add: say1_def hung_def echo_start_def)
  ultimately show ?thesis by (auto intro: reachable_step[OF reachable_init] simp: echo_any_def)
qed

theorem v1_echo_in_order_witness: "'''' \<in> set (take (length ['''', ''hello''] - length (typed1 hung)) ['''', ''hello''])"
  using v1_echo_in_order[OF hung_reachable] hung_stuck by (simp add: hung_def echo_start_def)

section \<open>Line by line\<close>

text \<open>A round in which every piece arrives whole.\<close>

definition echo_round :: "string \<Rightarrow> string list \<Rightarrow> echo1 \<Rightarrow> echo1" where
  "echo_round l ls w = hear1 (length l) (echo_back (length l) (say1 l (w\<lparr>typed1 := ls\<rparr>)))"

lemma echo_round_shows:
  assumes "\<not> waiting1 w" "\<not> left1 w" "typed1 w = l # ls" "up1 w = ''''" "down1 w = ''''"
    and "l \<noteq> ''''" "l \<noteq> ''exit''" "length l \<le> 1023" "CHR 0x00 \<notin> set l"
  shows "echo_step\<^sup>*\<^sup>* w (echo_round l ls w)"
    "echo_round l ls w = w\<lparr>typed1 := ls, said1 := said1 w @ l, heard1 := heard1 w @ [l], shown1 := shown1 w @ [l]\<rparr>"
proof -
  let ?a = "say1 l (w\<lparr>typed1 := ls\<rparr>)" and ?b = "echo_back (length l) (say1 l (w\<lparr>typed1 := ls\<rparr>))"
  have a: "?a = w\<lparr>typed1 := ls, up1 := l, said1 := said1 w @ l, waiting1 := True\<rparr>"
    using assms(4,7) by (simp add: say1_def)
  have b: "?b = w\<lparr>typed1 := ls, up1 := '''', down1 := l, said1 := said1 w @ l, waiting1 := True\<rparr>"
    unfolding a using assms(5) by (simp add: echo_back_def Let_def)
  have "echo_step w ?a" by (rule client_says[OF assms(1-3)])
  moreover have "echo_step ?a ?b" by (rule server_echoes) (use assms(6,8) in \<open>simp_all add: BUFFER1_def a\<close>)
  moreover have "echo_step ?b (echo_round l ls w)" unfolding echo_round_def
    by (rule client_hears) (use assms(6,8) in \<open>simp_all add: BUFFER1_def b\<close>)
  ultimately show "echo_step\<^sup>*\<^sup>* w (echo_round l ls w)"
    by (rule converse_rtranclp_into_rtranclp[OF _ converse_rtranclp_into_rtranclp[OF _ r_into_rtranclp]])
  have "c_string l = l" using assms(9) by (induction l) (auto simp: c_string_def)
  then show "echo_round l ls w = w\<lparr>typed1 := ls, said1 := said1 w @ l, heard1 := heard1 w @ [l], shown1 := shown1 w @ [l]\<rparr>"
    unfolding echo_round_def b using assms(1,4,5) by (cases w) (simp add: hear1_def answer1_def)
qed

text \<open>Lines of at most 1023 characters that are neither empty nor \<open>exit\<close> can come back one by one, each as it was typed.\<close>

theorem v1_lines_come_back:
  assumes "list_all (\<lambda>l. l \<noteq> '''' \<and> l \<noteq> ''exit'' \<and> length l \<le> 1023 \<and> CHR 0x00 \<notin> set l) lines"
  shows "\<exists>w. reachable (\<lambda>w. w = echo_start lines) echo_any w \<and> shown1 w = lines \<and> typed1 w = [] \<and> \<not> waiting1 w"
proof -
  have "\<exists>w'. echo_step\<^sup>*\<^sup>* w w' \<and> shown1 w' = shown1 w @ ls \<and> typed1 w' = [] \<and> \<not> waiting1 w'"
    if "list_all (\<lambda>l. l \<noteq> '''' \<and> l \<noteq> ''exit'' \<and> length l \<le> 1023 \<and> CHR 0x00 \<notin> set l) ls"
      "\<not> waiting1 w" "\<not> left1 w" "typed1 w = ls" "up1 w = ''''" "down1 w = ''''" for w ls
    using that
  proof (induction ls arbitrary: w)
    case (Cons l ls)
    note r = echo_round_shows[of w l ls, OF Cons.prems(2-6)]
    have "\<exists>w'. echo_step\<^sup>*\<^sup>* (echo_round l ls w) w' \<and> shown1 w' = shown1 (echo_round l ls w) @ ls \<and> typed1 w' = [] \<and> \<not> waiting1 w'"
      by (rule Cons.IH) (use Cons.prems r(2) in simp_all)
    then obtain w' where "echo_step\<^sup>*\<^sup>* (echo_round l ls w) w'" "shown1 w' = shown1 (echo_round l ls w) @ ls"
      "typed1 w' = []" "\<not> waiting1 w'" by blast
    then show ?case using Cons.prems(1) r by (intro exI[of _ w']) (auto intro: rtranclp_trans)
  qed auto
  from this[OF assms, of "echo_start lines"] obtain w where
    "echo_step\<^sup>*\<^sup>* (echo_start lines) w" "shown1 w = lines" "typed1 w = []" "\<not> waiting1 w"
    by (auto simp: echo_start_def)
  moreover from this have "echo_any\<^sup>*\<^sup>* (echo_start lines) w" by (elim mono_rtranclp[THEN mp, rotated]) (simp add: echo_any_def)
  ultimately show ?thesis by (intro exI[of _ w]) (simp add: reachable_def)
qed

theorem v1_lines_come_back_witness:
  "\<exists>w. reachable (\<lambda>w. w = echo_start [''hello'', ''world'']) echo_any w \<and> shown1 w = [''hello'', ''world''] \<and> typed1 w = [] \<and> \<not> waiting1 w"
  by (rule v1_lines_come_back) simp

end
