(* ===== verification/ServerV2.thy ===== *)
theory ServerV2
  imports Framing
begin

text \<open>
  The server of version 2 (\<open>v2/webserver.cpp\<close>, \<open>v2/webserver.h\<close>, \<open>v2/connection.h\<close> and the
  task body of \<open>v2/threadpool.cpp\<close>): a chat room over lines of text. The reactor thread reads
  lines, the first good one of a connection is its name, later ones become tasks for the
  workers, which format them and queue them for everybody; the reactor copies the queue into
  the output buffers. The names of the code carry the suffix \<open>2\<close>.
\<close>

section \<open>Connections\<close>

datatype conn_state = AWAITING_USERNAME | ACTIVE

text \<open>
  What the kernel answers to a \<open>send\<close>: so many bytes taken, not now, or an error. The last
  four fields are the kernel's: the answers to come, the bytes it has taken, and the
  registration in epoll (none, or whether \<open>EPOLLOUT\<close> is watched). \<open>EPOLLIN\<close> always is.
\<close>

datatype send_answer = Took nat | TryAgain | SendFailed

record connection2 =
  fd2 :: int
  username2 :: string
  state2 :: conn_state
  in_buf2 :: string
  out_buf2 :: string
  closed2 :: bool
  answers2 :: "send_answer list"
  wire2 :: string
  watched2 :: "bool option"

definition new_connection2 :: "int \<Rightarrow> send_answer list \<Rightarrow> connection2" where
  "new_connection2 fd as = \<lparr>fd2 = fd, username2 = '''', state2 = AWAITING_USERNAME, in_buf2 = '''', out_buf2 = '''',
     closed2 = False, answers2 = as, wire2 = '''', watched2 = None\<rparr>"

definition add_fd_to_epoll2 :: "bool \<Rightarrow> connection2 \<Rightarrow> connection2" where
  "add_fd_to_epoll2 out c = (if watched2 c = None then c\<lparr>watched2 := Some out\<rparr> else c)"

text \<open>\<open>EPOLL_CTL_MOD\<close> fails for a descriptor that is not registered.\<close>

definition mod_fd_epoll2 :: "bool \<Rightarrow> connection2 \<Rightarrow> connection2" where
  "mod_fd_epoll2 out c = (if watched2 c = None then c else c\<lparr>watched2 := Some out\<rparr>)"

text \<open>A \<open>send\<close>; on a closed descriptor it fails. Without an answer to come the socket is full.\<close>

definition kernel_send :: "string \<Rightarrow> connection2 \<Rightarrow> send_answer \<times> connection2" where
  "kernel_send data c =
     (if closed2 c then (SendFailed, c)
      else case answers2 c of
          [] \<Rightarrow> (TryAgain, c)
        | Took n # as \<Rightarrow> (Took (min n (length data)), c\<lparr>answers2 := as, wire2 := wire2 c @ take n data\<rparr>)
        | a # as \<Rightarrow> (a, c\<lparr>answers2 := as\<rparr>))"

section \<open>The server\<close>

record web_server2 =
  heap2 :: "nat \<Rightarrow> connection2"
  next2 :: nat
  connections2 :: "(int \<times> nat) list"
  usernames2 :: "string list"
  broadcast_queue2 :: "(string \<times> int) list"
  tasks2 :: "(nat \<times> string) list"
  notify2 :: nat
  running2 :: bool
  pool_running2 :: bool
  closed_fds2 :: "int list"
  listen_fd2 :: int
  epoll_fd2 :: int
  sig_fd2 :: int
  notify_fd2 :: int
  server_fds2 :: "int list"

text \<open>The objects behind the \<open>shared_ptr\<close>s are a heap; \<open>next2\<close> is the first free place.\<close>

definition upd2 :: "nat \<Rightarrow> (connection2 \<Rightarrow> connection2) \<Rightarrow> web_server2 \<Rightarrow> web_server2" where
  "upd2 cid f s = s\<lparr>heap2 := (heap2 s)(cid := f (heap2 s cid))\<rparr>"

definition queue_broadcast_message2 :: "string \<Rightarrow> int \<Rightarrow> web_server2 \<Rightarrow> web_server2" where
  "queue_broadcast_message2 msg sender_fd s = s\<lparr>broadcast_queue2 := broadcast_queue2 s @ [(msg, sender_fd)]\<rparr>"

text \<open>\<open>write(notify_fd_, \<dots>)\<close> adds one to the counter of the eventfd.\<close>

definition notify_loop :: "web_server2 \<Rightarrow> web_server2" where
  "notify_loop s = s\<lparr>notify2 := notify2 s + 1\<rparr>"

definition push_task2 :: "nat \<Rightarrow> string \<Rightarrow> web_server2 \<Rightarrow> web_server2" where
  "push_task2 cid message s = s\<lparr>tasks2 := tasks2 s @ [(cid, message)]\<rparr>"

definition send_now :: "nat \<Rightarrow> string \<Rightarrow> web_server2 \<Rightarrow> web_server2" where
  "send_now cid msg = upd2 cid (\<lambda>c. snd (kernel_send msg c))"

definition close_conn2 :: "nat \<Rightarrow> web_server2 \<Rightarrow> web_server2" where
  "close_conn2 cid s =
     (if closed2 (heap2 s cid) then s
      else let c = heap2 s cid;
               s1 = upd2 cid (\<lambda>c. c\<lparr>closed2 := True\<rparr>) s;
               s2 = (if username2 c \<noteq> ''''
                     then notify_loop (queue_broadcast_message2 (''[Server]: '' @ username2 c @ '' has left the chatroom.'' @ [CHR 0x0A]) (-1)
                            (s1\<lparr>usernames2 := removeAll (username2 c) (usernames2 s1)\<rparr>))
                     else s1);
               s3 = upd2 cid (\<lambda>c. c\<lparr>watched2 := None\<rparr>) s2
           in s3\<lparr>closed_fds2 := closed_fds2 s3 @ [fd2 c], connections2 := AList.delete (fd2 c) (connections2 s3)\<rparr>)"

section \<open>Accepting\<close>

definition accept_one2 :: "int \<Rightarrow> send_answer list \<Rightarrow> web_server2 \<Rightarrow> web_server2" where
  "accept_one2 client_fd as s =
     (let cid = next2 s;
          s1 = s\<lparr>heap2 := (heap2 s)(cid := new_connection2 client_fd as), next2 := next2 s + 1,
                 connections2 := AList.update client_fd cid (connections2 s)\<rparr>;
          s2 = upd2 cid (add_fd_to_epoll2 False) s1
      in send_now cid ''[Server]: Welcome! Please enter your username: '' s2)"

text \<open>The connections waiting in the backlog; an error of \<open>accept\<close> ends the loop as well.\<close>

fun accept_loop2 :: "(int \<times> send_answer list) list \<Rightarrow> web_server2 \<Rightarrow> web_server2" where
  "accept_loop2 [] s = s"
| "accept_loop2 ((client_fd, as) # pend) s = accept_loop2 pend (accept_one2 client_fd as s)"

section \<open>Reading\<close>

fun find_nl :: "string \<Rightarrow> nat option" where
  "find_nl [] = None"
| "find_nl (ch # s) = (if ch = CHR 0x0A then Some 0 else map_option Suc (find_nl s))"

text \<open>One line, with its newline, off the front.\<close>

definition take_line :: "string \<Rightarrow> (string \<times> string) option" where
  "take_line buf = (case find_nl buf of None \<Rightarrow> None | Some pos \<Rightarrow> Some (take (pos + 1) buf, drop (pos + 1) buf))"

definition handle_line :: "nat \<Rightarrow> string \<Rightarrow> web_server2 \<Rightarrow> web_server2" where
  "handle_line cid line s =
     (case state2 (heap2 s cid) of
        AWAITING_USERNAME \<Rightarrow>
          (let enteredName = take (length line - 1) line
           in if enteredName \<notin> set (usernames2 s) \<and> enteredName \<noteq> ''''
              then let s1 = s\<lparr>usernames2 := enteredName # usernames2 s\<rparr>;
                       s2 = upd2 cid (\<lambda>c. c\<lparr>username2 := enteredName, state2 := ACTIVE\<rparr>) s1;
                       s3 = send_now cid (''[Server]: Username accepted! You have entered the chat!'' @ [CHR 0x0A]) s2
                   in notify_loop (queue_broadcast_message2
                        (''[Server]: '' @ username2 (heap2 s3 cid) @ '' has joined the chatroom!'' @ [CHR 0x0A]) (-1) s3)
              else send_now cid (''[Server]: Username is invalid or already used. Please try another one.'' @ [CHR 0x0A]) s)
      | ACTIVE \<Rightarrow> push_task2 cid (line @ [CHR 0x0A]) s)"

lemma upd2_fields [simp]:
  "heap2 (upd2 cid f s) = (heap2 s)(cid := f (heap2 s cid))" "next2 (upd2 cid f s) = next2 s"
  "connections2 (upd2 cid f s) = connections2 s" "usernames2 (upd2 cid f s) = usernames2 s"
  "broadcast_queue2 (upd2 cid f s) = broadcast_queue2 s" "tasks2 (upd2 cid f s) = tasks2 s"
  "notify2 (upd2 cid f s) = notify2 s" "running2 (upd2 cid f s) = running2 s"
  "pool_running2 (upd2 cid f s) = pool_running2 s" "closed_fds2 (upd2 cid f s) = closed_fds2 s"
  by (simp_all add: upd2_def)

lemma kernel_send_fields [simp]:
  "fd2 (snd (kernel_send d c)) = fd2 c" "username2 (snd (kernel_send d c)) = username2 c"
  "state2 (snd (kernel_send d c)) = state2 c" "in_buf2 (snd (kernel_send d c)) = in_buf2 c"
  "out_buf2 (snd (kernel_send d c)) = out_buf2 c" "closed2 (snd (kernel_send d c)) = closed2 c"
  "watched2 (snd (kernel_send d c)) = watched2 c"
  by (simp_all add: kernel_send_def split: list.split send_answer.split)

lemma take_line_shrinks: "take_line buf = Some (line, rest) \<Longrightarrow> length rest < length buf"
  by (cases buf) (auto simp: take_line_def split: option.splits)

lemma handle_line_in_buf [simp]: "in_buf2 (heap2 (handle_line cid line s) cid') = in_buf2 (heap2 s cid')"
  by (simp add: handle_line_def send_now_def notify_loop_def queue_broadcast_message2_def push_task2_def Let_def
      split: conn_state.split)

function read_lines :: "nat \<Rightarrow> web_server2 \<Rightarrow> web_server2" where
  "read_lines cid s =
     (case take_line (in_buf2 (heap2 s cid)) of
        None \<Rightarrow> s
      | Some (line, rest) \<Rightarrow> read_lines cid (handle_line cid line (upd2 cid (\<lambda>c. c\<lparr>in_buf2 := rest\<rparr>) s)))"
  by pat_completeness auto
termination
  by (relation "measure (\<lambda>(cid, s). length (in_buf2 (heap2 s cid)))") (auto dest: take_line_shrinks)

declare read_lines.simps [simp del]

datatype recv_answer = Received string | RecvEof | RecvFailed

text \<open>The answers of \<open>recv\<close> until it would block.\<close>

fun handle_read2 :: "nat \<Rightarrow> recv_answer list \<Rightarrow> web_server2 \<Rightarrow> web_server2" where
  "handle_read2 cid [] s = s"
| "handle_read2 cid (Received bs # rs) s =
     handle_read2 cid rs (read_lines cid (upd2 cid (\<lambda>c. c\<lparr>in_buf2 := in_buf2 c @ bs\<rparr>) s))"
| "handle_read2 cid (RecvEof # rs) s = close_conn2 cid s"
| "handle_read2 cid (RecvFailed # rs) s = close_conn2 cid s"

section \<open>Writing\<close>

text \<open>The loop of \<open>handle_write\<close> on the connection: whether it has to be closed, and the connection. An
  answer of zero bytes counts as an error.\<close>

function write_out :: "connection2 \<Rightarrow> bool \<times> connection2" where
  "write_out c =
     (if out_buf2 c = '''' then (False, mod_fd_epoll2 False c)
      else case kernel_send (out_buf2 c) c of
          (Took n, c1) \<Rightarrow> if n > 0 then write_out (c1\<lparr>out_buf2 := drop n (out_buf2 c1)\<rparr>) else (True, c1)
        | (TryAgain, c1) \<Rightarrow> (False, mod_fd_epoll2 True c1)
        | (SendFailed, c1) \<Rightarrow> (True, c1))"
  by pat_completeness auto
termination
  by (relation "measure (\<lambda>c. length (out_buf2 c))")
    (auto simp: kernel_send_def split: if_splits list.splits send_answer.splits)

declare write_out.simps [simp del]

definition handle_write2 :: "nat \<Rightarrow> web_server2 \<Rightarrow> web_server2" where
  "handle_write2 cid s =
     (let (fatal, c) = write_out (heap2 s cid); s1 = upd2 cid (\<lambda>_. c) s
      in if fatal then close_conn2 cid s1 else s1)"

section \<open>Broadcasting\<close>

text \<open>One connection of the snapshot.\<close>

definition buffer_for :: "(string \<times> int) list \<Rightarrow> connection2 \<Rightarrow> string" where
  "buffer_for msgs c = concat (map fst (filter (\<lambda>(msg, sender). fd2 c \<noteq> sender) msgs))"

definition broadcast_to :: "(string \<times> int) list \<Rightarrow> connection2 \<Rightarrow> connection2" where
  "broadcast_to msgs c =
     (if closed2 c \<or> state2 c \<noteq> ACTIVE then c
      else let buffer_for_this_client = buffer_for msgs c
           in if buffer_for_this_client \<noteq> ''''
              then mod_fd_epoll2 True (c\<lparr>out_buf2 := out_buf2 c @ buffer_for_this_client\<rparr>)
              else c)"

definition handle_broadcasts2 :: "web_server2 \<Rightarrow> web_server2" where
  "handle_broadcasts2 s =
     (let messages_to_send = broadcast_queue2 s; s1 = s\<lparr>broadcast_queue2 := []\<rparr>
      in if messages_to_send = [] then s1
         else let active_conns = map snd (connections2 s1)
              in fold (\<lambda>cid. upd2 cid (broadcast_to messages_to_send)) active_conns s1)"

text \<open>Not called any more by the loop.\<close>

definition handle_pending_writes2 :: "web_server2 \<Rightarrow> web_server2" where
  "handle_pending_writes2 s =
     fold (\<lambda>cid. upd2 cid (\<lambda>c. if out_buf2 c \<noteq> '''' then mod_fd_epoll2 True c else c)) (map snd (connections2 s)) s"

section \<open>The workers\<close>

text \<open>The body of \<open>worker_loop\<close> after a task has been taken: what it is going to queue, if anything.\<close>

definition format_task :: "nat \<Rightarrow> string \<Rightarrow> web_server2 \<Rightarrow> (string \<times> int) option" where
  "format_task cid message s =
     (let c = heap2 s cid
      in if closed2 c \<or> username2 c = '''' then None
         else Some (''['' @ username2 c @ '']: '' @ take (length message - 1) message @ [CHR 0x0A], fd2 c))"

section \<open>The loop\<close>

text \<open>What \<open>epoll_wait\<close> reports. A ready connection is its descriptor, whether it has hung up or failed,
  may be read, may be written, and what \<open>recv\<close> will answer.\<close>

datatype source2 = ListenReady "(int \<times> send_answer list) list" | SignalReady2 | NotifyReady
  | ConnReady int bool bool bool "recv_answer list"

definition handle_conn2 :: "nat \<Rightarrow> bool \<Rightarrow> bool \<Rightarrow> bool \<Rightarrow> recv_answer list \<Rightarrow> web_server2 \<Rightarrow> web_server2" where
  "handle_conn2 cid err inn out rs s =
     (if err then close_conn2 cid s
      else let s1 = (if inn then handle_read2 cid rs s else s)
           in if out then handle_write2 cid s1 else s1)"

definition drain_notify :: "web_server2 \<Rightarrow> web_server2" where
  "drain_notify s = s\<lparr>notify2 := 0\<rparr>"

definition stop2 :: "web_server2 \<Rightarrow> web_server2" where
  "stop2 s =
     (let s1 = s\<lparr>running2 := False, pool_running2 := False\<rparr>;
          s2 = s1\<lparr>closed_fds2 := closed_fds2 s1 @ map fst (connections2 s1), connections2 := []\<rparr>
      in s2\<lparr>closed_fds2 := closed_fds2 s2 @ filter (\<lambda>fd. fd \<ge> 0) [listen_fd2 s2, epoll_fd2 s2, sig_fd2 s2, notify_fd2 s2]\<rparr>)"

text \<open>One batch; the signal ends it.\<close>

fun run_batch2 :: "source2 list \<Rightarrow> web_server2 \<Rightarrow> web_server2" where
  "run_batch2 [] s = s"
| "run_batch2 (ListenReady pend # es) s = run_batch2 es (accept_loop2 pend s)"
| "run_batch2 (SignalReady2 # es) s = s\<lparr>running2 := False\<rparr>"
| "run_batch2 (NotifyReady # es) s = run_batch2 es (handle_broadcasts2 (drain_notify s))"
| "run_batch2 (ConnReady fd err inn out rs # es) s =
     run_batch2 es (case map_of (connections2 s) fd of None \<Rightarrow> s | Some cid \<Rightarrow> handle_conn2 cid err inn out rs s)"

text \<open>The results of \<open>epoll_wait\<close>: a batch, or None for an error, which leaves the loop.\<close>

fun run2 :: "source2 list option list \<Rightarrow> web_server2 \<Rightarrow> web_server2" where
  "run2 [] s = s"
| "run2 (w # ws) s =
     (if \<not> running2 s then stop2 s
      else case w of None \<Rightarrow> stop2 s
        | Some es \<Rightarrow> (let s1 = run_batch2 es s in if running2 s1 then run2 ws s1 else stop2 s1))"

section \<open>Construction\<close>

text \<open>What the system calls of the constructor return; every failure exits the program. The
  descriptors registered in epoll are collected in \<open>server_fds2\<close>.\<close>

record setup2 =
  mask_ok2 :: bool
  signalfd2 :: int
  socket2 :: int
  reuse_ok2 :: bool
  bind_ok2 :: bool
  listen_ok2 :: bool
  epoll2 :: int
  eventfd2 :: int

definition blank_server2 :: web_server2 where
  "blank_server2 = \<lparr>heap2 = \<lambda>_. new_connection2 (-1) [], next2 = 0, connections2 = [], usernames2 = [],
     broadcast_queue2 = [], tasks2 = [], notify2 = 0, running2 = True, pool_running2 = True, closed_fds2 = [],
     listen_fd2 = -1, epoll_fd2 = -1, sig_fd2 = -1, notify_fd2 = -1, server_fds2 = []\<rparr>"

definition watch2 :: "int \<Rightarrow> web_server2 \<Rightarrow> web_server2" where
  "watch2 fd s = s\<lparr>server_fds2 := server_fds2 s @ [fd]\<rparr>"

definition setup_signalfd2 :: "setup2 \<Rightarrow> web_server2 \<Rightarrow> web_server2 option" where
  "setup_signalfd2 e s =
     (if \<not> mask_ok2 e then None
      else let s1 = s\<lparr>sig_fd2 := signalfd2 e\<rparr> in if sig_fd2 s1 = -1 then None else Some s1)"

definition setup_server_socket2 :: "setup2 \<Rightarrow> web_server2 \<Rightarrow> web_server2 option" where
  "setup_server_socket2 e s =
     (let s1 = s\<lparr>listen_fd2 := socket2 e\<rparr>
      in if listen_fd2 s1 < 0 then None
         else if \<not> reuse_ok2 e then None
         else if \<not> bind_ok2 e then None
         else if \<not> listen_ok2 e then None
         else Some s1)"

definition setup_epoll2 :: "setup2 \<Rightarrow> web_server2 \<Rightarrow> web_server2 option" where
  "setup_epoll2 e s =
     (let s1 = s\<lparr>epoll_fd2 := epoll2 e\<rparr>
      in if epoll_fd2 s1 = -1 then None else Some (watch2 (sig_fd2 s1) (watch2 (listen_fd2 s1) s1)))"

definition setup_eventfd2 :: "setup2 \<Rightarrow> web_server2 \<Rightarrow> web_server2 option" where
  "setup_eventfd2 e s =
     (let s1 = s\<lparr>notify_fd2 := eventfd2 e\<rparr>
      in if notify_fd2 s1 = -1 then None else Some (watch2 (notify_fd2 s1) s1))"

definition new_server2 :: "setup2 \<Rightarrow> web_server2 option" where
  "new_server2 e =
     Option.bind (setup_signalfd2 e blank_server2) (\<lambda>s1.
     Option.bind (setup_server_socket2 e s1) (\<lambda>s2.
     Option.bind (setup_epoll2 e s2) (setup_eventfd2 e)))"

end
