(* ===== verification/ServerV2Props.thy ===== *)
theory ServerV2Props
  imports ServerV2 Reachability
begin

text \<open>
  The properties of the server of version 2: the lines a connection sends are handled one by
  one whatever the chunks, names are unique and freed, output is never lost or forgotten, and
  a broadcast reaches everybody. The threads are a step relation: the reactor in pieces (one
  chunk, one line), the workers with taking, testing, queueing and notifying apart.
\<close>

section \<open>Lines\<close>

abbreviation NL :: char where "NL \<equiv> CHR 0x0A"

lemma find_nl_none: "find_nl s = None \<longleftrightarrow> NL \<notin> set s"
  by (induction s) auto

lemma find_nl_skip: "NL \<notin> set xs \<Longrightarrow> find_nl (xs @ NL # ys) = Some (length xs)"
  by (induction xs) auto

lemma take_line_none: "take_line s = None \<longleftrightarrow> NL \<notin> set s"
  using find_nl_none[of s] by (auto simp: take_line_def split: option.split)

lemma take_line_line: "NL \<notin> set l \<Longrightarrow> take_line (l @ NL # rest) = Some (l @ [NL], rest)"
  by (simp add: take_line_def find_nl_skip)

text \<open>The lines of the server as a framing.\<close>

definition split_line2 :: "(string, char) deframer" where
  "split_line2 buf = map_option (\<lambda>(line, rest). (butlast line, rest)) (take_line buf)"

interpretation line2: framing "\<lambda>l. l @ [NL]" split_line2 "\<lambda>l. NL \<notin> set l"
proof
  fix m rest xs ys :: string
  show "NL \<notin> set m \<Longrightarrow> split_line2 ((m @ [NL]) @ rest) = Some (m, rest)"
    by (simp add: split_line2_def take_line_line)
  show "split_line2 xs = None" if "NL \<notin> set m" "m @ [NL] = xs @ ys" "ys \<noteq> []"
  proof -
    have "NL \<notin> set xs" using that by (cases ys rule: rev_cases) auto
    then show ?thesis by (simp add: split_line2_def take_line_none[THEN iffD2])
  qed
  show "split_line2 xs = Some (m, rest) \<Longrightarrow> length rest < length xs"
    by (auto simp: split_line2_def dest: take_line_shrinks)
  show "split_line2 [] = None" by (simp add: split_line2_def take_line_def)
qed

text \<open>What is left in the input buffer does not matter for handling a line.\<close>

abbreviation set_in_buf :: "nat \<Rightarrow> string \<Rightarrow> web_server2 \<Rightarrow> web_server2" where
  "set_in_buf cid b \<equiv> upd2 cid (\<lambda>c. c\<lparr>in_buf2 := b\<rparr>)"

lemma kernel_send_in_buf: "snd (kernel_send d (c\<lparr>in_buf2 := b\<rparr>)) = (snd (kernel_send d c))\<lparr>in_buf2 := b\<rparr>"
  by (simp add: kernel_send_def split: list.split send_answer.split)

lemma upd2_upd2 [simp]: "upd2 cid f (upd2 cid g s) = upd2 cid (\<lambda>c. f (g c)) s"
  by (simp add: upd2_def)

lemma upd2_out [simp]:
  "upd2 cid f (s\<lparr>usernames2 := u\<rparr>) = (upd2 cid f s)\<lparr>usernames2 := u\<rparr>"
  "upd2 cid f (s\<lparr>broadcast_queue2 := q\<rparr>) = (upd2 cid f s)\<lparr>broadcast_queue2 := q\<rparr>"
  "upd2 cid f (s\<lparr>notify2 := n\<rparr>) = (upd2 cid f s)\<lparr>notify2 := n\<rparr>"
  "upd2 cid f (s\<lparr>tasks2 := ts\<rparr>) = (upd2 cid f s)\<lparr>tasks2 := ts\<rparr>"
  by (simp_all add: upd2_def)

lemma handle_line_set_in_buf: "handle_line cid l (set_in_buf cid b s) = set_in_buf cid b (handle_line cid l s)"
proof -
  have "snd (kernel_send d (c\<lparr>in_buf2 := b, username2 := n, state2 := t\<rparr>)) =
      (snd (kernel_send d (c\<lparr>username2 := n, state2 := t\<rparr>)))\<lparr>in_buf2 := b\<rparr>" for d c n t
  proof -
    have "c\<lparr>in_buf2 := b, username2 := n, state2 := t\<rparr> = c\<lparr>username2 := n, state2 := t, in_buf2 := b\<rparr>" by (cases c) simp
    then show ?thesis by (simp only: kernel_send_in_buf)
  qed
  then show ?thesis
    by (simp add: handle_line_def send_now_def notify_loop_def queue_broadcast_message2_def push_task2_def Let_def
      kernel_send_in_buf split: conn_state.split)
qed

definition handle_lines :: "nat \<Rightarrow> string list \<Rightarrow> web_server2 \<Rightarrow> web_server2" where
  "handle_lines cid ls = fold (\<lambda>l. handle_line cid (l @ [NL])) ls"

lemma handle_lines_set_in_buf: "handle_lines cid ls (set_in_buf cid b s) = set_in_buf cid b (handle_lines cid ls s)"
  unfolding handle_lines_def by (induction ls arbitrary: s) (simp_all add: handle_line_set_in_buf)

lemma read_lines_all:
  assumes "list_all (\<lambda>l. NL \<notin> set l) ls" "NL \<notin> set rest" "in_buf2 (heap2 s cid) = concat (map (\<lambda>l. l @ [NL]) ls) @ rest"
  shows "read_lines cid s = set_in_buf cid rest (handle_lines cid ls s)"
  using assms
proof (induction ls arbitrary: s)
  case Nil
  then have "read_lines cid s = s" by (subst read_lines.simps) (simp add: take_line_none[THEN iffD2])
  moreover have "set_in_buf cid rest s = s" using Nil.prems(3)
    by (simp add: upd2_def fun_upd_idem) 
  ultimately show ?case by (simp add: handle_lines_def)
next
  case (Cons l ls)
  have "take_line (in_buf2 (heap2 s cid)) = Some (l @ [NL], concat (map (\<lambda>l. l @ [NL]) ls) @ rest)"
    using Cons.prems(1,3) by (simp add: take_line_line)
  then show ?case using Cons.prems
    by (subst read_lines.simps)
      (simp add: Cons.IH handle_lines_set_in_buf handle_line_set_in_buf, simp add: handle_lines_def)
qed

text \<open>A prefix of lines followed by an unfinished one.\<close>

lemma lines_prefix:
  assumes "list_all (\<lambda>l. NL \<notin> set l) ls" "NL \<notin> set rest" "concat (map (\<lambda>l. l @ [NL]) ls) @ rest = xs @ ys"
  shows "\<exists>got todo part. ls = got @ todo \<and> xs = concat (map (\<lambda>l. l @ [NL]) got) @ part \<and> NL \<notin> set part \<and>
    part @ ys = concat (map (\<lambda>l. l @ [NL]) todo) @ rest"
proof -
  have "concat (map (\<lambda>l. l @ [NL]) (ls @ [rest])) = xs @ (ys @ [NL])" using assms(3) by simp
  from line2.prefix_encs[OF _ this] assms(1,2) obtain got todo part where
    d: "ls @ [rest] = got @ todo" "xs = concat (map (\<lambda>l. l @ [NL]) got) @ part" "split_line2 part = None"
      "part @ ys @ [NL] = concat (map (\<lambda>l. l @ [NL]) todo)" by auto
  have part: "NL \<notin> set part" using d(3) take_line_none by (simp add: split_line2_def)
  have "todo \<noteq> []" using d(4) by auto
  then obtain td where td: "todo = td @ [rest]" using d(1) by (metis append_is_Nil_conv last_appendR last_snoc append_butlast_last_id)
  have "part @ ys = concat (map (\<lambda>l. l @ [NL]) td) @ rest" using d(4) td by simp
  moreover have "ls = got @ td" using d(1) td by simp
  ultimately show ?thesis using d(2) part by blast
qed

lemma handle_read_all:
  assumes "list_all (\<lambda>l. NL \<notin> set l) ls" "NL \<notin> set rest" "NL \<notin> set (in_buf2 (heap2 s cid))"
    "in_buf2 (heap2 s cid) @ concat cs = concat (map (\<lambda>l. l @ [NL]) ls) @ rest"
  shows "handle_read2 cid (map Received cs) s = set_in_buf cid rest (handle_lines cid ls s)"
  using assms
proof (induction cs arbitrary: ls s)
  case Nil
  have "ls = []" using Nil by (cases ls) auto
  moreover have "set_in_buf cid rest s = s" using Nil \<open>ls = []\<close> by (simp add: upd2_def fun_upd_idem)
  ultimately show ?case by (simp add: handle_lines_def)
next
  case (Cons c cs)
  let ?b = "in_buf2 (heap2 s cid)" and ?s1 = "upd2 cid (\<lambda>k. k\<lparr>in_buf2 := in_buf2 k @ c\<rparr>) s"
  have s1: "?s1 = set_in_buf cid (?b @ c) s" by (simp add: upd2_def)
  have "concat (map (\<lambda>l. l @ [NL]) ls) @ rest = (?b @ c) @ concat cs" using Cons.prems(4) by simp
  then obtain got todo part where
    d: "ls = got @ todo" "?b @ c = concat (map (\<lambda>l. l @ [NL]) got) @ part" "NL \<notin> set part"
      "part @ concat cs = concat (map (\<lambda>l. l @ [NL]) todo) @ rest"
    using lines_prefix[OF Cons.prems(1,2)] by blast
  have ok: "list_all (\<lambda>l. NL \<notin> set l) got" "list_all (\<lambda>l. NL \<notin> set l) todo" using Cons.prems(1) d(1) by simp_all
  have "read_lines cid ?s1 = set_in_buf cid part (handle_lines cid got ?s1)"
    using ok(1) d(3) by (rule read_lines_all) (simp add: d(2))
  then have r: "read_lines cid ?s1 = set_in_buf cid part (handle_lines cid got s)"
    by (simp add: s1 handle_lines_set_in_buf)
  have "handle_read2 cid (map Received cs) (read_lines cid ?s1) = set_in_buf cid rest (handle_lines cid todo (read_lines cid ?s1))"
    using ok(2) Cons.prems(2) by (rule Cons.IH) (simp_all add: r d(3,4))
  then show ?case
    by (simp add: r handle_lines_set_in_buf) (simp add: d(1) handle_lines_def)
qed

section \<open>Output\<close>

text \<open>What a connection has been sent or is going to be, and when its registration is right.\<close>

definition stream2 :: "connection2 \<Rightarrow> string" where
  "stream2 c = wire2 c @ out_buf2 c"

definition connection_ok :: "connection2 \<Rightarrow> bool" where
  "connection_ok c \<longleftrightarrow>
     (state2 c = AWAITING_USERNAME \<longleftrightarrow> username2 c = '''') \<and>
     (state2 c = AWAITING_USERNAME \<longrightarrow> out_buf2 c = '''') \<and>
     (closed2 c \<longleftrightarrow> watched2 c = None) \<and>
     (\<not> closed2 c \<longrightarrow> out_buf2 c \<noteq> '''' \<longrightarrow> watched2 c = Some True)"

definition same_identity :: "connection2 \<Rightarrow> connection2 \<Rightarrow> bool" where
  "same_identity c c' \<longleftrightarrow> fd2 c' = fd2 c \<and> username2 c' = username2 c \<and> state2 c' = state2 c \<and> closed2 c' = closed2 c"

lemma same_identity_refl [simp]: "same_identity c c"
  by (simp add: same_identity_def)

lemma mod_fd_fields [simp]:
  "fd2 (mod_fd_epoll2 b c) = fd2 c" "username2 (mod_fd_epoll2 b c) = username2 c" "state2 (mod_fd_epoll2 b c) = state2 c"
  "closed2 (mod_fd_epoll2 b c) = closed2 c" "out_buf2 (mod_fd_epoll2 b c) = out_buf2 c" "wire2 (mod_fd_epoll2 b c) = wire2 c"
  "in_buf2 (mod_fd_epoll2 b c) = in_buf2 c"
  "watched2 (mod_fd_epoll2 b c) = (if watched2 c = None then None else Some b)"
  by (simp_all add: mod_fd_epoll2_def)

lemma kernel_send_cases:
  obtains "closed2 c" "kernel_send d c = (SendFailed, c)"
  | as where "\<not> closed2 c" "kernel_send d c = (TryAgain, c\<lparr>answers2 := as\<rparr>)"
  | as where "\<not> closed2 c" "kernel_send d c = (SendFailed, c\<lparr>answers2 := as\<rparr>)"
  | n as where "\<not> closed2 c" "n \<le> length d"
      "kernel_send d c = (Took n, c\<lparr>answers2 := as, wire2 := wire2 c @ take n d\<rparr>)"
proof (cases "closed2 c")
  case True
  then show ?thesis using that(1) by (simp add: kernel_send_def)
next
  case open2: False
  show ?thesis
  proof (cases "answers2 c")
    case Nil
    then have "kernel_send d c = (TryAgain, c\<lparr>answers2 := []\<rparr>)" using open2 by (simp add: kernel_send_def)
    then show ?thesis using that(2) open2 by blast
  next
    case (Cons a as)
    show ?thesis
    proof (cases a)
      case (Took n)
      then have "kernel_send d c = (Took (min n (length d)), c\<lparr>answers2 := as, wire2 := wire2 c @ take (min n (length d)) d\<rparr>)"
        using open2 Cons by (simp add: kernel_send_def min_def)
      then show ?thesis using that(4)[of "min n (length d)"] open2 by simp
    qed (use open2 Cons that(2,3) in \<open>simp_all add: kernel_send_def\<close>)
  qed
qed

text \<open>The write loop under any answers.\<close>

lemma write_out_spec:
  assumes "connection_ok c"
  shows "write_out c = (fatal, c') \<Longrightarrow>
    same_identity c c' \<and> connection_ok c' \<and> stream2 c' = stream2 c \<and> in_buf2 c' = in_buf2 c \<and>
    (\<not> fatal \<longrightarrow> \<not> closed2 c \<longrightarrow> watched2 c' = Some (out_buf2 c' \<noteq> ''''))"
  using assms
proof (induction c arbitrary: fatal c' rule: write_out.induct)
  case (1 c)
  show ?case
  proof (cases "out_buf2 c = ''''")
    case True
    then have "fatal = False" "c' = mod_fd_epoll2 False c" using "1.prems"(1) write_out.simps[of c] by simp_all
    then show ?thesis using "1.prems"(2) True by (auto simp: connection_ok_def same_identity_def stream2_def)
  next
    case False
    note step = "1.prems"(1)[unfolded write_out.simps[of c]]
    show ?thesis
    proof (cases rule: kernel_send_cases[of c "out_buf2 c"])
      case 1
      then show ?thesis using step False "1.prems"(2) by auto
    next
      case (2 as)
      then show ?thesis using step False "1.prems"(2)
        by (auto simp: connection_ok_def same_identity_def stream2_def)
    next
      case (3 as)
      then show ?thesis using step False "1.prems"(2)
        by (auto simp: connection_ok_def same_identity_def stream2_def)
    next
      case (4 n as)
      let ?c1 = "c\<lparr>answers2 := as, wire2 := wire2 c @ take n (out_buf2 c)\<rparr>"
      let ?c2 = "?c1\<lparr>out_buf2 := drop n (out_buf2 c)\<rparr>"
      show ?thesis
      proof (cases "n > 0")
        case True
        have out: "write_out ?c2 = (fatal, c')" using step False 4 True by simp
        have ok: "connection_ok ?c2" using "1.prems"(2) by (auto simp: connection_ok_def)
        have "out_buf2 ?c1 = out_buf2 c" by simp
        note IH = "1.IH"[OF False 4(3)[symmetric] refl True, unfolded this, OF out ok]
        from IH show ?thesis by (simp add: same_identity_def stream2_def)
      next
        case False': False
        then show ?thesis using step False 4 "1.prems"(2)
          by (auto simp: connection_ok_def same_identity_def stream2_def)
      qed
    qed
  qed
qed

text \<open>A broadcast on one connection.\<close>

lemma broadcast_to_spec:
  assumes "connection_ok c"
  shows "same_identity c (broadcast_to msgs c) \<and> connection_ok (broadcast_to msgs c) \<and>
    in_buf2 (broadcast_to msgs c) = in_buf2 c \<and>
    stream2 (broadcast_to msgs c) = stream2 c @ (if \<not> closed2 c \<and> state2 c = ACTIVE then buffer_for msgs c else '''')"
  using assms by (auto simp: broadcast_to_def Let_def connection_ok_def same_identity_def stream2_def)

section \<open>The invariant of the server\<close>

definition is_active :: "web_server2 \<Rightarrow> nat \<Rightarrow> bool" where
  "is_active s cid \<longleftrightarrow> cid < next2 s \<and> \<not> closed2 (heap2 s cid) \<and> state2 (heap2 s cid) = ACTIVE"

definition server2_wf :: "web_server2 \<Rightarrow> bool" where
  "server2_wf s \<longleftrightarrow>
     (\<forall>cid<next2 s. connection_ok (heap2 s cid)) \<and>
     distinct (map fst (connections2 s)) \<and>
     (\<forall>fd cid. map_of (connections2 s) fd = Some cid \<longleftrightarrow> cid < next2 s \<and> \<not> closed2 (heap2 s cid) \<and> fd2 (heap2 s cid) = fd) \<and>
     distinct (usernames2 s) \<and>
     (\<forall>n. n \<in> set (usernames2 s) \<longleftrightarrow> (\<exists>cid. is_active s cid \<and> username2 (heap2 s cid) = n)) \<and>
     (\<forall>a b. is_active s a \<longrightarrow> is_active s b \<longrightarrow> username2 (heap2 s a) = username2 (heap2 s b) \<longrightarrow> a = b)"

lemma server2_wfD:
  assumes "server2_wf s"
  shows "cid < next2 s \<Longrightarrow> connection_ok (heap2 s cid)"
    and "distinct (map fst (connections2 s))"
    and "map_of (connections2 s) fd = Some cid \<longleftrightarrow> cid < next2 s \<and> \<not> closed2 (heap2 s cid) \<and> fd2 (heap2 s cid) = fd"
    and "distinct (usernames2 s)"
    and "n \<in> set (usernames2 s) \<longleftrightarrow> (\<exists>cid. is_active s cid \<and> username2 (heap2 s cid) = n)"
    and "is_active s a \<Longrightarrow> is_active s b \<Longrightarrow> username2 (heap2 s a) = username2 (heap2 s b) \<Longrightarrow> a = b"
  using assms unfolding server2_wf_def by blast+

lemma active_named: "server2_wf s \<Longrightarrow> is_active s a \<Longrightarrow> username2 (heap2 s a) \<noteq> ''''"
  using server2_wfD(1)[of s a] by (auto simp: is_active_def connection_ok_def)

text \<open>Only the heap, the map and the names matter.\<close>

lemma server2_wf_cong:
  "heap2 s' = heap2 s \<Longrightarrow> next2 s' = next2 s \<Longrightarrow> connections2 s' = connections2 s \<Longrightarrow> usernames2 s' = usernames2 s \<Longrightarrow>
   server2_wf s' = server2_wf s"
  by (simp add: server2_wf_def is_active_def)

text \<open>A change of one connection that keeps its identity.\<close>

lemma is_active_upd2: "same_identity (heap2 s cid) (f (heap2 s cid)) \<Longrightarrow> is_active (upd2 cid f s) a = is_active s a"
  by (auto simp: is_active_def same_identity_def)

lemma server2_wf_upd2:
  assumes wf: "server2_wf s" and id: "same_identity (heap2 s cid) (f (heap2 s cid))"
    and ok: "cid < next2 s \<Longrightarrow> connection_ok (f (heap2 s cid))"
  shows "server2_wf (upd2 cid f s)"
proof -
  have fields: "fd2 (heap2 (upd2 cid f s) a) = fd2 (heap2 s a)" "username2 (heap2 (upd2 cid f s) a) = username2 (heap2 s a)"
    "closed2 (heap2 (upd2 cid f s) a) = closed2 (heap2 s a)" for a using id by (auto simp: same_identity_def)
  have "connection_ok (heap2 (upd2 cid f s) a)" if "a < next2 s" for a using that ok server2_wfD(1)[OF wf] by auto
  then show ?thesis
    using wf unfolding server2_wf_def is_active_upd2[where f = f, OF id] fields by simp
qed

lemma kernel_send_ok: "connection_ok c \<Longrightarrow> connection_ok (snd (kernel_send d c))"
  by (simp add: connection_ok_def)

lemma send_now_wf: "server2_wf s \<Longrightarrow> server2_wf (send_now cid msg s)"
  unfolding send_now_def
  by (rule server2_wf_upd2) (auto simp: same_identity_def kernel_send_ok server2_wfD(1))

text \<open>A new connection.\<close>

lemma accept_one2_wf:
  assumes wf: "server2_wf s" and fresh: "map_of (connections2 s) fd = None"
  shows "server2_wf (accept_one2 fd as s)"
proof -
  let ?n = "next2 s" and ?c = "add_fd_to_epoll2 False (new_connection2 fd as)"
  let ?s = "s\<lparr>next2 := ?n + 1, connections2 := AList.update fd ?n (connections2 s), heap2 := (heap2 s)(?n := ?c)\<rparr>"
  have c: "connection_ok ?c" "fd2 ?c = fd" "\<not> closed2 ?c" "state2 ?c = AWAITING_USERNAME"
    by (simp_all add: connection_ok_def add_fd_to_epoll2_def new_connection2_def)
  have old: "is_active ?s a = is_active s a" for a using c(4) by (auto simp: is_active_def less_Suc_eq)
  have name: "is_active s a \<Longrightarrow> username2 (heap2 ?s a) = username2 (heap2 s a)" for a by (auto simp: is_active_def)
  have "map_of (connections2 ?s) fd' = Some cid \<longleftrightarrow> cid < next2 ?s \<and> \<not> closed2 (heap2 ?s cid) \<and> fd2 (heap2 ?s cid) = fd'" for fd' cid
    using server2_wfD(3)[OF wf, of fd' cid] server2_wfD(3)[OF wf, of fd cid] fresh c
    by (auto simp: update_conv' less_Suc_eq)
  moreover have "connection_ok (heap2 ?s cid)" if "cid < next2 ?s" for cid
    using that server2_wfD(1)[OF wf] c(1) by (auto simp: less_Suc_eq)
  moreover have "n \<in> set (usernames2 ?s) \<longleftrightarrow> (\<exists>cid. is_active ?s cid \<and> username2 (heap2 ?s cid) = n)" for n
  proof -
    have "usernames2 ?s = usernames2 s" by simp
    then show ?thesis unfolding old using server2_wfD(5)[OF wf, of n] name by metis
  qed
  moreover have "is_active ?s a \<Longrightarrow> is_active ?s b \<Longrightarrow> username2 (heap2 ?s a) = username2 (heap2 ?s b) \<Longrightarrow> a = b" for a b
    unfolding old using server2_wfD(6)[OF wf] name by metis
  moreover have "distinct (map fst (connections2 ?s))" using server2_wfD(2)[OF wf] by (simp add: distinct_update)
  ultimately have "server2_wf ?s" using server2_wfD(4)[OF wf] unfolding server2_wf_def by simp
  moreover have "accept_one2 fd as s = send_now ?n ''[Server]: Welcome! Please enter your username: '' ?s"
    by (simp add: accept_one2_def Let_def upd2_def)
  ultimately show ?thesis using send_now_wf by simp
qed

lemma ex_updated: "\<not> P x \<Longrightarrow> (\<exists>a. (a = x \<or> P a) \<and> (if a = x then y else f a) = n) \<longleftrightarrow> y = n \<or> (\<exists>a. P a \<and> f a = n)"
  by (rule iffI) (force split: if_splits)+

text \<open>A login takes a name nobody has.\<close>

lemma login2_wf:
  assumes wf: "server2_wf s" and cid: "cid < next2 s" "\<not> closed2 (heap2 s cid)" "state2 (heap2 s cid) = AWAITING_USERNAME"
    and name: "nm \<notin> set (usernames2 s)" "nm \<noteq> ''''"
  shows "server2_wf (upd2 cid (\<lambda>c. c\<lparr>username2 := nm, state2 := ACTIVE\<rparr>) (s\<lparr>usernames2 := nm # usernames2 s\<rparr>))"
    (is "server2_wf ?s")
proof -
  have act: "is_active ?s a \<longleftrightarrow> a = cid \<or> is_active s a" for a using cid by (auto simp: is_active_def)
  have names: "username2 (heap2 ?s a) = (if a = cid then nm else username2 (heap2 s a))" for a by simp
  have other: "is_active s a \<Longrightarrow> username2 (heap2 s a) \<noteq> nm" for a using server2_wfD(5)[OF wf, of nm] name(1) by blast
  have "connection_ok (heap2 ?s a)" if "a < next2 s" for a
    using server2_wfD(1)[OF wf that] cid name(2) by (auto simp: connection_ok_def)
  moreover have "closed2 (heap2 ?s a) = closed2 (heap2 s a)" "fd2 (heap2 ?s a) = fd2 (heap2 s a)" for a by simp_all
  moreover have "n \<in> set (usernames2 ?s) \<longleftrightarrow> (\<exists>a. is_active ?s a \<and> username2 (heap2 ?s a) = n)" for n
  proof -
    have "\<not> is_active s cid" "usernames2 ?s = nm # usernames2 s" using cid by (simp_all add: is_active_def)
    then have "n \<in> set (usernames2 ?s) \<longleftrightarrow> nm = n \<or> (\<exists>a. is_active s a \<and> username2 (heap2 s a) = n)"
      unfolding server2_wfD(5)[OF wf, of n, symmetric] by (simp add: eq_commute)
    then show ?thesis
      unfolding act names ex_updated[where P = "is_active s", OF \<open>\<not> is_active s cid\<close>] .
  qed
  moreover have "is_active ?s a \<Longrightarrow> is_active ?s b \<Longrightarrow> username2 (heap2 ?s a) = username2 (heap2 ?s b) \<Longrightarrow> a = b" for a b
    unfolding act names using server2_wfD(6)[OF wf, of a b] other[of a] other[of b] by metis
  moreover have "distinct (usernames2 ?s)" using server2_wfD(4)[OF wf] name(1) by simp
  ultimately show ?thesis using server2_wfD(2,3)[OF wf] unfolding server2_wf_def by simp
qed

lemma handle_line_wf:
  assumes wf: "server2_wf s" and cid: "cid < next2 s" "\<not> closed2 (heap2 s cid)"
  shows "server2_wf (handle_line cid line s)"
proof (cases "state2 (heap2 s cid)")
  case AWAITING_USERNAME
  let ?nm = "take (length line - 1) line"
  show ?thesis
  proof (cases "?nm \<notin> set (usernames2 s) \<and> ?nm \<noteq> ''''")
    case True
    have "server2_wf (send_now cid m (upd2 cid (\<lambda>c. c\<lparr>username2 := ?nm, state2 := ACTIVE\<rparr>) (s\<lparr>usernames2 := ?nm # usernames2 s\<rparr>)))" for m
      using login2_wf[OF wf cid AWAITING_USERNAME] True by (intro send_now_wf) blast
    then show ?thesis using True AWAITING_USERNAME
      by (simp add: handle_line_def Let_def notify_loop_def queue_broadcast_message2_def server2_wf_cong[of _ s] cong: server2_wf_cong)
  next
    case False
    then show ?thesis using AWAITING_USERNAME send_now_wf[OF wf] by (auto simp: handle_line_def Let_def)
  qed
next
  case ACTIVE
  then show ?thesis using wf server2_wf_cong[of "push_task2 cid (line @ [NL]) s" s] by (simp add: handle_line_def push_task2_def)
qed

text \<open>Closing frees the name and the descriptor.\<close>

lemma close_conn2_wf:
  assumes wf: "server2_wf s" and cid: "cid < next2 s"
  shows "server2_wf (close_conn2 cid s)"
proof (cases "closed2 (heap2 s cid)")
  case True
  then show ?thesis using wf by (simp add: close_conn2_def)
next
  case False
  let ?c = "heap2 s cid"
  let ?s = "s\<lparr>heap2 := (heap2 s)(cid := ?c\<lparr>closed2 := True, watched2 := None\<rparr>),
    connections2 := AList.delete (fd2 ?c) (connections2 s), usernames2 := removeAll (username2 ?c) (usernames2 s)\<rparr>"
  have fields: "heap2 (close_conn2 cid s) = heap2 ?s" "next2 (close_conn2 cid s) = next2 ?s"
    "connections2 (close_conn2 cid s) = connections2 ?s"
    using False by (simp_all add: close_conn2_def Let_def notify_loop_def queue_broadcast_message2_def)
  have "'''' \<notin> set (usernames2 s)"
    using server2_wfD(5)[OF wf, of "''''"] active_named[OF wf] by blast
  then have names: "usernames2 (close_conn2 cid s) = usernames2 ?s"
    using False by (auto simp: close_conn2_def Let_def notify_loop_def queue_broadcast_message2_def)
  have act: "is_active ?s a \<longleftrightarrow> a \<noteq> cid \<and> is_active s a" for a by (auto simp: is_active_def)
  have empty: "username2 ?c = '''' \<or> is_active s cid"
    using server2_wfD(1)[OF wf cid] False cid by (cases "state2 ?c") (auto simp: connection_ok_def is_active_def)
  have "map_of (connections2 ?s) fd = Some a \<longleftrightarrow> a < next2 ?s \<and> \<not> closed2 (heap2 ?s a) \<and> fd2 (heap2 ?s a) = fd" for fd a
    using server2_wfD(3)[OF wf, of fd a] server2_wfD(3)[OF wf, of "fd2 ?c" cid] server2_wfD(3)[OF wf, of "fd2 ?c" a] False cid
    by (auto simp: delete_conv')
  moreover have "connection_ok (heap2 ?s a)" if "a < next2 s" for a
    using server2_wfD(1)[OF wf that] by (auto simp: connection_ok_def)
  moreover have "n \<in> set (usernames2 ?s) \<longleftrightarrow> (\<exists>a. is_active ?s a \<and> username2 (heap2 ?s a) = n)" for n
    unfolding act using server2_wfD(5)[OF wf, of n] server2_wfD(6)[OF wf, of _ cid] empty \<open>'''' \<notin> set (usernames2 s)\<close>
    by auto metis+
  moreover have "is_active ?s a \<Longrightarrow> is_active ?s b \<Longrightarrow> username2 (heap2 ?s a) = username2 (heap2 ?s b) \<Longrightarrow> a = b" for a b
    unfolding act using server2_wfD(6)[OF wf, of a b] by simp
  moreover have "distinct (map fst (connections2 ?s))" using server2_wfD(2)[OF wf] by (simp add: distinct_delete)
  moreover have "distinct (usernames2 ?s)" using server2_wfD(4)[OF wf] by (simp add: distinct_removeAll)
  ultimately have "server2_wf ?s" unfolding server2_wf_def by simp
  then show ?thesis by (rule iffD2[OF server2_wf_cong, rotated 4]) (use fields names in simp_all)
qed

lemma handle_write2_wf:
  assumes wf: "server2_wf s" and cid: "cid < next2 s"
  shows "server2_wf (handle_write2 cid s)"
proof -
  obtain fatal c where w: "write_out (heap2 s cid) = (fatal, c)" by force
  note spec = write_out_spec[OF server2_wfD(1)[OF wf cid] w]
  have "server2_wf (upd2 cid (\<lambda>_. c) s)" using spec by (intro server2_wf_upd2[OF wf]) simp_all
  then show ?thesis using w cid close_conn2_wf[of "upd2 cid (\<lambda>_. c) s" cid] by (simp add: handle_write2_def Let_def)
qed

lemma broadcast_fold:
  assumes "server2_wf s" "distinct cids"
  shows "server2_wf (fold (\<lambda>cid. upd2 cid (broadcast_to msgs)) cids s) \<and>
    heap2 (fold (\<lambda>cid. upd2 cid (broadcast_to msgs)) cids s) =
      (\<lambda>cid. if cid \<in> set cids then broadcast_to msgs (heap2 s cid) else heap2 s cid)"
  using assms
proof (induction cids arbitrary: s)
  case (Cons a cids)
  have "server2_wf (upd2 a (broadcast_to msgs) s)"
    using broadcast_to_spec[of "heap2 s a" msgs] server2_wfD(1)[OF Cons.prems(1)]
    by (intro server2_wf_upd2[OF Cons.prems(1)])
      (auto simp: same_identity_def broadcast_to_def Let_def)
  from Cons.IH[OF this] Cons.prems(2) show ?case by (auto simp: fun_eq_iff)
qed simp

lemma distinct_values:
  assumes "server2_wf s"
  shows "distinct (map snd (connections2 s))"
proof -
  have "inj_on snd (set (connections2 s))"
  proof (rule inj_onI)
    fix x y assume "x \<in> set (connections2 s)" "y \<in> set (connections2 s)" "snd x = snd y"
    then show "x = y"
      using server2_wfD(3)[OF assms, of "fst x" "snd x"] server2_wfD(3)[OF assms, of "fst y" "snd y"]
        map_of_is_SomeI[OF server2_wfD(2)[OF assms]] by (metis prod.collapse)
  qed
  moreover have "distinct (connections2 s)" using server2_wfD(2)[OF assms] by (simp add: distinct_map)
  ultimately show ?thesis by (simp add: distinct_map)
qed

end
