(* ===== verification/ServerV2Threads.thy ===== *)
theory ServerV2Threads
  imports ServerV2Props
begin

text \<open>
  The threads of the server of version 2 together: the reactor (\<open>run\<close> in
  \<open>v2/webserver.cpp\<close>), in steps of one descriptor, one chunk or one line, and the workers
  (\<open>worker_loop\<close> in \<open>v2/threadpool.cpp\<close>), which take a task, look at its connection, queue the
  message and notify the reactor in four steps, since no lock spans them.
\<close>

section \<open>States and steps\<close>

text \<open>A reactor that reads holds the answers of \<open>recv\<close> to come and whether it has to write next.\<close>

datatype reactor2 = Polling2 | Reading2 nat "recv_answer list" bool | Stopping2 | Stopped2

datatype crew_member = Free | Took2 nat string | Says string int | Notifies | Gone

record room =
  srv :: web_server2
  reactor2 :: reactor2
  crew :: "crew_member list"

definition room_init :: "room \<Rightarrow> bool" where
  "room_init s \<longleftrightarrow> (\<exists>e sv n. new_server2 e = Some sv \<and> s = \<lparr>srv = sv, reactor2 = Polling2, crew = replicate n Free\<rparr>)"

definition then_write :: "bool \<Rightarrow> nat \<Rightarrow> web_server2 \<Rightarrow> web_server2" where
  "then_write out cid sv = (if out then handle_write2 cid sv else sv)"

text \<open>The kernel hands out descriptors that are not open.\<close>

inductive room_step :: "room \<Rightarrow> room \<Rightarrow> bool" where
  accepts: "reactor2 s = Polling2 \<Longrightarrow> 0 \<le> fd \<Longrightarrow> map_of (connections2 (srv s)) fd = None \<Longrightarrow>
     room_step s (s\<lparr>srv := accept_one2 fd as (srv s)\<rparr>)"
| hangup: "reactor2 s = Polling2 \<Longrightarrow> map_of (connections2 (srv s)) fd = Some cid \<Longrightarrow>
     room_step s (s\<lparr>srv := close_conn2 cid (srv s)\<rparr>)"
| readable: "reactor2 s = Polling2 \<Longrightarrow> map_of (connections2 (srv s)) fd = Some cid \<Longrightarrow>
     room_step s (s\<lparr>reactor2 := Reading2 cid rs out\<rparr>)"
| writable: "reactor2 s = Polling2 \<Longrightarrow> map_of (connections2 (srv s)) fd = Some cid \<Longrightarrow>
     room_step s (s\<lparr>srv := handle_write2 cid (srv s)\<rparr>)"
| chunk: "reactor2 s = Reading2 cid (Received bs # rs) out \<Longrightarrow> take_line (in_buf2 (heap2 (srv s) cid)) = None \<Longrightarrow>
     room_step s (s\<lparr>srv := upd2 cid (\<lambda>c. c\<lparr>in_buf2 := in_buf2 c @ bs\<rparr>) (srv s), reactor2 := Reading2 cid rs out\<rparr>)"
| line: "reactor2 s = Reading2 cid rs out \<Longrightarrow> take_line (in_buf2 (heap2 (srv s) cid)) = Some (l, rest) \<Longrightarrow>
     room_step s (s\<lparr>srv := handle_line cid l (upd2 cid (\<lambda>c. c\<lparr>in_buf2 := rest\<rparr>) (srv s))\<rparr>)"
| read_ends: "reactor2 s = Reading2 cid [] out \<Longrightarrow> take_line (in_buf2 (heap2 (srv s) cid)) = None \<Longrightarrow>
     room_step s (s\<lparr>srv := then_write out cid (srv s), reactor2 := Polling2\<rparr>)"
| read_closes: "reactor2 s = Reading2 cid (r # rs) out \<Longrightarrow> r \<in> {RecvEof, RecvFailed} \<Longrightarrow>
     take_line (in_buf2 (heap2 (srv s) cid)) = None \<Longrightarrow>
     room_step s (s\<lparr>srv := then_write out cid (close_conn2 cid (srv s)), reactor2 := Polling2\<rparr>)"
| notified: "reactor2 s = Polling2 \<Longrightarrow> 0 < notify2 (srv s) \<Longrightarrow>
     room_step s (s\<lparr>srv := handle_broadcasts2 (drain_notify (srv s))\<rparr>)"
| signal: "reactor2 s = Polling2 \<Longrightarrow>
     room_step s (s\<lparr>srv := (srv s)\<lparr>running2 := False, pool_running2 := False\<rparr>, reactor2 := Stopping2\<rparr>)"
| stops: "reactor2 s = Stopping2 \<Longrightarrow> set (crew s) \<subseteq> {Gone} \<Longrightarrow>
     room_step s (s\<lparr>srv := stop2 (srv s), reactor2 := Stopped2\<rparr>)"
| takes: "i < length (crew s) \<Longrightarrow> crew s ! i = Free \<Longrightarrow> pool_running2 (srv s) \<Longrightarrow> tasks2 (srv s) = (cid, m) # ts \<Longrightarrow>
     room_step s (s\<lparr>srv := (srv s)\<lparr>tasks2 := ts\<rparr>, crew := (crew s)[i := Took2 cid m]\<rparr>)"
| looks: "i < length (crew s) \<Longrightarrow> crew s ! i = Took2 cid m \<Longrightarrow>
     room_step s (s\<lparr>crew := (crew s)[i := (case format_task cid m (srv s) of None \<Rightarrow> Free | Some (b, fd) \<Rightarrow> Says b fd)]\<rparr>)"
| says: "i < length (crew s) \<Longrightarrow> crew s ! i = Says b fd \<Longrightarrow>
     room_step s (s\<lparr>srv := queue_broadcast_message2 b fd (srv s), crew := (crew s)[i := Notifies]\<rparr>)"
| notifies: "i < length (crew s) \<Longrightarrow> crew s ! i = Notifies \<Longrightarrow>
     room_step s (s\<lparr>srv := notify_loop (srv s), crew := (crew s)[i := Free]\<rparr>)"
| leaves: "i < length (crew s) \<Longrightarrow> crew s ! i = Free \<Longrightarrow> \<not> pool_running2 (srv s) \<Longrightarrow>
     room_step s (s\<lparr>crew := (crew s)[i := Gone]\<rparr>)"

inductive_cases room_stepE: "room_step s s'"

section \<open>Invariant\<close>

text \<open>Whatever is queued for broadcasting, the reactor has been or is about to be told.\<close>

definition room_wf :: "room \<Rightarrow> bool" where
  "room_wf s \<longleftrightarrow> reactor2 s = Stopped2 \<or>
     (server2_wf (srv s) \<and>
      (\<forall>cid rs out. reactor2 s = Reading2 cid rs out \<longrightarrow> cid < next2 (srv s) \<and> \<not> closed2 (heap2 (srv s) cid)) \<and>
      (broadcast_queue2 (srv s) \<noteq> [] \<longrightarrow> 0 < notify2 (srv s) \<or> Notifies \<in> set (crew s)))"

text \<open>What the reactor does to the queue: it adds to it only together with a notification.\<close>

definition rings :: "web_server2 \<Rightarrow> web_server2 \<Rightarrow> bool" where
  "rings s s' \<longleftrightarrow> (broadcast_queue2 s' = broadcast_queue2 s \<and> notify2 s' = notify2 s) \<or> 0 < notify2 s'"

lemma rings_trans: "rings s s' \<Longrightarrow> rings s' s'' \<Longrightarrow> rings s s''"
  by (auto simp: rings_def)

lemma rings_ops [intro]:
  "rings s (upd2 cid f s)" "rings s (send_now cid m s)" "rings s (close_conn2 cid s)" "rings s (accept_one2 fd as s)"
  "rings s (handle_line cid l s)"
  by (simp_all add: rings_def send_now_def close_conn2_def accept_one2_def handle_line_def Let_def notify_loop_def
      queue_broadcast_message2_def push_task2_def split: conn_state.split)

lemma rings_write: "rings s (handle_write2 cid s)"
proof -
  obtain fatal c where "write_out (heap2 s cid) = (fatal, c)" by force
  then show ?thesis using rings_trans[of s "upd2 cid (\<lambda>_. c) s"] rings_ops by (simp add: handle_write2_def Let_def)
qed

lemma rings_then_write: "rings s s' \<Longrightarrow> rings s (then_write out cid s')"
  using rings_write rings_trans by (auto simp: then_write_def)

text \<open>A step of the reactor that keeps the server's invariant.\<close>

lemma reactor_step_wf:
  assumes "room_wf s" "reactor2 s \<noteq> Stopped2" "server2_wf sv" "rings (srv s) sv"
    "\<forall>cid rs out. r = Reading2 cid rs out \<longrightarrow> cid < next2 sv \<and> \<not> closed2 (heap2 sv cid)"
  shows "room_wf (s\<lparr>srv := sv, reactor2 := r\<rparr>)"
  using assms by (auto simp: room_wf_def rings_def)

lemma in_buf_wf: "server2_wf s \<Longrightarrow> server2_wf (upd2 cid (\<lambda>c. c\<lparr>in_buf2 := g c\<rparr>) s)"
  by (rule server2_wf_upd2) (auto simp: same_identity_def connection_ok_def dest!: server2_wfD(1)[of s cid])

lemma handle_line_open [simp]:
  "next2 (handle_line cid l s) = next2 s" "closed2 (heap2 (handle_line cid l s) a) = closed2 (heap2 s a)"
  by (simp_all add: handle_line_def send_now_def Let_def notify_loop_def queue_broadcast_message2_def push_task2_def
      split: conn_state.split)

lemma close_conn2_next [simp]: "next2 (close_conn2 cid s) = next2 s"
  by (simp add: close_conn2_def Let_def notify_loop_def queue_broadcast_message2_def)

lemma then_write_wf: "server2_wf s \<Longrightarrow> cid < next2 s \<Longrightarrow> server2_wf (then_write out cid s)"
  by (simp add: then_write_def handle_write2_wf)

lemma handle_broadcasts2_wf:
  assumes wf: "server2_wf s"
  shows "server2_wf (handle_broadcasts2 s)" "broadcast_queue2 (handle_broadcasts2 s) = []"
proof -
  let ?s1 = "s\<lparr>broadcast_queue2 := []\<rparr>"
  have wf1: "server2_wf ?s1" using wf server2_wf_cong[of ?s1 s] by simp
  have d: "distinct (map snd (connections2 s))"
    by (rule distinct_values[OF wf])
  have "broadcast_queue2 (fold (\<lambda>cid. upd2 cid f) cids t) = broadcast_queue2 t" for f cids t
    by (induction cids arbitrary: t) simp_all
  then show "server2_wf (handle_broadcasts2 s)" "broadcast_queue2 (handle_broadcasts2 s) = []"
    using broadcast_fold[OF wf1, of "map snd (connections2 s)"] d wf1 by (simp_all add: handle_broadcasts2_def Let_def)
qed

lemma known_conn:
  "room_wf s \<Longrightarrow> reactor2 s \<noteq> Stopped2 \<Longrightarrow> map_of (connections2 (srv s)) fd = Some cid \<Longrightarrow>
   cid < next2 (srv s) \<and> \<not> closed2 (heap2 (srv s) cid)"
  using server2_wfD(3)[of "srv s" fd cid] by (simp add: room_wf_def)

lemma room_wfD:
  assumes "room_wf s" "reactor2 s \<noteq> Stopped2"
  shows "server2_wf (srv s)"
    and "reactor2 s = Reading2 cid rs out \<Longrightarrow> cid < next2 (srv s) \<and> \<not> closed2 (heap2 (srv s) cid)"
    and "broadcast_queue2 (srv s) \<noteq> [] \<Longrightarrow> 0 < notify2 (srv s) \<or> Notifies \<in> set (crew s)"
  using assms unfolding room_wf_def by blast+

lemma room_step_server:
  assumes "room_step s s'" "room_wf s" "reactor2 s \<noteq> Stopped2"
  shows "reactor2 s' = Stopped2 \<or> server2_wf (srv s')"
proof -
  note wf = room_wfD(1)[OF assms(2,3)] and known = known_conn[OF assms(2,3)] and rd = room_wfD(2)[OF assms(2,3)]
  have same: "server2_wf sv" if "heap2 sv = heap2 (srv s)" "next2 sv = next2 (srv s)" "connections2 sv = connections2 (srv s)"
    "usernames2 sv = usernames2 (srv s)" for sv
    using wf server2_wf_cong[OF that] by simp
  show ?thesis using assms(1)
  proof cases
    case (accepts fd as) then show ?thesis using accept_one2_wf[OF wf] by simp
  next
    case (hangup fd cid) then show ?thesis using close_conn2_wf[OF wf] known by simp
  next
    case (writable fd cid) then show ?thesis using handle_write2_wf[OF wf] known by simp
  next
    case (chunk cid bs rs out) then show ?thesis using in_buf_wf[OF wf] by simp
  next
    case (line cid rs out l rest)
    then show ?thesis using rd[OF line(2)] in_buf_wf[OF wf, of cid "\<lambda>_. rest"] by (auto intro: handle_line_wf)
  next
    case (read_ends cid out) then show ?thesis using then_write_wf[OF wf] rd by simp
  next
    case (read_closes cid r rs out)
    then show ?thesis using then_write_wf[OF close_conn2_wf[OF wf]] rd by simp
  next
    case notified
    have "server2_wf (drain_notify (srv s))" by (rule same) (simp_all add: drain_notify_def)
    then show ?thesis using notified handle_broadcasts2_wf(1) by simp
  next
    case signal
    have "server2_wf ((srv s)\<lparr>running2 := False, pool_running2 := False\<rparr>)" by (rule same) simp_all
    then show ?thesis using signal by simp
  next
    case (takes i cid m ts)
    have "server2_wf ((srv s)\<lparr>tasks2 := ts\<rparr>)" by (rule same) simp_all
    then show ?thesis using takes by simp
  next
    case (says i b fd)
    have "server2_wf (queue_broadcast_message2 b fd (srv s))" by (rule same) (simp_all add: queue_broadcast_message2_def)
    then show ?thesis using says by simp
  next
    case (notifies i)
    have "server2_wf (notify_loop (srv s))" by (rule same) (simp_all add: notify_loop_def)
    then show ?thesis using notifies by simp
  qed (use wf in simp_all)
qed

lemma room_step_reading:
  assumes "room_step s s'" "room_wf s" "reactor2 s \<noteq> Stopped2" "reactor2 s' = Reading2 cid rs out"
  shows "cid < next2 (srv s') \<and> \<not> closed2 (heap2 (srv s') cid)"
  using assms(1,4) room_wfD(2)[OF assms(2,3)] known_conn[OF assms(2,3)]
  by cases (auto simp: queue_broadcast_message2_def notify_loop_def)

lemma room_step_signalled:
  assumes "room_step s s'" "room_wf s" "reactor2 s \<noteq> Stopped2" "broadcast_queue2 (srv s') \<noteq> []"
  shows "reactor2 s' = Stopped2 \<or> 0 < notify2 (srv s') \<or> Notifies \<in> set (crew s')"
proof -
  note sig = room_wfD(3)[OF assms(2,3)]
  have ring: "0 < notify2 sv \<or> Notifies \<in> set (crew s)" if "rings (srv s) sv" "broadcast_queue2 sv \<noteq> []" for sv
    using sig that by (auto simp: rings_def)
  have keep: "Notifies \<in> set ((crew s)[i := w])" if "Notifies \<in> set (crew s)" "crew s ! i \<noteq> Notifies" for i w
    using that by (metis in_set_conv_nth length_list_update nth_list_update_neq)
  show ?thesis using assms(1,4)
  proof cases
    case (accepts fd as) then show ?thesis using ring[OF rings_ops(4)] assms(4) by simp
  next
    case (hangup fd cid) then show ?thesis using ring[OF rings_ops(3)] assms(4) by simp
  next
    case (writable fd cid) then show ?thesis using ring[OF rings_write] assms(4) by simp
  next
    case (line cid rs out l rest)
    then show ?thesis using ring[OF rings_trans[OF rings_ops(1) rings_ops(5)]] assms(4) by simp
  next
    case (read_ends cid out)
    then show ?thesis using ring[OF rings_then_write[of "srv s" "srv s"]] assms(4) by (simp add: rings_def)
  next
    case (read_closes cid r rs out) then show ?thesis using ring[OF rings_then_write[OF rings_ops(3)]] assms(4) by simp
  next
    case notified
    have "server2_wf (drain_notify (srv s))"
      using room_wfD(1)[OF assms(2,3)] server2_wf_cong[of "drain_notify (srv s)" "srv s"] by (simp add: drain_notify_def)
    then show ?thesis using notified handle_broadcasts2_wf(2) assms(4) by simp
  next
    case (takes i cid m ts) then show ?thesis using sig keep[of i] assms(4) by auto
  next
    case (looks i cid m) then show ?thesis using sig keep[of i] assms(4) by auto
  next
    case (says i b fd) then show ?thesis by (simp add: set_update_memI)
  next
    case (notifies i) then show ?thesis by (simp add: notify_loop_def)
  next
    case (leaves i) then show ?thesis using sig keep[of i] assms(4) by auto
  qed (use sig in simp_all)
qed

lemma room_step_wf: "room_wf s \<Longrightarrow> room_step s s' \<Longrightarrow> room_wf s'"
proof (cases "reactor2 s = Stopped2")
  case True
  assume "room_step s s'"
  then have "reactor2 s' = Stopped2" using True by cases simp_all
  then show ?thesis by (simp add: room_wf_def)
next
  case False
  assume "room_wf s" "room_step s s'"
  then show ?thesis
    using room_step_server[OF _ _ False] room_step_reading[OF _ _ False] room_step_signalled[OF _ _ False]
    unfolding room_wf_def[of s'] by blast
qed

lemma new_server2_fields:
  assumes "new_server2 e = Some sv"
  shows "next2 sv = 0" "connections2 sv = []" "usernames2 sv = []" "broadcast_queue2 sv = []" "tasks2 sv = []"
    "pool_running2 sv" "running2 sv" "server_fds2 sv = [listen_fd2 sv, sig_fd2 sv, notify_fd2 sv]"
  using assms
  by (auto simp: new_server2_def setup_signalfd2_def setup_server_socket2_def setup_epoll2_def setup_eventfd2_def
      blank_server2_def watch2_def Let_def split: if_splits bind_splits)

interpretation room_inv: inductive_invariant room_init room_step room_wf
proof
  fix s assume "room_init s"
  then obtain e sv n where s: "new_server2 e = Some sv" "s = \<lparr>srv = sv, reactor2 = Polling2, crew = replicate n Free\<rparr>"
    by (auto simp: room_init_def)
  then show "room_wf s" using new_server2_fields[OF s(1)] by (simp add: room_wf_def server2_wf_def is_active_def)
qed (rule room_step_wf)

section \<open>A sample\<close>

text \<open>Two connections, of al and bo; the kernel takes what is sent.\<close>

definition sample_setup2 :: setup2 where
  "sample_setup2 = \<lparr>mask_ok2 = True, signalfd2 = 3, socket2 = 4, reuse_ok2 = True, bind_ok2 = True, listen_ok2 = True,
     epoll2 = 7, eventfd2 = 8\<rparr>"

definition empty_room2 :: web_server2 where
  "empty_room2 = the (new_server2 sample_setup2)"

definition two_accepted :: web_server2 where
  "two_accepted = accept_one2 12 [] (accept_one2 11 [] empty_room2)"

definition two_active :: web_server2 where
  "two_active = handle_line 1 (''bo'' @ [NL]) (handle_line 0 (''al'' @ [NL]) two_accepted)"

lemma empty_room2: "new_server2 sample_setup2 = Some empty_room2"
  by (simp add: empty_room2_def new_server2_def sample_setup2_def setup_signalfd2_def setup_server_socket2_def
      setup_epoll2_def setup_eventfd2_def blank_server2_def watch2_def Let_def)

lemma two_accepted_fields:
  "next2 two_accepted = 2" "usernames2 two_accepted = []" "broadcast_queue2 two_accepted = []" "tasks2 two_accepted = []"
  "pool_running2 two_accepted"
  "heap2 two_accepted 0 = (new_connection2 11 [])\<lparr>watched2 := Some False\<rparr>"
  "heap2 two_accepted 1 = (new_connection2 12 [])\<lparr>watched2 := Some False\<rparr>"
  using new_server2_fields[OF empty_room2]
  by (simp_all add: two_accepted_def accept_one2_def send_now_def kernel_send_def new_connection2_def add_fd_to_epoll2_def Let_def)

lemma two_active_fields:
  "next2 two_active = 2" "tasks2 two_active = []" "pool_running2 two_active"
  "heap2 two_active 0 = (new_connection2 11 [])\<lparr>watched2 := Some False, username2 := ''al'', state2 := ACTIVE\<rparr>"
  "heap2 two_active 1 = (new_connection2 12 [])\<lparr>watched2 := Some False, username2 := ''bo'', state2 := ACTIVE\<rparr>"
  using two_accepted_fields
  by (simp_all add: two_active_def handle_line_def send_now_def kernel_send_def new_connection2_def Let_def notify_loop_def
      queue_broadcast_message2_def)

lemma two_active_wf: "server2_wf two_active"
proof -
  have "server2_wf empty_room2"
    using new_server2_fields[OF empty_room2] by (simp add: server2_wf_def is_active_def)
  then have "server2_wf (accept_one2 11 [] empty_room2)"
    using new_server2_fields(2)[OF empty_room2] by (intro accept_one2_wf) simp_all
  moreover have "map_of (connections2 (accept_one2 11 [] empty_room2)) 12 = None"
    using new_server2_fields(2)[OF empty_room2] by (simp add: accept_one2_def send_now_def Let_def)
  ultimately have "server2_wf two_accepted" unfolding two_accepted_def by (rule accept_one2_wf)
  then show ?thesis
    unfolding two_active_def using two_accepted_fields
    by (intro handle_line_wf) (simp_all add: new_connection2_def)
qed

section \<open>Properties\<close>

text \<open>The lines of version 2, whatever the chunks: reading any chunks handles exactly the lines they make up
  together with what was left before, each once and in order, and leaves the unfinished one in the buffer.\<close>

theorem v2_lines_any_chunks:
  assumes "list_all (\<lambda>l. NL \<notin> set l) ls" "NL \<notin> set rest" "NL \<notin> set (in_buf2 (heap2 s cid))"
    "in_buf2 (heap2 s cid) @ concat chunks = concat (map (\<lambda>l. l @ [NL]) ls) @ rest"
  shows "handle_read2 cid (map Received chunks) s =
    upd2 cid (\<lambda>c. c\<lparr>in_buf2 := rest\<rparr>) (fold (\<lambda>l. handle_line cid (l @ [NL])) ls s)"
  using handle_read_all[OF assms] by (simp add: handle_lines_def)

theorem v2_lines_any_chunks_witness:
  "tasks2 (handle_read2 0 (map Received [''h'', ''i'' @ [NL] @ ''yo'', [NL], ''x'']) two_active) =
     [(0, ''hi'' @ [NL, NL]), (0, ''yo'' @ [NL, NL])]"
  using v2_lines_any_chunks[of "[''hi'', ''yo'']" "''x''" two_active 0 "[''h'', ''i'' @ [NL] @ ''yo'', [NL], ''x'']"] two_active_fields
  by (simp add: new_connection2_def handle_line_def push_task2_def)

text \<open>A write of version 2 loses nothing: under any answers of the kernel, what is on the wire followed by what
  is still buffered stays the same, and unless the connection is closed, \<open>EPOLLOUT\<close> is watched exactly
  when something is left.\<close>

theorem v2_write_lossless:
  assumes "server2_wf s" "cid < next2 s"
  defines "c' \<equiv> heap2 (handle_write2 cid s) cid"
  shows "stream2 c' = stream2 (heap2 s cid) \<and> (closed2 c' \<or> watched2 c' = Some (out_buf2 c' \<noteq> ''''))"
proof -
  obtain fatal c where w: "write_out (heap2 s cid) = (fatal, c)" by force
  note spec = write_out_spec[OF server2_wfD(1)[OF assms(1,2)] w]
  have "stream2 (heap2 (close_conn2 cid t) cid) = stream2 (heap2 t cid)" "closed2 (heap2 (close_conn2 cid t) cid)" for t
    by (simp_all add: close_conn2_def Let_def notify_loop_def queue_broadcast_message2_def stream2_def)
  then show ?thesis using w spec by (auto simp: c'_def handle_write2_def Let_def same_identity_def)
qed

theorem v2_write_lossless_witness:
  "stream2 (heap2 (handle_write2 0 two_active) 0) = ''''"
  using v2_write_lossless[OF two_active_wf, of 0] two_active_fields by (simp add: stream2_def new_connection2_def)

text \<open>The broadcast for every connection.\<close>

lemma handle_broadcasts2_heap:
  assumes wf: "server2_wf s" and cid: "cid < next2 s"
  shows "heap2 (handle_broadcasts2 s) cid =
    (if closed2 (heap2 s cid) then heap2 s cid else broadcast_to (broadcast_queue2 s) (heap2 s cid))"
proof -
  let ?s1 = "s\<lparr>broadcast_queue2 := []\<rparr>"
  have wf1: "server2_wf ?s1" using wf server2_wf_cong[of ?s1 s] by simp
  have m: "cid \<in> set (map snd (connections2 s)) \<longleftrightarrow> \<not> closed2 (heap2 s cid)"
  proof
    assume "cid \<in> set (map snd (connections2 s))"
    then obtain fd where "(fd, cid) \<in> set (connections2 s)" by auto
    then show "\<not> closed2 (heap2 s cid)" using map_of_is_SomeI[OF server2_wfD(2)[OF wf]] server2_wfD(3)[OF wf] by blast
  next
    assume "\<not> closed2 (heap2 s cid)"
    then have "map_of (connections2 s) (fd2 (heap2 s cid)) = Some cid" using server2_wfD(3)[OF wf] cid by blast
    then show "cid \<in> set (map snd (connections2 s))" by (metis image_eqI map_of_SomeD set_map snd_conv)
  qed
  show ?thesis
    using broadcast_fold[OF wf1 distinct_values[OF wf]] m
    by (auto simp: handle_broadcasts2_def Let_def broadcast_to_def buffer_for_def)
qed

text \<open>A broadcast of version 2 reaches everybody: each active connection gets exactly the queued messages that
  did not come from its own descriptor, in order, behind what it already had, and is watched for
  writing; other connections get nothing, and the queue is empty afterwards.\<close>

theorem v2_broadcast_reaches_all:
  assumes "server2_wf s" "cid < next2 s"
  defines "c \<equiv> heap2 s cid" and "c' \<equiv> heap2 (handle_broadcasts2 s) cid"
  shows "stream2 c' = stream2 c @ (if is_active s cid then concat [msg. (msg, sender) \<leftarrow> broadcast_queue2 s, fd2 c \<noteq> sender] else '''') \<and>
    (is_active s cid \<longrightarrow> out_buf2 c' \<noteq> '''' \<longrightarrow> watched2 c' = Some True) \<and>
    broadcast_queue2 (handle_broadcasts2 s) = []"
proof -
  have eq: "concat [msg. (msg, sender) \<leftarrow> q, fd2 c \<noteq> sender] = buffer_for q c" for q
    by (induction q) (auto simp: buffer_for_def)
  show ?thesis
    using handle_broadcasts2_heap[OF assms(1,2)] broadcast_to_spec[OF server2_wfD(1)[OF assms(1,2)]]
      handle_broadcasts2_wf(2)[OF assms(1)] server2_wfD(1)[OF assms(1,2)] assms(2)
    unfolding eq by (auto simp: c_def c'_def is_active_def connection_ok_def same_identity_def)
qed

theorem v2_broadcast_reaches_all_witness:
  "stream2 (heap2 (handle_broadcasts2 (queue_broadcast_message2 ''yo'' 12 (two_active\<lparr>broadcast_queue2 := []\<rparr>))) 0) = ''yo''"
proof -
  let ?s = "queue_broadcast_message2 ''yo'' 12 (two_active\<lparr>broadcast_queue2 := []\<rparr>)"
  have "server2_wf ?s" using two_active_wf server2_wf_cong[of ?s two_active] by (simp add: queue_broadcast_message2_def)
  from v2_broadcast_reaches_all[OF this, of 0] show ?thesis
    using two_active_fields by (simp add: queue_broadcast_message2_def is_active_def stream2_def new_connection2_def)
qed

text \<open>A chat line of version 2 from end to end: it reaches every other active connection as one broadcast with
  the sender's name, and not the sender; but with two newlines, since the line handed to the workers
  still has its own when another one is added, and they strip only one.\<close>

theorem v2_chat_line_doubled_newline:
  fixes s :: web_server2 and l :: string and a b :: nat
  assumes "server2_wf s" "is_active s a" "tasks2 s = []" "broadcast_queue2 s = []" "b < next2 s"
  defines "s1 \<equiv> handle_line a (l @ [NL]) s"
  defines "s2 \<equiv> s1\<lparr>tasks2 := []\<rparr>"
  shows "tasks2 s1 = [(a, l @ [NL, NL])] \<and>
    (\<exists>msg fd. format_task a (l @ [NL, NL]) s2 = Some (msg, fd) \<and>
      stream2 (heap2 (handle_broadcasts2 (queue_broadcast_message2 msg fd s2)) b) =
        stream2 (heap2 s b) @ (if is_active s b \<and> b \<noteq> a then ''['' @ username2 (heap2 s a) @ '']: '' @ l @ [NL, NL] else ''''))"
proof -
  have s1: "s1 = push_task2 a (l @ [NL, NL]) s" using assms(2) by (simp add: s1_def handle_line_def is_active_def)
  have task: "tasks2 s1 = [(a, l @ [NL, NL])]" using assms(3) by (simp add: s1 push_task2_def)
  let ?msg = "''['' @ username2 (heap2 s a) @ '']: '' @ l @ [NL, NL]" and ?fd = "fd2 (heap2 s a)"
  have fmt: "format_task a (l @ [NL, NL]) s2 = Some (?msg, ?fd)"
    using assms(2) active_named[OF assms(1,2)] by (simp add: format_task_def Let_def s2_def s1 push_task2_def is_active_def)
  let ?q = "queue_broadcast_message2 ?msg ?fd s2"
  have q: "heap2 ?q = heap2 s" "next2 ?q = next2 s" "connections2 ?q = connections2 s" "usernames2 ?q = usernames2 s"
    "broadcast_queue2 ?q = [(?msg, ?fd)]"
    using assms(4) by (simp_all add: queue_broadcast_message2_def s2_def s1 push_task2_def)
  have wf: "server2_wf ?q" using server2_wf_cong[OF q(1-4)] assms(1) by simp
  have own: "is_active s b \<Longrightarrow> fd2 (heap2 s b) = ?fd \<Longrightarrow> b = a"
    using assms(2) server2_wfD(3)[OF assms(1), of ?fd a] server2_wfD(3)[OF assms(1), of ?fd b] by (auto simp: is_active_def)
  have "stream2 (heap2 (handle_broadcasts2 ?q) b) = stream2 (heap2 s b) @ (if is_active s b \<and> b \<noteq> a then ?msg else '''')"
    using handle_broadcasts2_heap[OF wf, of b] broadcast_to_spec[OF server2_wfD(1)[OF assms(1,5)], of "[(?msg, ?fd)]"] own assms(5)
    unfolding q by (auto simp: is_active_def buffer_for_def)
  then show ?thesis using task fmt by blast
qed

theorem v2_chat_line_doubled_newline_witness:
  "\<exists>msg fd. format_task 0 (''hi'' @ [NL, NL]) (handle_line 0 (''hi'' @ [NL]) (two_active\<lparr>broadcast_queue2 := []\<rparr>)\<lparr>tasks2 := []\<rparr>) = Some (msg, fd)"
proof -
  let ?s = "two_active\<lparr>broadcast_queue2 := []\<rparr>"
  have "server2_wf ?s" using two_active_wf server2_wf_cong[of ?s two_active] by simp
  from v2_chat_line_doubled_newline[OF this, of 0 1 "''hi''"] show ?thesis
    using two_active_fields by (auto simp: is_active_def new_connection2_def)
qed

text \<open>C28: In every state the threads of version 2 can reach, the names are exactly those of the open active
  connections, and no two of these have the same name or the same descriptor.\<close>

theorem v2_names_unique:
  assumes "reachable room_init room_step s" "reactor2 s \<noteq> Stopped2"
  shows "set (usernames2 (srv s)) = username2 ` heap2 (srv s) ` {cid. is_active (srv s) cid} \<and>
    (\<forall>a b. is_active (srv s) a \<longrightarrow> is_active (srv s) b \<longrightarrow> a \<noteq> b \<longrightarrow>
       username2 (heap2 (srv s) a) \<noteq> username2 (heap2 (srv s) b) \<and> fd2 (heap2 (srv s) a) \<noteq> fd2 (heap2 (srv s) b))"
proof -
  note wf = room_wfD(1)[OF room_inv.inv_reachable[OF assms(1)] assms(2)]
  have "is_active (srv s) a \<Longrightarrow> map_of (connections2 (srv s)) (fd2 (heap2 (srv s) a)) = Some a" for a
    using server2_wfD(3)[OF wf] by (simp add: is_active_def)
  then have "is_active (srv s) a \<Longrightarrow> is_active (srv s) b \<Longrightarrow> fd2 (heap2 (srv s) a) = fd2 (heap2 (srv s) b) \<Longrightarrow> a = b" for a b
    by (metis option.inject)
  moreover have "set (usernames2 (srv s)) = username2 ` heap2 (srv s) ` {cid. is_active (srv s) cid}"
    using server2_wfD(5)[OF wf] by auto
  ultimately show ?thesis using server2_wfD(6)[OF wf] by metis
qed

lemma empty_room_reachable: "reachable room_init room_step \<lparr>srv = empty_room2, reactor2 = Polling2, crew = [Free, Free]\<rparr>"
  using empty_room2 by (intro reachable_init) (auto simp: room_init_def intro!: exI[of _ sample_setup2] exI[of _ 2] simp: numeral_2_eq_2)

lemma first_login_reachable:
  "\<exists>s. reachable room_init room_step s \<and> reactor2 s \<noteq> Stopped2 \<and>
     broadcast_queue2 (srv s) = [(''[Server]: al has joined the chatroom!'' @ [NL], -1)]"
proof -
  let ?a = "accept_one2 11 [] empty_room2" and ?in = "\<lambda>c. c\<lparr>in_buf2 := in_buf2 c @ ''al'' @ [NL]\<rparr>"
  let ?st = "\<lambda>sv r. \<lparr>srv = sv, reactor2 = r, crew = [Free, Free]\<rparr>"
  note f = new_server2_fields[OF empty_room2]
  note add = reachable_step[where step = room_step]
  have a: "map_of (connections2 ?a) 11 = Some 0" "heap2 ?a 0 = (new_connection2 11 [])\<lparr>watched2 := Some False\<rparr>"
    "usernames2 ?a = []" "broadcast_queue2 ?a = []"
    using f by (simp_all add: accept_one2_def send_now_def kernel_send_def new_connection2_def add_fd_to_epoll2_def Let_def)
  have "room_step (?st empty_room2 Polling2) (?st ?a Polling2)"
    using accepts[of "?st empty_room2 Polling2" 11 "[]"] f by simp
  note r = add[OF empty_room_reachable this]
  have "room_step (?st ?a Polling2) (?st ?a (Reading2 0 [Received (''al'' @ [NL])] False))"
    using readable[of "?st ?a Polling2" 11 0] a by simp
  note r = add[OF r this]
  have "room_step (?st ?a (Reading2 0 [Received (''al'' @ [NL])] False)) (?st (upd2 0 ?in ?a) (Reading2 0 [] False))"
    using chunk[of "?st ?a (Reading2 0 [Received (''al'' @ [NL])] False)" 0 "''al'' @ [NL]" "[]" False] a
    by (simp add: take_line_def new_connection2_def)
  note r = add[OF r this]
  let ?b = "upd2 0 (\<lambda>c. c\<lparr>in_buf2 := ''''\<rparr>) (upd2 0 ?in ?a)"
  have "room_step (?st (upd2 0 ?in ?a) (Reading2 0 [] False)) (?st (handle_line 0 (''al'' @ [NL]) ?b) (Reading2 0 [] False))"
    using line[of "?st (upd2 0 ?in ?a) (Reading2 0 [] False)" 0 "[]" False "''al'' @ [NL]" "''''"] a
    by (simp add: take_line_def new_connection2_def)
  note r = add[OF r this]
  have "broadcast_queue2 (handle_line 0 (''al'' @ [NL]) ?b) = [(''[Server]: al has joined the chatroom!'' @ [NL], -1)]"
    using a by (simp add: handle_line_def new_connection2_def Let_def notify_loop_def queue_broadcast_message2_def send_now_def)
  then show ?thesis using r by (intro exI[of _ "?st (handle_line 0 (''al'' @ [NL]) ?b) (Reading2 0 [] False)"]) simp
qed

theorem v2_names_unique_witness: "usernames2 empty_room2 = []"
  using v2_names_unique[OF empty_room_reachable] new_server2_fields[OF empty_room2] by (simp add: is_active_def)

text \<open>C29: Version 2 forgets nothing it has accepted: in every reachable state, broadcasts that are queued have been
  announced on the eventfd or a worker is about to do so, and a connection with output is watched for
  writing.\<close>

theorem v2_nothing_forgotten:
  assumes "reachable room_init room_step s" "reactor2 s \<noteq> Stopped2"
  shows "(broadcast_queue2 (srv s) \<noteq> [] \<longrightarrow> 0 < notify2 (srv s) \<or> Notifies \<in> set (crew s)) \<and>
    (\<forall>cid<next2 (srv s). out_buf2 (heap2 (srv s) cid) \<noteq> '''' \<longrightarrow> closed2 (heap2 (srv s) cid) \<or> watched2 (heap2 (srv s) cid) = Some True)"
proof -
  note inv = room_inv.inv_reachable[OF assms(1)]
  show ?thesis using room_wfD(1,3)[OF inv assms(2)] server2_wfD(1)[of "srv s"] by (auto simp: connection_ok_def)
qed

theorem v2_nothing_forgotten_witness:
  "\<exists>s :: room. broadcast_queue2 (srv s) = [(''[Server]: al has joined the chatroom!'' @ [NL], -1)] \<and>
     (0 < notify2 (srv s) \<or> Notifies \<in> set (crew s))"
proof -
  obtain s :: room where s: "reachable room_init room_step s" "reactor2 s \<noteq> Stopped2"
    "broadcast_queue2 (srv s) = [(''[Server]: al has joined the chatroom!'' @ [NL], -1)]"
    using first_login_reachable by blast
  then have "0 < notify2 (srv s) \<or> Notifies \<in> set (crew s)" using v2_nothing_forgotten[OF s(1,2)] by simp
  then show ?thesis using s(3) by blast
qed

text \<open>The workers of version 2 can swap the messages of one client: from any state with two of its lines in the
  task queue and two free workers, the broadcasts can be queued in the wrong order.\<close>

theorem v2_workers_reorder:
  assumes "i < length (crew s)" "j < length (crew s)" "i \<noteq> j" "crew s ! i = Free" "crew s ! j = Free"
    "pool_running2 (srv s)" "tasks2 (srv s) = [(a, m1), (a, m2)]" "server2_wf (srv s)" "is_active (srv s) a"
  shows "\<exists>s' b1 b2. room_step\<^sup>*\<^sup>* s s' \<and> format_task a m1 (srv s) = Some b1 \<and> format_task a m2 (srv s) = Some b2 \<and>
    broadcast_queue2 (srv s') = broadcast_queue2 (srv s) @ [b2, b1]"
proof -
  obtain b1 f1 b2 f2 where f: "format_task a m1 (srv s) = Some (b1, f1)" "format_task a m2 (srv s) = Some (b2, f2)"
    using active_named[OF assms(8,9)] assms(9) by (auto simp: format_task_def Let_def is_active_def)
  have irr: "format_task a m (sv\<lparr>tasks2 := ts\<rparr>) = format_task a m sv" for m sv ts by (simp add: format_task_def)
  let ?t = "\<lambda>x y ts. \<lparr>srv = (srv s)\<lparr>tasks2 := ts\<rparr>, reactor2 = reactor2 s, crew = (crew s)[i := x, j := y]\<rparr>"
  note [simp] = assms(1-3) assms(3)[symmetric]
  have sw: "(crew s)[i := x, j := y, i := x'] = (crew s)[i := x', j := y]" "(crew s)[i := x, j := y, j := y'] = (crew s)[i := x, j := y']" for x y x' y'
    using list_update_swap[of j i "(crew s)[i := x]"] by simp_all
  have "s\<lparr>srv := (srv s)\<lparr>tasks2 := [(a, m2)]\<rparr>, crew := (crew s)[i := Took2 a m1]\<rparr> = ?t (Took2 a m1) Free [(a, m2)]"
    using assms(5) list_update_id[of "(crew s)[i := Took2 a m1]" j] by (cases s) simp
  then have "room_step s (?t (Took2 a m1) Free [(a, m2)])"
    using takes[of i s a m1 "[(a, m2)]"] assms(4,6,7) by simp
  moreover have "room_step (?t (Took2 a m1) Free [(a, m2)]) (?t (Took2 a m1) (Took2 a m2) [])"
    using takes[of j "?t (Took2 a m1) Free [(a, m2)]" a m2 "[]"] assms by (simp add: sw)
  moreover have "room_step (?t (Took2 a m1) (Took2 a m2) []) (?t (Says b1 f1) (Took2 a m2) [])"
    using looks[of i "?t (Took2 a m1) (Took2 a m2) []" a m1] f by (simp add: sw irr)
  moreover have "room_step (?t (Says b1 f1) (Took2 a m2) []) (?t (Says b1 f1) (Says b2 f2) [])"
    using looks[of j "?t (Says b1 f1) (Took2 a m2) []" a m2] f by (simp add: sw irr)
  moreover have "room_step (?t (Says b1 f1) (Says b2 f2) [])
      ((?t (Says b1 f1) Notifies [])\<lparr>srv := queue_broadcast_message2 b2 f2 ((srv s)\<lparr>tasks2 := []\<rparr>)\<rparr>)" (is "room_step _ ?u")
    using says[of j "?t (Says b1 f1) (Says b2 f2) []" b2 f2] by (simp add: sw)
  moreover have "room_step ?u (?u\<lparr>srv := queue_broadcast_message2 b1 f1 (srv ?u), crew := (crew ?u)[i := Notifies]\<rparr>)" (is "room_step _ ?v")
    using says[of i ?u b1 f1] by simp
  ultimately have "room_step\<^sup>*\<^sup>* s ?v" by (meson converse_rtranclp_into_rtranclp rtranclp.rtrancl_refl)
  moreover have "broadcast_queue2 (srv ?v) = broadcast_queue2 (srv s) @ [(b2, f2), (b1, f1)]"
    by (simp add: queue_broadcast_message2_def)
  ultimately show ?thesis using f by blast
qed

theorem v2_workers_reorder_witness:
  "\<exists>(s' :: room) b1 b2. format_task 0 ''x'' two_active = Some b1 \<and> broadcast_queue2 (srv s') = broadcast_queue2 two_active @ [b2, b1]"
proof -
  let ?s = "\<lparr>srv = two_active\<lparr>tasks2 := [(0, ''x''), (0, ''y'')]\<rparr>, reactor2 = Polling2, crew = [Free, Free]\<rparr>"
  have wf: "server2_wf (srv ?s)" using two_active_wf server2_wf_cong[of "srv ?s" two_active] by simp
  have act: "is_active (srv ?s) 0" "pool_running2 (srv ?s)"
    using two_active_fields by (simp_all add: is_active_def new_connection2_def)
  have f: "format_task 0 ''x'' (srv ?s) = format_task 0 ''x'' two_active" by (simp add: format_task_def)
  have "\<exists>s' b1 b2. room_step\<^sup>*\<^sup>* ?s s' \<and> format_task 0 ''x'' (srv ?s) = Some b1 \<and> format_task 0 ''y'' (srv ?s) = Some b2 \<and>
      broadcast_queue2 (srv s') = broadcast_queue2 (srv ?s) @ [b2, b1]"
    by (rule v2_workers_reorder[where i = 0 and j = 1, OF _ _ _ _ _ act(2) _ wf act(1)]) simp_all
  then obtain s' :: room and b1 b2 where r: "format_task 0 ''x'' (srv ?s) = Some b1"
      "broadcast_queue2 (srv s') = broadcast_queue2 (srv ?s) @ [b2, b1]" by blast
  show ?thesis
    using r f by (intro exI[of _ s'] exI[of _ b1] exI[of _ b2]) (simp del: split_paired_Ex)
qed

end
