(* ===== verification/ClientV2.thy ===== *)
theory ClientV2
  imports Client EchoV1 ServerV2Threads
begin

text \<open>
  The terminal client of version 2 (\<open>v2/client.cpp\<close>, \<open>v2/client.h\<close>): one thread over an
  edge-triggered epoll on the socket, the keyboard and the signals. The state holds the client's
  fields, \<open>errno\<close>, what it has sent and printed, and the kernel's side of the socket: the bytes that
  have arrived, whether the server has closed or reset the connection, and whether an edge is pending that
  \<open>epoll_wait\<close> has not reported yet. Calls that succeed leave \<open>errno\<close> alone. The names carry
  the suffix \<open>V2\<close>.
\<close>

section \<open>State\<close>

record client_v2 =
  sock_v2 :: int
  epoll_v2 :: int
  sig_v2 :: int
  name_v2 :: string
  prompt_v2 :: string
  line_v2 :: string
  running_v2 :: bool
  errno_v2 :: int
  sent_v2 :: string
  screen_v2 :: string
  closed_v2 :: "int list"
  arrived_v2 :: string
  peer_closed_v2 :: bool
  reset_v2 :: bool
  edge_v2 :: bool

definition EAGAIN :: int where "EAGAIN = 11"
definition EINTR :: int where "EINTR = 4"
definition ECONNRESET :: int where "ECONNRESET = 104"

definition show_v2 :: "string \<Rightarrow> client_v2 \<Rightarrow> client_v2" where
  "show_v2 s c = c\<lparr>screen_v2 := screen_v2 c @ s\<rparr>"

definition setup_signalfd_v2 :: "bool \<Rightarrow> int \<Rightarrow> client_v2 \<Rightarrow> client_v2 option" where
  "setup_signalfd_v2 mask_ok fd c =
     (if \<not> mask_ok then None
      else let c1 = c\<lparr>sig_v2 := fd\<rparr> in if sig_v2 c1 = -1 then None else Some c1)"

text \<open>The constructor, in a process whose \<open>errno\<close> is \<open>e\<close>.\<close>

definition new_client_v2 :: "int \<Rightarrow> bool \<Rightarrow> int \<Rightarrow> client_v2 option" where
  "new_client_v2 e mask_ok fd = setup_signalfd_v2 mask_ok fd
     \<lparr>sock_v2 = -1, epoll_v2 = -1, sig_v2 = -1, name_v2 = '''', prompt_v2 = '''', line_v2 = '''', running_v2 = True,
      errno_v2 = e, sent_v2 = '''', screen_v2 = '''', closed_v2 = [],
      arrived_v2 = '''', peer_closed_v2 = False, reset_v2 = False, edge_v2 = False\<rparr>"

text \<open>A failure closes the descriptor and keeps its number, which the destructor closes again.\<close>

definition connect_v2 :: "int \<Rightarrow> bool \<Rightarrow> bool \<Rightarrow> client_v2 \<Rightarrow> bool \<times> client_v2" where
  "connect_v2 fd address_ok connect_ok c =
     (let c1 = c\<lparr>sock_v2 := fd\<rparr>
      in if sock_v2 c1 < 0 then (False, c1)
         else if \<not> address_ok then (False, c1\<lparr>closed_v2 := closed_v2 c1 @ [sock_v2 c1]\<rparr>)
         else if \<not> connect_ok then (False, c1\<lparr>closed_v2 := closed_v2 c1 @ [sock_v2 c1]\<rparr>)
         else (True, c1))"

definition close_v2 :: "client_v2 \<Rightarrow> client_v2" where
  "close_v2 c = c\<lparr>closed_v2 := closed_v2 c @ filter (\<lambda>fd. fd \<noteq> -1) [sock_v2 c, epoll_v2 c, sig_v2 c]\<rparr>"

section \<open>Logging in\<close>

text \<open>Typing a name; None is the end of the input or an error. The loop ends with whatever has been typed,
  even with nothing.\<close>

fun type_name_v2 :: "char option list \<Rightarrow> client_v2 \<Rightarrow> bool \<times> char option list \<times> client_v2" where
  "type_name_v2 [] c = (False, [], c)"
| "type_name_v2 (None # ks) c = (True, ks, c)"
| "type_name_v2 (Some ch # ks) c =
     (if ch = NEWLINE \<or> ch = RETURN then (True, ks, c)
      else if is_print ch then type_name_v2 ks (show_v2 [ch] (c\<lparr>name_v2 := name_v2 c @ [ch]\<rparr>))
      else if (ch = CHR 0x7F \<or> ch = CHR 0x08) \<and> name_v2 c \<noteq> ''''
      then type_name_v2 ks (show_v2 [CHR 0x08, CHR 0x20, CHR 0x08] (c\<lparr>name_v2 := butlast (name_v2 c)\<rparr>))
      else type_name_v2 ks c)"

datatype login_v2_outcome = AcceptedV2 | FailedV2 | WaitingV2

text \<open>\<open>rs\<close> are the results of \<open>recv\<close>, at most 4095 bytes each and empty for the end or an error; \<open>oks\<close> tells whether
  the \<open>send\<close> calls succeed, on a socket that still blocks.\<close>

fun login_v2 :: "string list \<Rightarrow> char option list \<Rightarrow> bool list \<Rightarrow> client_v2 \<Rightarrow> login_v2_outcome \<times> client_v2" where
  "login_v2 [] ks oks c = (if running_v2 c then WaitingV2 else FailedV2, c)"
| "login_v2 (r # rs) ks oks c =
     (if \<not> running_v2 c \<or> r = '''' then (FailedV2, c)
      else let server_msg = c_string r; c1 = show_v2 server_msg c
           in if contains ACCEPTED server_msg
              then (AcceptedV2, c1\<lparr>prompt_v2 := ''['' @ name_v2 c1 @ '']: ''\<rparr>)
              else case type_name_v2 ks (c1\<lparr>name_v2 := ''''\<rparr>) of
                  (False, _, c2) \<Rightarrow> (WaitingV2, c2)
                | (True, ks', c2) \<Rightarrow>
                    (let c3 = show_v2 [NEWLINE] c2; user_message = name_v2 c3 @ [NEWLINE]
                     in case oks of
                         [] \<Rightarrow> (WaitingV2, c3)
                       | ok # oks' \<Rightarrow>
                           if \<not> ok then (FailedV2, c3)
                           else login_v2 rs ks' oks' (c3\<lparr>sent_v2 := sent_v2 c3 @ user_message\<rparr>)))"

section \<open>The socket\<close>

text \<open>A \<open>recv\<close> of at most 4095 bytes: what it returns. Bytes that have arrived come first, then an error, then
  the end; the end returns zero and leaves \<open>errno\<close> as it was.\<close>

datatype recv_v2 = Bytes_v2 string | End_v2 | Error_v2

definition recv_sock :: "client_v2 \<Rightarrow> recv_v2 \<times> client_v2" where
  "recv_sock c =
     (if arrived_v2 c \<noteq> '''' then (Bytes_v2 (take 4095 (arrived_v2 c)), c\<lparr>arrived_v2 := drop 4095 (arrived_v2 c)\<rparr>)
      else if reset_v2 c then (Error_v2, c\<lparr>reset_v2 := False, peer_closed_v2 := True, errno_v2 := ECONNRESET\<rparr>)
      else if peer_closed_v2 c then (End_v2, c)
      else (Error_v2, c\<lparr>errno_v2 := EAGAIN\<rparr>))"

definition print_received_v2 :: "string \<Rightarrow> client_v2 \<Rightarrow> client_v2" where
  "print_received_v2 buffer c =
     (let c1 = show_v2 (ERASE @ c_string buffer) c
      in if last buffer \<noteq> NEWLINE then show_v2 [NEWLINE] c1 else c1)"

definition LOST :: string where "LOST = ERASE @ ''Server connection lost.'' @ [NEWLINE]"

lemma recv_sock_shrinks:
  "recv_sock c = (Bytes_v2 bs, c') \<Longrightarrow> length (arrived_v2 c') < length (arrived_v2 c)"
  by (auto simp: recv_sock_def split: if_splits)

lemma show_arrived [simp]: "arrived_v2 (show_v2 s c) = arrived_v2 c"
  by (simp add: show_v2_def)

lemma print_received_arrived [simp]: "arrived_v2 (print_received_v2 b c) = arrived_v2 c"
  by (simp add: print_received_v2_def Let_def)

function read_sock :: "client_v2 \<Rightarrow> client_v2" where
  "read_sock c =
     (if \<not> running_v2 c then c
      else case recv_sock c of
          (Bytes_v2 buffer, c1) \<Rightarrow> read_sock (print_received_v2 buffer c1)
        | (_, c1) \<Rightarrow> if errno_v2 c1 = EAGAIN then c1 else (show_v2 LOST c1)\<lparr>running_v2 := False\<rparr>)"
  by pat_completeness auto
termination
  by (relation "measure (\<lambda>c. length (arrived_v2 c))") (auto dest: recv_sock_shrinks[OF sym])

declare read_sock.simps [simp del]

definition handle_server_message_v2 :: "client_v2 \<Rightarrow> client_v2" where
  "handle_server_message_v2 c =
     (let c1 = read_sock c in if running_v2 c1 then show_v2 (prompt_v2 c1 @ line_v2 c1) c1 else c1)"

section \<open>The keyboard\<close>

text \<open>A newline; \<open>r\<close> is what \<open>send\<close> answers: the bytes it has taken, or None for an error, with its \<open>errno\<close>. The result tells
  whether the handler returns.\<close>

definition enter_line_v2 :: "nat option \<Rightarrow> int \<Rightarrow> client_v2 \<Rightarrow> bool \<times> client_v2" where
  "enter_line_v2 r e c =
     (if line_v2 c = ''exit'' then (True, c\<lparr>running_v2 := False\<rparr>)
      else if line_v2 c \<noteq> '''' then
        (let c1 = show_v2 (ERASE @ prompt_v2 c @ line_v2 c @ [NEWLINE]) c;
             message_to_send = line_v2 c1 @ [NEWLINE]
         in case r of
             None \<Rightarrow> (True, c1\<lparr>errno_v2 := e, running_v2 := False\<rparr>)
           | Some k \<Rightarrow> (False, show_v2 (prompt_v2 c1) (c1\<lparr>sent_v2 := sent_v2 c1 @ take k message_to_send, line_v2 := ''''\<rparr>)))
      else (False, c))"

definition key_v2 :: "nat option \<Rightarrow> int \<Rightarrow> char \<Rightarrow> client_v2 \<Rightarrow> bool \<times> client_v2" where
  "key_v2 r e ch c =
     (if ch = NEWLINE \<or> ch = RETURN then enter_line_v2 r e c
      else if ch = CHR 0x7F \<or> ch = CHR 0x08 then
        (False, if line_v2 c \<noteq> ''''
                then let c1 = c\<lparr>line_v2 := butlast (line_v2 c)\<rparr> in show_v2 (ERASE @ prompt_v2 c1 @ line_v2 c1) c1
                else show_v2 (ERASE @ prompt_v2 c) (show_v2 [CHR 0x07] c))
      else if is_print ch then (False, show_v2 [ch] (c\<lparr>line_v2 := line_v2 c @ [ch]\<rparr>))
      else (False, c))"

text \<open>The keys that can be read, each with what a \<open>send\<close> would answer; then the input would block, or has ended.\<close>

type_synonym key_input = "(char \<times> nat option \<times> int) list"

fun handle_keyboard_v2 :: "key_input \<Rightarrow> bool \<Rightarrow> client_v2 \<Rightarrow> client_v2" where
  "handle_keyboard_v2 [] eof c = (if eof then c else c\<lparr>errno_v2 := EAGAIN\<rparr>)"
| "handle_keyboard_v2 ((ch, r, e) # keys) eof c =
     (let (leave, c1) = key_v2 r e ch c in if leave then c1 else handle_keyboard_v2 keys eof c1)"

section \<open>The loop\<close>

text \<open>Registering the three descriptors. None is \<open>exit(1)\<close>; a failure for the socket or the keyboard only ends the client.\<close>

definition setup_epoll_v2 :: "int \<Rightarrow> bool \<Rightarrow> bool \<Rightarrow> bool \<Rightarrow> client_v2 \<Rightarrow> client_v2 option" where
  "setup_epoll_v2 fd sig_ok sock_ok stdin_ok c =
     (let c1 = c\<lparr>epoll_v2 := fd\<rparr>
      in if epoll_v2 c1 = -1 then None
         else if \<not> sig_ok then None
         else if \<not> sock_ok then Some (c1\<lparr>running_v2 := False\<rparr>)
         else if \<not> stdin_ok then Some (c1\<lparr>running_v2 := False\<rparr>)
         else Some c1)"

text \<open>\<open>run\<close> up to its loop.\<close>

definition start_v2 :: "int \<Rightarrow> bool \<Rightarrow> bool \<Rightarrow> bool \<Rightarrow> client_v2 \<Rightarrow> client_v2 option" where
  "start_v2 fd sig_ok sock_ok stdin_ok c =
     map_option (\<lambda>c1. show_v2 (prompt_v2 c1) c1) (setup_epoll_v2 fd sig_ok sock_ok stdin_ok c)"

datatype event_v2 = SocketEvent | KeyEvent key_input bool | SignalEvent bool

text \<open>The events of one \<open>epoll_wait\<close>; a signal that cannot be read ends the batch.\<close>

fun handle_events_v2 :: "event_v2 list \<Rightarrow> client_v2 \<Rightarrow> client_v2" where
  "handle_events_v2 [] c = c"
| "handle_events_v2 (SocketEvent # es) c = handle_events_v2 es (handle_server_message_v2 c)"
| "handle_events_v2 (KeyEvent keys eof # es) c = handle_events_v2 es (handle_keyboard_v2 keys eof c)"
| "handle_events_v2 (SignalEvent whole # es) c =
     (if \<not> whole then c\<lparr>running_v2 := False\<rparr>
      else handle_events_v2 es ((show_v2 ([NEWLINE] @ ''Signal received, exiting...'' @ [NEWLINE]) c)\<lparr>running_v2 := False\<rparr>))"

text \<open>The client and what happens around it. \<open>epoll_wait\<close> reports the socket if its edge is pending, and takes it back;
  an interruption by a signal that is not blocked starts over, another failure of \<open>epoll_wait\<close> leaves the loop.\<close>

inductive step_v2 :: "client_v2 \<Rightarrow> client_v2 \<Rightarrow> bool" where
  bytes_arrive: "bs \<noteq> '''' \<Longrightarrow> \<not> peer_closed_v2 c \<Longrightarrow> \<not> reset_v2 c \<Longrightarrow> step_v2 c (c\<lparr>arrived_v2 := arrived_v2 c @ bs, edge_v2 := True\<rparr>)"
| server_closes: "\<not> peer_closed_v2 c \<Longrightarrow> \<not> reset_v2 c \<Longrightarrow> step_v2 c (c\<lparr>peer_closed_v2 := True, edge_v2 := True\<rparr>)"
| server_resets: "step_v2 c (c\<lparr>reset_v2 := True, edge_v2 := True\<rparr>)"
| wakes: "running_v2 c \<Longrightarrow> length es \<le> 2 \<Longrightarrow> (SocketEvent \<in> set es \<longrightarrow> edge_v2 c) \<Longrightarrow>
    step_v2 c (handle_events_v2 es (if SocketEvent \<in> set es then c\<lparr>edge_v2 := False\<rparr> else c))"
| interrupted: "running_v2 c \<Longrightarrow> step_v2 c (c\<lparr>errno_v2 := EINTR\<rparr>)"
| wait_fails: "running_v2 c \<Longrightarrow> step_v2 c (c\<lparr>running_v2 := False\<rparr>)"

inductive_simps step_v2_iff: "step_v2 c c'"

end
