(* ===== verification/ClientV2Props.thy ===== *)
theory ClientV2Props
  imports ClientV2
begin

text \<open>
  The client of version 2: a closed connection goes unnoticed, and the lines typed are the lines
  its server handles.
\<close>

section \<open>The end of the connection\<close>

lemma show_v2_fields [simp]:
  "running_v2 (show_v2 s c) = running_v2 c" "errno_v2 (show_v2 s c) = errno_v2 c" "peer_closed_v2 (show_v2 s c) = peer_closed_v2 c"
  "reset_v2 (show_v2 s c) = reset_v2 c" "edge_v2 (show_v2 s c) = edge_v2 c" "line_v2 (show_v2 s c) = line_v2 c"
  "sent_v2 (show_v2 s c) = sent_v2 c" "prompt_v2 (show_v2 s c) = prompt_v2 c"
  by (simp_all add: show_v2_def)

lemma print_received_fields [simp]:
  "running_v2 (print_received_v2 b c) = running_v2 c" "errno_v2 (print_received_v2 b c) = errno_v2 c"
  "peer_closed_v2 (print_received_v2 b c) = peer_closed_v2 c" "reset_v2 (print_received_v2 b c) = reset_v2 c"
  "edge_v2 (print_received_v2 b c) = edge_v2 c"
  by (simp_all add: print_received_v2_def Let_def)

lemma print_received_peer: "print_received_v2 b (c\<lparr>arrived_v2 := a, peer_closed_v2 := p\<rparr>) = (print_received_v2 b (c\<lparr>arrived_v2 := a\<rparr>))\<lparr>peer_closed_v2 := p\<rparr>"
  by (simp add: print_received_v2_def show_v2_def Let_def)

text \<open>Reading: if the client still runs afterwards, \<open>errno\<close> says that the call would have blocked.\<close>

lemma read_sock_errno: "running_v2 c \<Longrightarrow> running_v2 (read_sock c) \<Longrightarrow> errno_v2 (read_sock c) = EAGAIN"
proof (induction c rule: read_sock.induct)
  case (1 c)
  show ?case
  proof (cases "recv_sock c")
    case (Pair r c1)
    have "running_v2 c1 = running_v2 c" using Pair by (auto simp: recv_sock_def split: if_splits)
    then show ?thesis using 1 Pair
      by (cases r) (auto simp: read_sock.simps[of c] split: if_splits)
  qed
qed

lemma read_sock_stops: "\<not> running_v2 c \<Longrightarrow> read_sock c = c"
  by (simp add: read_sock.simps[of c])

lemma read_sock_open:
  assumes "running_v2 c" "\<not> peer_closed_v2 c" "\<not> reset_v2 c"
  shows "running_v2 (read_sock c) \<and> arrived_v2 (read_sock c) = '''' \<and> edge_v2 (read_sock c) = edge_v2 c"
  using assms
proof (induction c rule: read_sock.induct)
  case (1 c)
  show ?case
  proof (cases "arrived_v2 c = ''''")
    case True
    then show ?thesis using 1 by (simp add: read_sock.simps[of c] recv_sock_def)
  next
    case False
    then have r: "recv_sock c = (Bytes_v2 (take 4095 (arrived_v2 c)), c\<lparr>arrived_v2 := drop 4095 (arrived_v2 c)\<rparr>)"
      by (simp add: recv_sock_def)
    then show ?thesis using 1(1)[OF _ r[symmetric] refl] 1(2-4) by (simp add: read_sock.simps[of c])
  qed
qed

text \<open>With \<open>errno\<close> left over from an earlier call, the end of the connection looks like nothing more to read.\<close>

lemma read_sock_blind:
  assumes "running_v2 c" "errno_v2 c = EAGAIN" "\<not> reset_v2 c"
  shows "read_sock c = (read_sock (c\<lparr>peer_closed_v2 := False\<rparr>))\<lparr>peer_closed_v2 := peer_closed_v2 c\<rparr>"
  using assms
proof (induction c rule: read_sock.induct)
  case (1 c)
  show ?case
  proof (cases "arrived_v2 c = ''''")
    case True
    then show ?thesis using 1 by (cases "peer_closed_v2 c")
      (simp_all add: read_sock.simps[of c] read_sock.simps[of "c\<lparr>peer_closed_v2 := False\<rparr>"] recv_sock_def)
  next
    case False
    let ?b = "take 4095 (arrived_v2 c)" and ?c = "c\<lparr>arrived_v2 := drop 4095 (arrived_v2 c)\<rparr>"
    have r: "recv_sock c = (Bytes_v2 ?b, ?c)" and
      r': "recv_sock (c\<lparr>peer_closed_v2 := False\<rparr>) = (Bytes_v2 ?b, c\<lparr>arrived_v2 := drop 4095 (arrived_v2 c), peer_closed_v2 := False\<rparr>)"
      using False by (simp_all add: recv_sock_def)
    have "read_sock c = read_sock (print_received_v2 ?b ?c)" using r 1(2) by (simp add: read_sock.simps[of c])
    also have "\<dots> = (read_sock ((print_received_v2 ?b ?c)\<lparr>peer_closed_v2 := False\<rparr>))\<lparr>peer_closed_v2 := peer_closed_v2 c\<rparr>"
      using 1(1)[OF _ r[symmetric] refl] 1(2-4) by simp
    also have "read_sock ((print_received_v2 ?b ?c)\<lparr>peer_closed_v2 := False\<rparr>) = read_sock (c\<lparr>peer_closed_v2 := False\<rparr>)"
      using r' 1(2) by (simp add: read_sock.simps[of "c\<lparr>peer_closed_v2 := False\<rparr>"] print_received_peer)
    finally show ?thesis .
  qed
qed

lemma handle_server_blind:
  assumes "running_v2 c" "errno_v2 c = EAGAIN" "\<not> reset_v2 c"
  shows "handle_server_message_v2 c = (handle_server_message_v2 (c\<lparr>peer_closed_v2 := False\<rparr>))\<lparr>peer_closed_v2 := peer_closed_v2 c\<rparr>"
  using read_sock_blind[OF assms] by (simp add: handle_server_message_v2_def Let_def show_v2_def)

lemma handle_server_errno: "running_v2 c \<Longrightarrow> running_v2 (handle_server_message_v2 c) \<Longrightarrow> errno_v2 (handle_server_message_v2 c) = EAGAIN"
  using read_sock_errno[of c] by (simp add: handle_server_message_v2_def Let_def split: if_splits)

text \<open>A client that runs has \<open>EAGAIN\<close> in \<open>errno\<close>.\<close>

definition blind :: "client_v2 \<Rightarrow> bool" where
  "blind c \<longleftrightarrow> (running_v2 c \<longrightarrow> errno_v2 c = EAGAIN)"

lemma key_blind: "key_v2 r e ch c = (leave, c') \<Longrightarrow> blind c \<Longrightarrow> blind c'"
  by (auto simp: key_v2_def enter_line_v2_def blind_def Let_def split: if_splits option.splits)

lemma handle_keyboard_blind: "blind c \<Longrightarrow> blind (handle_keyboard_v2 keys eof c)"
proof (induction keys eof c rule: handle_keyboard_v2.induct)
  case (1 eof c)
  then show ?case by (simp add: blind_def)
next
  case (2 ch r e keys eof c)
  then show ?case by (cases "key_v2 r e ch c") (auto dest: key_blind)
qed

lemma handle_server_message_blind: "blind c \<Longrightarrow> blind (handle_server_message_v2 c)"
  using handle_server_errno[of c] read_sock_stops[of c]
  by (cases "running_v2 c") (auto simp: blind_def handle_server_message_v2_def)

lemma handle_events_blind: "blind c \<Longrightarrow> blind (handle_events_v2 es c)"
proof (induction es c rule: handle_events_v2.induct)
  case (4 whole es c)
  then show ?case by (cases whole) (simp_all add: blind_def)
qed (simp_all add: handle_keyboard_blind handle_server_message_blind)

text \<open>The states after the client has once read all there was on an open connection.\<close>

definition caught_up :: "client_v2 \<Rightarrow> bool" where
  "caught_up c \<longleftrightarrow> (\<exists>c0. running_v2 c0 \<and> \<not> peer_closed_v2 c0 \<and> \<not> reset_v2 c0 \<and> c = handle_server_message_v2 c0)"

definition undisturbed :: "client_v2 \<Rightarrow> client_v2 \<Rightarrow> bool" where
  "undisturbed c c' \<longleftrightarrow> step_v2 c c' \<and> errno_v2 c' \<noteq> EINTR"

interpretation v2_client: inductive_invariant caught_up undisturbed blind
proof
  fix c c' :: client_v2
  show "caught_up c \<Longrightarrow> blind c" using handle_server_errno by (auto simp: caught_up_def blind_def)
  show "blind c'" if "blind c" "undisturbed c c'"
    using that(2)[unfolded undisturbed_def, THEN conjunct1] that(1,2)
  proof cases
    case (wakes es)
    have "blind (if SocketEvent \<in> set es then c\<lparr>edge_v2 := False\<rparr> else c)" using that(1) by (simp add: blind_def)
    then show ?thesis unfolding wakes(1) by (rule handle_events_blind)
  qed (simp_all add: blind_def undisturbed_def)
qed

text \<open>C36: The client of version 2 does not notice that the server has closed the connection. In every state that it
  can get into once it has read something, whatever has arrived, was typed or was signalled since, and
  unless the connection has been reset or a stop and continuation of the process has interrupted \<open>epoll_wait\<close>, handling the socket does exactly what it would do if the server
  had not closed it: the client prints what is left and its prompt and goes on. The
  edge has been used up by then, so it is not woken for the socket again.\<close>

theorem v2_client_misses_close:
  assumes "reachable caught_up undisturbed c" "running_v2 c" "\<not> reset_v2 c"
  defines "c1 \<equiv> c\<lparr>edge_v2 := False\<rparr>"
  shows "handle_server_message_v2 c1 = (handle_server_message_v2 (c1\<lparr>peer_closed_v2 := False\<rparr>))\<lparr>peer_closed_v2 := peer_closed_v2 c\<rparr> \<and>
    running_v2 (handle_server_message_v2 c1) \<and> arrived_v2 (handle_server_message_v2 c1) = '''' \<and>
    \<not> edge_v2 (handle_server_message_v2 c1)"
proof -
  have "errno_v2 c1 = EAGAIN" "running_v2 c1" "\<not> reset_v2 c1"
    using v2_client.inv_reachable[OF assms(1)] assms(2,3) by (simp_all add: blind_def c1_def)
  note b = handle_server_blind[OF this(2,1,3)]
  have o: "running_v2 (read_sock (c1\<lparr>peer_closed_v2 := False\<rparr>)) \<and> arrived_v2 (read_sock (c1\<lparr>peer_closed_v2 := False\<rparr>)) = '''' \<and>
      edge_v2 (read_sock (c1\<lparr>peer_closed_v2 := False\<rparr>)) = False"
    using read_sock_open[of "c1\<lparr>peer_closed_v2 := False\<rparr>"] assms(2,3) by (simp add: c1_def)
  then show ?thesis using b by (simp add: handle_server_message_v2_def Let_def show_v2_def) (simp add: c1_def)
qed

definition fresh_v2 :: client_v2 where
  "fresh_v2 = the (new_client_v2 0 True 4)"

lemma fresh_v2: "fresh_v2 = \<lparr>sock_v2 = -1, epoll_v2 = -1, sig_v2 = 4, name_v2 = '''', prompt_v2 = '''', line_v2 = '''', running_v2 = True,
    errno_v2 = 0, sent_v2 = '''', screen_v2 = '''', closed_v2 = [], arrived_v2 = '''', peer_closed_v2 = False, reset_v2 = False,
    edge_v2 = False\<rparr>"
  by (simp add: fresh_v2_def new_client_v2_def setup_signalfd_v2_def Let_def)

theorem v2_client_misses_close_witness:
  "running_v2 (handle_server_message_v2 ((handle_server_message_v2 fresh_v2)\<lparr>peer_closed_v2 := True, edge_v2 := False\<rparr>))"
proof -
  let ?c0 = "handle_server_message_v2 fresh_v2"
  have c0: "caught_up ?c0" by (auto simp: caught_up_def fresh_v2 intro!: exI[of _ fresh_v2])
  have f: "\<not> peer_closed_v2 ?c0" "\<not> reset_v2 ?c0" "running_v2 ?c0" "errno_v2 ?c0 = EAGAIN"
    unfolding handle_server_message_v2_def read_sock.simps[of fresh_v2] by (simp_all add: recv_sock_def fresh_v2 Let_def)
  have "undisturbed ?c0 (?c0\<lparr>peer_closed_v2 := True, edge_v2 := True\<rparr>)"
    using server_closes[OF f(1,2)] f(4) by (simp add: undisturbed_def EINTR_def EAGAIN_def)
  then have "reachable caught_up undisturbed (?c0\<lparr>peer_closed_v2 := True, edge_v2 := True\<rparr>)"
    by (rule reachable_step[of caught_up undisturbed, OF reachable_init[of caught_up, OF c0]])
  from v2_client_misses_close[OF this, THEN conjunct2, THEN conjunct1] show ?thesis using f by simp
qed

section \<open>Typing\<close>

definition line_ok_v2 :: "string \<Rightarrow> bool" where
  "line_ok_v2 l \<longleftrightarrow> l \<noteq> '''' \<and> l \<noteq> ''exit'' \<and> list_all is_print l"

text \<open>Typing a line whose \<open>send\<close> takes all of it.\<close>

definition typed_v2 :: "string \<Rightarrow> key_input" where
  "typed_v2 l = map (\<lambda>ch. (ch, None, 0)) l @ [(NEWLINE, Some (Suc (length l)), 0)]"

lemma type_chars_v2:
  assumes "list_all is_print l"
  shows "handle_keyboard_v2 (map (\<lambda>ch. (ch, None, 0)) l @ ks) eof c =
    handle_keyboard_v2 ks eof (c\<lparr>line_v2 := line_v2 c @ l, screen_v2 := screen_v2 c @ l\<rparr>)"
  using assms
proof (induction l arbitrary: c)
  case (Cons ch l)
  then show ?case using is_print_not_control[of ch] by (simp add: key_v2_def show_v2_def)
qed simp

lemma type_line_v2:
  assumes "line_ok_v2 l" "line_v2 c = ''''"
  shows "\<exists>c'. handle_keyboard_v2 (typed_v2 l @ ks) eof c = handle_keyboard_v2 ks eof c' \<and> line_v2 c' = '''' \<and>
    sent_v2 c' = sent_v2 c @ l @ [NEWLINE] \<and> running_v2 c' = running_v2 c"
  using assms type_chars_v2[of l "(NEWLINE, Some (Suc (length l)), 0) # ks" eof c]
  by (auto simp: typed_v2_def line_ok_v2_def key_v2_def enter_line_v2_def Let_def)

lemma type_lines_v2:
  assumes "list_all line_ok_v2 lines" "line_v2 c = ''''"
  shows "sent_v2 (handle_keyboard_v2 (concat (map typed_v2 lines)) eof c) = sent_v2 c @ concat (map (\<lambda>l. l @ [NL]) lines)"
  using assms
proof (induction lines arbitrary: c)
  case (Cons l lines)
  from type_line_v2[of l c "concat (map typed_v2 lines)" eof] Cons.prems obtain c' where
    "handle_keyboard_v2 (typed_v2 l @ concat (map typed_v2 lines)) eof c = handle_keyboard_v2 (concat (map typed_v2 lines)) eof c'"
    "line_v2 c' = ''''" "sent_v2 c' = sent_v2 c @ l @ [NEWLINE]" by auto
  then show ?case using Cons.IH[of c'] Cons.prems by (simp add: NEWLINE_def)
qed simp

lemma print_no_newline: "list_all is_print l \<Longrightarrow> NL \<notin> set l"
  by (auto simp: list_all_iff is_print_def)

text \<open>From the keyboard of version 2 to its server: the lines the user types are, one by one and in order,
  the lines the server handles, however the network cuts what the client has sent.\<close>

theorem v2_typed_lines_arrive:
  assumes "list_all (\<lambda>l. l \<noteq> '''' \<and> l \<noteq> ''exit'' \<and> list_all is_print l) lines"
    and "line_v2 c = ''''" "sent_v2 c = ''''" "in_buf2 (heap2 s cid) = ''''"
    and "concat chunks = sent_v2 (handle_keyboard_v2 (concat (map typed_v2 lines)) False c)"
  shows "handle_read2 cid (map Received chunks) s = fold (\<lambda>l. handle_line cid (l @ [NL])) lines s"
proof -
  have ok: "list_all line_ok_v2 lines" "list_all (\<lambda>l. NL \<notin> set l) lines"
    using assms(1) print_no_newline by (auto simp: list_all_iff line_ok_v2_def)
  have cat: "in_buf2 (heap2 s cid) @ concat chunks = concat (map (\<lambda>l. l @ [NL]) lines) @ ''''"
    using type_lines_v2[OF ok(1) assms(2)] assms(3-5) by simp
  have "in_buf2 (heap2 (handle_lines cid lines s) cid) = ''''"
    using assms(4) by (induction lines arbitrary: s) (simp_all add: handle_lines_def)
  then have "set_in_buf cid '''' (handle_lines cid lines s) = handle_lines cid lines s"
    by (simp add: upd2_def fun_upd_idem)
  then show ?thesis using handle_read_all[OF ok(2) _ _ cat] assms(4) by (simp add: handle_lines_def)
qed

theorem v2_typed_lines_arrive_witness:
  "tasks2 (handle_read2 0 (map Received [''h'', ''i'' @ [NL]]) two_active) = [(0, ''hi'' @ [NL, NL])]"
proof -
  have "concat [''h'', ''i'' @ [NL]] = sent_v2 (handle_keyboard_v2 (concat (map typed_v2 [''hi''])) False fresh_v2)"
    using type_lines_v2[of "[''hi'']" fresh_v2 False] by (simp add: line_ok_v2_def is_print_def fresh_v2)
  from v2_typed_lines_arrive[OF _ _ _ _ this, of two_active 0] show ?thesis
    using two_active_fields by (simp add: fresh_v2 is_print_def new_connection2_def handle_line_def push_task2_def)
qed

end
