(* ===== verification/ChatClientV2.thy ===== *)
theory ChatClientV2
  imports ClientV2Props
begin

text \<open>
  The first client of version 2, \<open>v2/chat_client.cpp\<close>: a thread prints what arrives, the main thread
  reads the keyboard, and both share the line, the prompt and a flag. Each holds the mutex of the output for a whole
  round, so a run is a sequence of rounds. The client sends its name once and does not look at the answer. The
  names carry the suffix \<open>C2\<close>.
\<close>

section \<open>The client\<close>

definition setup_client_socketC2 :: "int \<Rightarrow> bool \<Rightarrow> bool \<Rightarrow> int \<times> int list" where
  "setup_client_socketC2 fd address_ok connect_ok =
     (if fd < 0 then (-1, [])
      else if \<not> address_ok then (-1, [fd])
      else if \<not> connect_ok then (-1, [fd])
      else (fd, []))"

text \<open>\<open>receivingC2\<close> and \<open>typingC2\<close> tell whether the loops of the two threads have not ended yet.\<close>

record client_C2 =
  promptC2 :: string
  current_lineC2 :: string
  keep_runningC2 :: bool
  sentC2 :: string
  screenC2 :: string
  receivingC2 :: bool
  typingC2 :: bool

definition showC2 :: "string \<Rightarrow> client_C2 \<Rightarrow> client_C2" where
  "showC2 s c = c\<lparr>screenC2 := screenC2 c @ s\<rparr>"

text \<open>A round of the receiving thread from one \<open>recv\<close> to the next: a result of at most 4095 bytes, empty for the end or an error. \<open>back\<close> of an
  empty string is undefined: None.\<close>

definition receive_roundC2 :: "string \<Rightarrow> client_C2 \<Rightarrow> client_C2 option" where
  "receive_roundC2 buffer c =
     (if \<not> receivingC2 c then Some c
      else if buffer \<noteq> '''' then
        (let received_data = c_string buffer; c1 = showC2 (ERASE @ received_data) c
         in if received_data = '''' then None
            else let c2 = (if last received_data \<noteq> NEWLINE then showC2 [NEWLINE] c1 else c1)
                 in Some ((showC2 (promptC2 c2 @ current_lineC2 c2) c2)\<lparr>receivingC2 := keep_runningC2 c2\<rparr>))
      else let c1 = (if keep_runningC2 c
                     then (showC2 (ERASE @ ''Server connection lost!'' @ [NEWLINE]) c)\<lparr>keep_runningC2 := False\<rparr> else c)
           in Some (c1\<lparr>receivingC2 := False\<rparr>))"

text \<open>One key of the main thread; None is a \<open>read\<close> that fails or finds the end, \<open>r\<close> what \<open>send\<close> answers.\<close>

definition key_roundC2 :: "char option \<Rightarrow> nat option \<Rightarrow> client_C2 \<Rightarrow> client_C2" where
  "key_roundC2 k r c =
     (if \<not> typingC2 c then c
      else if k = None \<or> \<not> keep_runningC2 c then c\<lparr>typingC2 := False\<rparr>
      else let ch = the k in
        if ch = NEWLINE \<or> ch = RETURN then
          (if current_lineC2 c \<noteq> '''' then
             (if current_lineC2 c = ''exit'' then c\<lparr>typingC2 := False\<rparr>
              else let c1 = showC2 (ERASE @ promptC2 c @ current_lineC2 c @ [NEWLINE]) c;
                       message_to_send = current_lineC2 c1 @ [NEWLINE]
                   in case r of
                       None \<Rightarrow> c1\<lparr>typingC2 := False\<rparr>
                     | Some n \<Rightarrow> showC2 (promptC2 c1) (c1\<lparr>sentC2 := sentC2 c1 @ take n message_to_send, current_lineC2 := ''''\<rparr>))
           else c)
        else if ch = CHR 0x7F \<or> ch = CHR 0x08 then
          (if current_lineC2 c \<noteq> ''''
           then let c1 = c\<lparr>current_lineC2 := butlast (current_lineC2 c)\<rparr> in showC2 (ERASE @ promptC2 c1 @ current_lineC2 c1) c1
           else c)
        else if is_print ch then
          (let c1 = c\<lparr>current_lineC2 := current_lineC2 c @ [ch]\<rparr> in showC2 (ERASE @ promptC2 c1 @ current_lineC2 c1) c1)
        else c)"

datatype eventC2 = TypedC2 "char option" "nat option" | ReceivedC2 string

text \<open>The rounds in the order in which they happen.\<close>

fun run_C2 :: "eventC2 list \<Rightarrow> client_C2 \<Rightarrow> client_C2 option" where
  "run_C2 [] c = Some c"
| "run_C2 (TypedC2 k r # es) c = run_C2 es (key_roundC2 k r c)"
| "run_C2 (ReceivedC2 buffer # es) c =
     (case receive_roundC2 buffer c of None \<Rightarrow> None | Some c1 \<Rightarrow> run_C2 es c1)"

text \<open>The start of the loops: the name has been sent, and is in the prompt.\<close>

definition start_C2 :: "string \<Rightarrow> string \<Rightarrow> client_C2" where
  "start_C2 welcome uname =
     (let p = ''['' @ uname @ '']: ''
      in \<lparr>promptC2 = p, current_lineC2 = '''', keep_runningC2 = True, sentC2 = uname @ [NEWLINE],
          screenC2 = c_string welcome @ ''Connected!! Type '' @ [CHR 0x27] @ ''exit'' @ [CHR 0x27] @ '' to quit.'' @ [NEWLINE] @ p,
          receivingC2 = True, typingC2 = True\<rparr>)"

text \<open>The end: the receiving thread finds the socket shut down and says nothing.\<close>

definition finish_C2 :: "client_C2 \<Rightarrow> client_C2" where
  "finish_C2 c = showC2 ([NEWLINE] @ ''Disconnected!!'' @ [NEWLINE]) (c\<lparr>keep_runningC2 := False, receivingC2 := False\<rparr>)"

record envC2 =
  socketC2 :: int
  address_okC2 :: bool
  connect_okC2 :: bool
  welcomeC2 :: string
  usernameC2 :: string
  name_sentC2 :: bool
  eventsC2 :: "eventC2 list"

text \<open>\<open>main\<close>: its exit code and the descriptors it has closed, or the client that still runs, or undefined behaviour.\<close>

datatype outcomeC2 = ExitsC2 int "int list" "client_C2 option" | RunsC2 client_C2 | UndefinedC2

definition main_C2 :: "envC2 \<Rightarrow> outcomeC2" where
  "main_C2 env =
     (let (sock_fd, closed_fds) = setup_client_socketC2 (socketC2 env) (address_okC2 env) (connect_okC2 env)
      in if sock_fd < 0 then ExitsC2 1 closed_fds None
         else if welcomeC2 env = '''' then ExitsC2 1 [sock_fd] None
         else if usernameC2 env = '''' then ExitsC2 1 [sock_fd] None
         else if \<not> name_sentC2 env then ExitsC2 1 [sock_fd] None
         else case run_C2 (eventsC2 env) (start_C2 (welcomeC2 env) (usernameC2 env)) of
             None \<Rightarrow> UndefinedC2
           | Some c \<Rightarrow> if typingC2 c then RunsC2 c else ExitsC2 0 [sock_fd] (Some (finish_C2 c)))"

section \<open>What arrives does not change what is sent\<close>

definition sound_bytes :: "string \<Rightarrow> bool" where
  "sound_bytes bs \<longleftrightarrow> bs \<noteq> '''' \<and> hd bs \<noteq> CHR 0x00"

lemma c_string_sound: "sound_bytes bs \<Longrightarrow> c_string bs \<noteq> ''''"
  by (cases bs) (auto simp: sound_bytes_def c_string_def)

lemma receive_round_sound:
  assumes "sound_bytes buffer" "keep_runningC2 c"
  shows "\<exists>s. receive_roundC2 buffer c = Some (c\<lparr>screenC2 := s\<rparr>)"
  using assms c_string_sound[OF assms(1)] unfolding receive_roundC2_def
  by (cases c) (auto simp: sound_bytes_def Let_def showC2_def)

lemma key_round_screen: "\<exists>s'. key_roundC2 k r (c\<lparr>screenC2 := s\<rparr>) = (key_roundC2 k r c)\<lparr>screenC2 := s'\<rparr>"
  unfolding key_roundC2_def by (cases c) (auto simp: Let_def showC2_def split: option.split)

lemma key_round_keep [simp]: "keep_runningC2 (key_roundC2 k r c) = keep_runningC2 c"
  by (auto simp: key_roundC2_def Let_def showC2_def split: option.split)

fun typed_part :: "eventC2 list \<Rightarrow> (char option \<times> nat option) list" where
  "typed_part [] = []"
| "typed_part (TypedC2 k r # es) = (k, r) # typed_part es"
| "typed_part (ReceivedC2 b # es) = typed_part es"

fun chunks_sound :: "eventC2 list \<Rightarrow> bool" where
  "chunks_sound [] = True"
| "chunks_sound (TypedC2 k r # es) = chunks_sound es"
| "chunks_sound (ReceivedC2 b # es) = (b \<noteq> '''' \<and> hd b \<noteq> CHR 0x00 \<and> chunks_sound es)"

lemma keys_screen: "\<exists>s'. fold (\<lambda>(k, r). key_roundC2 k r) ks (c\<lparr>screenC2 := s\<rparr>) = (fold (\<lambda>(k, r). key_roundC2 k r) ks c)\<lparr>screenC2 := s'\<rparr>"
proof (induction ks arbitrary: c s)
  case Nil
  show ?case by (rule exI[of _ s]) simp
next
  case (Cons k ks)
  obtain a r where k: "k = (a, r)" by (cases k)
  obtain s1 where "key_roundC2 a r (c\<lparr>screenC2 := s\<rparr>) = (key_roundC2 a r c)\<lparr>screenC2 := s1\<rparr>" using key_round_screen by blast
  then show ?case using Cons.IH[of s1 "key_roundC2 a r c"] by (simp add: k)
qed

lemma run_typed:
  assumes "chunks_sound es" "keep_runningC2 c"
  shows "\<exists>s. run_C2 es c = Some ((fold (\<lambda>(k, r). key_roundC2 k r) (typed_part es) c)\<lparr>screenC2 := s\<rparr>)"
  using assms
proof (induction es c rule: run_C2.induct)
  case (1 c)
  show ?case by (rule exI[of _ "screenC2 c"]) simp
next
  case (2 k r es c)
  then show ?case by simp
next
  case (3 buffer es c)
  obtain s where s: "receive_roundC2 buffer c = Some (c\<lparr>screenC2 := s\<rparr>)"
    using receive_round_sound[of buffer c] 3(2,3) by (auto simp: sound_bytes_def)
  obtain s1 where "run_C2 es (c\<lparr>screenC2 := s\<rparr>) = Some ((fold (\<lambda>(k, r). key_roundC2 k r) (typed_part es) (c\<lparr>screenC2 := s\<rparr>))\<lparr>screenC2 := s1\<rparr>)"
    using 3(1)[OF s] 3(2,3) by auto
  moreover obtain s2 where "fold (\<lambda>(k, r). key_roundC2 k r) (typed_part es) (c\<lparr>screenC2 := s\<rparr>) =
      (fold (\<lambda>(k, r). key_roundC2 k r) (typed_part es) c)\<lparr>screenC2 := s2\<rparr>" using keys_screen by blast
  ultimately show ?case using s by auto
qed

section \<open>A name that is refused\<close>

text \<open>The keys of a line, if the \<open>send\<close> at its end takes all of it.\<close>

definition line_keysC2 :: "string \<Rightarrow> (char option \<times> nat option) list" where
  "line_keysC2 l = map (\<lambda>ch. (Some ch, None)) l @ [(Some NEWLINE, Some (Suc (length l)))]"

lemma type_charsC2:
  assumes "list_all is_print l" "typingC2 c" "keep_runningC2 c"
  shows "\<exists>s. fold (\<lambda>(k, r). key_roundC2 k r) (map (\<lambda>ch. (Some ch, None)) l) c =
    c\<lparr>current_lineC2 := current_lineC2 c @ l, screenC2 := s\<rparr>"
  using assms
proof (induction l arbitrary: c)
  case Nil
  show ?case by (rule exI[of _ "screenC2 c"]) simp
next
  case (Cons ch l)
  obtain s where "key_roundC2 (Some ch) None c = c\<lparr>current_lineC2 := current_lineC2 c @ [ch], screenC2 := s\<rparr>"
    using Cons.prems is_print_not_control[of ch] by (simp add: key_roundC2_def showC2_def Let_def)
  then show ?case using Cons.IH[of "c\<lparr>current_lineC2 := current_lineC2 c @ [ch], screenC2 := s\<rparr>"] Cons.prems by auto
qed

lemma type_lineC2:
  assumes "line_ok_v2 l" "typingC2 c" "keep_runningC2 c" "current_lineC2 c = ''''"
  shows "\<exists>s. fold (\<lambda>(k, r). key_roundC2 k r) (line_keysC2 l) c = c\<lparr>sentC2 := sentC2 c @ l @ [NEWLINE], screenC2 := s\<rparr>"
proof -
  have "list_all is_print l" "l \<noteq> ''''" "l \<noteq> ''exit''" using assms(1) by (simp_all add: line_ok_v2_def)
  moreover from this obtain s where "fold (\<lambda>(k, r). key_roundC2 k r) (map (\<lambda>ch. (Some ch, None)) l) c =
    c\<lparr>current_lineC2 := l, screenC2 := s\<rparr>" using type_charsC2[OF _ assms(2,3)] assms(4) by fastforce
  ultimately show ?thesis using assms(2-4)
    by (cases c) (simp add: line_keysC2_def key_roundC2_def showC2_def Let_def)
qed

lemma type_linesC2:
  assumes "list_all line_ok_v2 lines" "typingC2 c" "keep_runningC2 c" "current_lineC2 c = ''''"
  shows "\<exists>s. fold (\<lambda>(k, r). key_roundC2 k r) (concat (map line_keysC2 lines)) c =
    c\<lparr>sentC2 := sentC2 c @ concat (map (\<lambda>l. l @ [NL]) lines), screenC2 := s\<rparr>"
  using assms
proof (induction lines arbitrary: c)
  case Nil
  show ?case by (rule exI[of _ "screenC2 c"]) simp
next
  case (Cons l lines)
  then obtain s where "fold (\<lambda>(k, r). key_roundC2 k r) (line_keysC2 l) c = c\<lparr>sentC2 := sentC2 c @ l @ [NEWLINE], screenC2 := s\<rparr>"
    using type_lineC2[of l c] by auto
  then show ?case using Cons.IH[of "c\<lparr>sentC2 := sentC2 c @ l @ [NEWLINE], screenC2 := s\<rparr>"] Cons.prems
    by (auto simp: NEWLINE_def)
qed

text \<open>The server's side: a name that is taken, another line, and more.\<close>

lemma refused_then_named:
  assumes "state2 (heap2 s cid) = AWAITING_USERNAME" "taken \<in> set (usernames2 s)" "l \<notin> set (usernames2 s)" "l \<noteq> ''''"
  defines "s1 \<equiv> handle_line cid (l @ [NL]) (handle_line cid (taken @ [NL]) s)"
  shows "state2 (heap2 s1 cid) = ACTIVE" "username2 (heap2 s1 cid) = l" "tasks2 s1 = tasks2 s" "in_buf2 (heap2 s1 cid) = in_buf2 (heap2 s cid)"
  unfolding s1_def using assms(1-4)
  by (simp_all add: handle_line_def send_now_def notify_loop_def queue_broadcast_message2_def Let_def)

lemma named_tasks:
  assumes "state2 (heap2 s cid) = ACTIVE"
  shows "tasks2 (handle_lines cid ls s) = tasks2 s @ map (\<lambda>l. (cid, l @ [NL, NL])) ls \<and> heap2 (handle_lines cid ls s) = heap2 s"
  using assms
proof (induction ls arbitrary: s)
  case (Cons l ls)
  have "handle_line cid (l @ [NL]) s = push_task2 cid (l @ [NL, NL]) s" using Cons.prems by (simp add: handle_line_def)
  then show ?case using Cons.IH[of "push_task2 cid (l @ [NL, NL]) s"] Cons.prems by (simp add: handle_lines_def push_task2_def)
qed (simp add: handle_lines_def)

text \<open>C37: The first client of version 2 does not look at the answer to its name. If the name is taken, the first line
  the user types becomes the name for the server, and only the lines after it are chat messages, while
  the prompt goes on to show the refused name. This holds whatever is received in between, in whatever
  chunks, as long as no chunk starts with a zero byte (which would be undefined behaviour), and however the
  network cuts what is sent.\<close>

theorem v2_refused_name_takes_line:
  assumes "list_all (\<lambda>l. l \<noteq> '''' \<and> l \<noteq> ''exit'' \<and> list_all is_print l) (first # lines)" "NL \<notin> set taken"
    and "typed_part events = concat (map line_keysC2 (first # lines))" "chunks_sound events"
    and "state2 (heap2 s cid) = AWAITING_USERNAME" "in_buf2 (heap2 s cid) = ''''"
    and "taken \<in> set (usernames2 s)" "first \<notin> set (usernames2 s)"
  shows "\<exists>c. run_C2 events (start_C2 welcome taken) = Some c \<and> promptC2 c = ''['' @ taken @ '']: '' \<and>
    (\<forall>chunks. concat chunks = sentC2 c \<longrightarrow>
      username2 (heap2 (handle_read2 cid (map Received chunks) s) cid) = first \<and>
      tasks2 (handle_read2 cid (map Received chunks) s) = tasks2 s @ map (\<lambda>l. (cid, l @ [NL, NL])) lines)"
proof -
  let ?c0 = "start_C2 welcome taken" and ?ls = "taken # first # lines"
  have ok: "list_all line_ok_v2 (first # lines)" "list_all (\<lambda>l. NL \<notin> set l) ?ls"
    using assms(1,2) print_no_newline by (auto simp: list_all_iff line_ok_v2_def)
  have c0: "typingC2 ?c0" "keep_runningC2 ?c0" "current_lineC2 ?c0 = ''''" "sentC2 ?c0 = taken @ [NL]" "promptC2 ?c0 = ''['' @ taken @ '']: ''"
    by (simp_all add: start_C2_def NEWLINE_def Let_def)
  from run_typed[OF assms(4) c0(2)] type_linesC2[OF ok(1) c0(1-3)] obtain s' where
    run: "run_C2 events ?c0 = Some (?c0\<lparr>sentC2 := concat (map (\<lambda>l. l @ [NL]) ?ls), screenC2 := s'\<rparr>)"
    using assms(3) c0(4) by auto
  have "username2 (heap2 (handle_read2 cid (map Received chunks) s) cid) = first \<and>
      tasks2 (handle_read2 cid (map Received chunks) s) = tasks2 s @ map (\<lambda>l. (cid, l @ [NL, NL])) lines"
    if "concat chunks = concat (map (\<lambda>l. l @ [NL]) ?ls)" for chunks
  proof -
    let ?s1 = "handle_line cid (first @ [NL]) (handle_line cid (taken @ [NL]) s)"
    have "first \<noteq> ''''" using assms(1) by simp
    note named = refused_then_named[OF assms(5,7,8) this]
    have "handle_read2 cid (map Received chunks) s = set_in_buf cid '''' (handle_lines cid ?ls s)"
      by (rule handle_read_all[OF ok(2)]) (use assms(6) that in simp_all)
    also have "handle_lines cid ?ls s = handle_lines cid lines ?s1" by (simp add: handle_lines_def)
    finally show ?thesis using named_tasks[OF named(1), of lines] named(2,3) by simp
  qed
  then show ?thesis using run c0(5) by (intro exI[of _ "?c0\<lparr>sentC2 := concat (map (\<lambda>l. l @ [NL]) ?ls), screenC2 := s'\<rparr>"]) simp
qed

theorem v2_refused_name_takes_line_witness:
  "\<exists>c. run_C2 (ReceivedC2 ''no'' # [TypedC2 (Some CHR ''h'') None, TypedC2 (Some CHR ''i'') None, TypedC2 (Some NEWLINE) (Some 3)])
      (start_C2 ''hello'' ''al'') = Some c \<and> promptC2 c = ''[al]: '' \<and>
    username2 (heap2 (handle_read2 1 (map Received [sentC2 c]) (handle_line 0 (''al'' @ [NL]) two_accepted)) 1) = ''hi''"
proof -
  let ?es = "ReceivedC2 ''no'' # [TypedC2 (Some CHR ''h'') None, TypedC2 (Some CHR ''i'') None, TypedC2 (Some NEWLINE) (Some 3)]"
  let ?s = "handle_line 0 (''al'' @ [NL]) two_accepted"
  have s: "state2 (heap2 ?s 1) = AWAITING_USERNAME" "in_buf2 (heap2 ?s 1) = ''''" "usernames2 ?s = [''al'']"
    using two_accepted_fields
    by (simp_all add: handle_line_def send_now_def new_connection2_def Let_def notify_loop_def queue_broadcast_message2_def)
  have "\<exists>c. run_C2 ?es (start_C2 ''hello'' ''al'') = Some c \<and> promptC2 c = ''['' @ ''al'' @ '']: '' \<and>
    (\<forall>chunks. concat chunks = sentC2 c \<longrightarrow> username2 (heap2 (handle_read2 1 (map Received chunks) ?s) 1) = ''hi'' \<and>
      tasks2 (handle_read2 1 (map Received chunks) ?s) = tasks2 ?s @ map (\<lambda>l. (1, l @ [NL, NL])) [])"
    by (rule v2_refused_name_takes_line) (use s in \<open>simp_all add: line_keysC2_def is_print_def\<close>)
  then obtain c where c: "run_C2 ?es (start_C2 ''hello'' ''al'') = Some c" "promptC2 c = ''[al]: ''"
    "\<forall>chunks. concat chunks = sentC2 c \<longrightarrow> username2 (heap2 (handle_read2 1 (map Received chunks) ?s) 1) = ''hi''" by auto
  show ?thesis by (rule exI[of _ c]) (use c(1,2) c(3)[rule_format, of "[sentC2 c]"] in simp)
qed

end
