(* ===== verification/LoadBotV3.thy ===== *)
theory LoadBotV3
  imports LoadBot ClientV3Props
begin

text \<open>
  The load generator of version 3 (\<open>v3/load_bot.cpp\<close>). It waits for the welcome, sends its name, looks for the
  acceptance among the next twenty messages and then sends one message over and over. The arguments of the program, the
  answers of the calls and the server's bytes are inputs, as for the bot of version 4. The names carry the suffix \<open>B3\<close>.
\<close>

section \<open>Messages\<close>

definition format_message :: "string \<Rightarrow> byte list" where
  "format_message msg =
     (let len = word_of_nat (length msg) :: u32; net_len = htonl_bytes len; packet = []; packet1 = packet @ net_len
      in packet1 @ raw msg)"

text \<open>\<open>stream\<close> is what the server is still going to send; \<open>recv\<close> with \<open>MSG_WAITALL\<close> returns less than it was asked for only at
  the end. An error and an empty message both give the empty string.\<close>

definition recv_message :: "byte list \<Rightarrow> byte list \<times> byte list" where
  "recv_message stream =
     (let header_buf = take 4 stream; s1 = drop 4 stream
      in if length header_buf \<noteq> 4 then ([], s1)
         else let payload_len = unat (ntohl_bytes header_buf)
              in if payload_len > 8192 then ([], s1)
                 else let payload_buf = take payload_len s1; s2 = drop payload_len s1
                      in if length payload_buf \<noteq> payload_len then ([], s2) else (payload_buf, s2))"

definition get_server_ipB3 :: "string option \<Rightarrow> string" where
  "get_server_ipB3 ip = (case ip of None \<Rightarrow> ''127.0.0.1'' | Some s \<Rightarrow> s)"

text \<open>The thread that throws away what arrives, for the results of its \<open>recv\<close> calls: how many it has made.\<close>

fun discard_loop :: "int list \<Rightarrow> nat" where
  "discard_loop [] = 0"
| "discard_loop (n # ns) = (if n \<le> 0 then 1 else Suc (discard_loop ns))"

section \<open>The program\<close>

definition bot_accepted :: "byte list \<Rightarrow> bool" where
  "bot_accepted msg \<longleftrightarrow> contains ''Username accepted'' (plain_text msg)"

text \<open>The login, with the number of messages it may still look at.\<close>

fun await_login :: "nat \<Rightarrow> byte list \<Rightarrow> bool \<times> byte list" where
  "await_login 0 stream = (False, stream)"
| "await_login (Suc max_retries) stream =
     (let (msg, stream1) = recv_message stream
      in if msg = [] then (False, stream1)
         else if bot_accepted msg then (True, stream1)
         else await_login max_retries stream1)"

text \<open>The endless loop, for the answers of its \<open>send\<close> calls and the jitter; a \<open>send\<close> that takes less than
  it was given counts as success.\<close>

fun spam_loop :: "byte list \<Rightarrow> int \<Rightarrow> (int \<times> int) list \<Rightarrow> byte list \<times> int list" where
  "spam_loop spam_message interval_ms [] = ([], [])"
| "spam_loop spam_message interval_ms ((r, variation) # rounds) =
     (if r < 0 then ([], [])
      else let actual_sleep = interval_ms + variation;
               actual_sleep1 = (if actual_sleep < 10 then 10 else actual_sleep);
               (bs, pauses) = spam_loop spam_message interval_ms rounds
           in (take (nat r) spam_message @ bs, actual_sleep1 # pauses))"

record envB3 =
  argsB3 :: "string list"
  stoiB3 :: "string \<Rightarrow> int option"
  socketB3 :: int
  addrinfo_okB3 :: bool
  connect_okB3 :: bool
  name_sendB3 :: int
  streamB3 :: "byte list"
  roundsB3 :: "(int \<times> int) list"

text \<open>\<open>main\<close>: the exit code (None while it still sends), what it has sent, its pauses.\<close>

definition bot_main_v3 :: "envB3 \<Rightarrow> int option \<times> byte list \<times> int list" where
  "bot_main_v3 env =
     (let argc = length (argsB3 env)
      in if argc < 2 \<or> argc > 3 then (Some 1, [], [])
         else let bot_name = argsB3 env ! 1;
                  interval_ms = (if argc \<ge> 3 then (case stoiB3 env (argsB3 env ! 2) of None \<Rightarrow> 1000 | Some i \<Rightarrow> i) else 1000)
              in if socketB3 env < 0 \<or> \<not> addrinfo_okB3 env \<or> \<not> connect_okB3 env then (Some 1, [], [])
                 else let (welcome, s1) = recv_message (streamB3 env)
                      in if welcome = [] then (Some 1, [], [])
                         else if name_sendB3 env < 0 then (Some 1, [], [])
                         else let sent_name = take (nat (name_sendB3 env)) (format_message bot_name);
                                  (logged_in, s2) = await_login 20 s1
                              in if \<not> logged_in then (Some 1, sent_name, [])
                                 else let (bs, pauses) = spam_loop (format_message (''Hello from bot '' @ bot_name @ ''!!'')) interval_ms (roundsB3 env)
                                      in (if length pauses < length (roundsB3 env) then Some 0 else None, sent_name @ bs, pauses))"

section \<open>Logging in\<close>

lemma format_message_frame: "format_message msg = frame (raw msg)"
  by (simp add: format_message_def frame_def Let_def)

definition short_message :: "byte list \<Rightarrow> bool" where
  "short_message m \<longleftrightarrow> m \<noteq> [] \<and> length m \<le> 8192"

lemma recv_message_frame:
  assumes "short_message m"
  shows "recv_message (frame m @ rest) = (m, rest)"
proof -
  have "unat (word_of_nat (length m) :: u32) = length m" using assms by (simp add: short_message_def unat_of_nat)
  then show ?thesis using assms by (simp add: recv_message_def frame_def Let_def short_message_def)
qed

lemma await_login_skips:
  assumes "list_all (\<lambda>m. short_message m \<and> \<not> bot_accepted m) ms" "length ms \<le> n"
  shows "await_login n (concat (map frame ms) @ rest) = await_login (n - length ms) rest"
  using assms
proof (induction ms arbitrary: n)
  case (Cons m ms)
  then obtain k where "n = Suc k" by (cases n) auto
  then show ?case using Cons by (simp add: recv_message_frame short_message_def)
qed simp

lemma spam_whole:
  assumes "list_all (\<lambda>(r, v). r = int (length spam)) rounds"
  shows "spam_loop spam i rounds = (concat (replicate (length rounds) spam), map (\<lambda>(r, v). max 10 (i + v)) rounds)"
  using assms by (induction rounds) (auto simp: Let_def)


definition bot_env_sample :: envB3 where
  "bot_env_sample = \<lparr>argsB3 = [''bot'', ''b''], stoiB3 = (\<lambda>_. None), socketB3 = 3, addrinfo_okB3 = True, connect_okB3 = True,
     name_sendB3 = 5, streamB3 = concat (map frame (raw ''hello'' # replicate 20 (raw ''x''))) @ frame (raw ''Username accepted'') @ [], roundsB3 = []\<rparr>"


end
