(* ===== verification/EndToEnd.thy ===== *)
theory EndToEnd
  imports RateLimit ClientProperties
begin

text \<open>
  Version 4 from one user's keyboard to another user's screen: the sending client, the reactor's read, the
  logic thread, the broadcast through the workers and the receiving client together.
\<close>

section \<open>The reactor reads one packet\<close>

lemma handle_read_one:
  assumes "server_wf sv" "a < length (store sv)" "\<not> closed (conn_at sv a)"
    and "rb_capacity (in_buf (conn_at sv a)) = 8192" "rb_contents (in_buf (conn_at sv a)) = []"
    and "length p \<le> 8188" "data_only (rscript (ksock (conn_at sv a)))" "incoming (rscript (ksock (conn_at sv a))) = frame p"
  obtains m c where "handle_read t a sv = conn_result False [message_event a p] m c a sv" "read_frame (conn_at sv a) c"
proof -
  let ?c = "conn_at sv a"
  have wf: "rb_wf (in_buf ?c)" using assms(1,2) by (simp add: server_wf_def conns_wf_def conn_wf_def)
  have ok: "packet_ok p" using assms(6) by (simp add: packet_ok_def)
  have fit: "list_all (fits (rb_capacity (in_buf ?c))) [p]" using assms(4,6) ok by (simp add: fits_def)
  have inc: "parse_frame (rb_contents (in_buf ?c)) = Incomplete" by (simp add: assms(5) parse_frame_def)
  have "rb_contents (in_buf ?c) @ incoming (rscript (ksock ?c)) @ [] = concat (map frame [p])" using assms(5,8) by simp
  from read_loop_reassembles[OF wf inc fit assms(7) this, of t "metrics sv"] obtain got todo m c where
    r: "[p] = got @ todo" "read_loop t (metrics sv) ?c = (False, got, m, c)"
      "rb_contents (in_buf c) @ [] = concat (map frame todo)" "parse_frame (rb_contents (in_buf c)) = Incomplete"
    by blast
  have "todo = []"
  proof (rule ccontr)
    assume "todo \<noteq> []"
    then have "rb_contents (in_buf c) = frame p" using r(1,3) by (cases got) auto
    then show False using parse_frame_frame[OF ok, of "[]"] r(4) by simp
  qed
  then have "got = [p]" using r(1) by simp
  then show thesis using that[of m c] handle_read_result[OF r(2)] read_loop_spec[OF r(2) wf] by auto
qed

section \<open>The logic thread handles a global message\<close>

lemma logic_round_global:
  assumes "queue (event_queue (server app)) = [message_event a p]" "\<not> closed (conn_at (server app) a)"
    and "session_of a app = Some s" "is_logged_in s" "par pb p = Some (ChatRequest line)" "1 \<le> tokens (refill fl now s)"
  shows "\<exists>q s'. logic_round fl pb now time app =
    BroadcastProto pb (ChatBroadcast (username s) line '''' time) (set_session a s' (app\<lparr>server := (server app)\<lparr>event_queue := q\<rparr>\<rparr>))"
proof -
  let ?q = "(event_queue (server app))\<lparr>queue := []\<rparr>" and ?s = "refill fl now s"
  let ?app = "app\<lparr>server := (server app)\<lparr>event_queue := ?q\<rparr>\<rparr>"
  let ?s' = "?s\<lparr>tokens := fl (tokens ?s - 1)\<rparr>"
  have so: "session_of a ?app = Some s" using assms(3) by (simp add: session_of_def conn_at_def)
  have l: "is_logged_in ?s'" "username ?s' = username s" using assms(4) by (simp_all add: refill_def Let_def)
  have "logic_round fl pb now time app = ProcessEvent fl pb now time (message_event a p) ?app"
    using assms(1) by (simp add: logic_round_def sq_pop_def)
  also have "\<dots> = HandleMessage fl pb now time a p ?app"
    using assms(2) by (simp add: ProcessEvent_def message_event_def conn_at_def)
  also have "\<dots> = HandleGlobalChat pb time ?s' line (set_session a ?s' ?app)"
    using so assms(5,6) by (simp add: HandleMessage_def pb_decode_data_def Let_def)
  also have "\<dots> = BroadcastProto pb (ChatBroadcast (username s) line '''' time) (set_session a ?s' ?app)"
    using l by (simp add: HandleGlobalChat_def)
  finally show ?thesis by blast
qed

section \<open>From keyboard to screen\<close>

text \<open>C1: A line typed in one client is shown by another. If a user in the lobby, logged in and not too fast, types a line,
  and the kernel takes and delivers what is sent in whatever pieces, then after the reactor's read, one round
  of the logic thread and the workers' delivery the stream of every other open connection with room has grown by the bytes of the
  packet, and the client at its end, however these bytes are cut into chunks, hands
  exactly that line, with the sender's name, to its printer. A user who has logged in as \<open>Server\<close>, which is
  a name like any other for the server, is shown as the server itself.\<close>

theorem line_reaches_screen:
  fixes app :: chat_app and pb :: protobuf and line :: string and time :: u64
  assumes "chat_wf app" "chat_open app a" "sessions app a = Some s" "is_logged_in s" "1 \<le> tokens (refill fl now s)"
    and "queue (event_queue (server app)) = []" "global_queue (server app) = []" "task_queue (threadpool (server app)) = []"
    and "rb_capacity (in_buf (conn_at (server app) a)) = 8192" "rb_contents (in_buf (conn_at (server app) a)) = []"
    and "client_running ca" "current_line ca = ''''" "sent ca = []" "my_room ca = ''''"
    and "line \<noteq> ''''" "line \<noteq> ''exit''" "hd line \<noteq> CHR 0x2F" "list_all is_print line"
    and "data_only (rscript (ksock (conn_at (server app) a)))"
    and "incoming (rscript (ksock (conn_at (server app) a))) = sent (input_loop cca (keys 8192 line) ca)"
    and "length (cser cca (ChatRequest line)) \<le> 8188" "par pb (cser cca (ChatRequest line)) = Some (ChatRequest line)"
    and "chat_open app d" "d \<noteq> a" "length (outgoing_queue (conn_at (server app) d)) < MAX_OUTGOING_QUEUE_SIZE"
    and "client_running cb" "rb_wf (in_ring cb)" "rb_contents (in_ring cb) = []" "rb_capacity (in_ring cb) = 8192"
    and "length (ser pb (ChatBroadcast (username s) line '''' time)) \<le> 8188"
    and "cpar ccb (ser pb (ChatBroadcast (username s) line '''' time)) = Some (ChatBroadcast (username s) line '''' time)"
    and "clock_ok t (server app)"
  defines "app1 \<equiv> logic_round fl pb now time (app\<lparr>server := handle_read t a (server app)\<rparr>)"
  defines "sv \<equiv> process_global_queue (server app1)"
  defines "packet \<equiv> pb_encode (ser pb) (ChatBroadcast (username s) line '''' time)"
  shows "server_stream (fold run_task (task_queue (threadpool sv)) sv) d = chat_stream app d @ packet \<and>
    (\<forall>chunks. concat chunks = packet \<and> [] \<notin> set chunks \<longrightarrow>
      (\<exists>cb'. receive_loop ccb (map RxReady chunks) cb = Some cb' \<and> client_running cb' \<and>
        queue (message_queue cb') = queue (message_queue cb) @ [if username s = ''Server'' then ''[Server]: '' @ line else ''['' @ username s @ ''@Lobby]: '' @ line]))"
proof -
  let ?p = "cser cca (ChatRequest line)" and ?m = "ChatBroadcast (username s) line '''' time"
  let ?pkt = "pb_encode (ser pb) ?m" and ?sv0 = "server app" and ?rd = "app\<lparr>server := handle_read t a (server app)\<rparr>"
  have wf: "server_wf ?sv0" using assms(1) by (simp add: chat_wf_def)
  have a: "a < length (store ?sv0)" "\<not> closed (conn_at ?sv0 a)" and d: "d < length (store ?sv0)" "\<not> closed (conn_at ?sv0 d)"
    using assms(2,23) by (simp_all add: chat_open_def server_live_def)
  have "incoming (rscript (ksock (conn_at ?sv0 a))) = frame ?p"
    using type_lines[of "[line]" ca cca 8192] assms(11-18,20,21) by (simp add: plain_def line_message_def)
  from handle_read_one[OF wf a assms(9,10,21,19) this, of t] obtain m c where
    rd: "handle_read t a ?sv0 = conn_result False [message_event a ?p] m c a ?sv0" "read_frame (conn_at ?sv0 a) c" by blast
  have f: "global_queue (server ?rd) = []" "task_queue (threadpool (server ?rd)) = []" "queue (event_queue (server ?rd)) = [message_event a ?p]"
    "conn_at (server ?rd) d = conn_at ?sv0 d" "conn_at (server ?rd) a = c" "length (store (server ?rd)) = length (store ?sv0)"
    using assms(6-8,24) a(1) by (simp_all add: rd(1) conn_result_def push_event_def sq_push_def conn_at_def)
  have "session_of a ?rd = Some s"
    using assms(3) rd(2) f(5) a(1) by (auto simp: session_of_def sessions_def nconns_def read_frame_def)
  from logic_round_global[of ?rd a ?p s pb line fl now time, OF f(3) _ this assms(4,22,5)] f(5) rd(2) a(2) obtain q s' where
    app1: "app1 = BroadcastProto pb ?m (set_session a s' (?rd\<lparr>server := (server ?rd)\<lparr>event_queue := q\<rparr>\<rparr>))"
    unfolding app1_def by (auto simp: read_frame_def)
  have rdwf: "chat_wf ?rd"
    by (rule chat_wf_server_step[OF assms(1)])
      (use handle_read_wf[OF wf a(1) assms(32)] emits_handle_read[OF wf a assms(32)] keeps_data_read[OF wf a(1)] in simp_all)
  have wf1: "server_wf (server app1)" using logic_round_wf[OF rdwf] by (simp add: app1_def chat_wf_def)
  have g: "global_queue (server app1) = [\<lparr>sender_fd = -1, bpayload = ?pkt\<rparr>]" "task_queue (threadpool (server app1)) = []"
    "conn_at (server app1) d = conn_at ?sv0 d" "d < length (store (server app1))"
    using f d(1) assms(24)
    by (simp_all add: app1 BroadcastProto_def Broadcast_def set_session_def upd_conn_def conn_at_def Let_def split: prod.split)
  have "out_stream (conn_at (fold run_task (task_queue (threadpool sv)) sv) d) = out_stream (conn_at (server app1) d) @ ?pkt"
    unfolding sv_def using queued_broadcasts_delivered[OF wf1 _ g(2,4)] g(1,3) d(2) assms(25) by (simp add: take_Cons')
  then have stream: "server_stream (fold run_task (task_queue (threadpool sv)) sv) d = chat_stream app d @ frame (ser pb ?m)"
    using g(3) by (simp add: server_stream_def chat_stream_def pb_encode_frame)
  have "\<exists>cb'. receive_loop ccb (map RxReady chunks) cb = Some cb' \<and> client_running cb' \<and>
      queue (message_queue cb') = queue (message_queue cb) @ [if username s = ''Server'' then ''[Server]: '' @ line else ''['' @ username s @ ''@Lobby]: '' @ line]"
    if cut: "concat chunks = frame (ser pb ?m)" "[] \<notin> set chunks" for chunks
  proof -
    have "list_all (fits (rb_capacity (in_ring cb))) [ser pb ?m]" using assms(29,30) by (simp add: fits_def packet_ok_def)
    moreover have "parse_frame (rb_contents (in_ring cb)) = Incomplete" by (simp add: assms(28) parse_frame_def)
    ultimately obtain cb' where "receive_loop ccb (map RxReady chunks) cb = Some cb'" "client_running cb'"
      "queue (message_queue cb') = queue (message_queue cb) @ shown ccb [ser pb ?m]"
      using receive_loop_reassembles[OF assms(26,27) _ _ _ cut(2), of "[ser pb ?m]" ccb] assms(28,31) cut(1) by auto
    then show ?thesis using assms(31) by (auto simp: shown_def List.map_filter_def message_text_def)
  qed
  moreover have "packet = frame (ser pb ?m)" by (simp add: packet_def pb_encode_frame)
  ultimately show ?thesis using stream by blast
qed

section \<open>Two users\<close>

text \<open>Bob's client has sent one packet, and another client has connected.\<close>

definition two_users :: chat_app where
  "two_users = logic_round (\<lambda>x. x) sample_pb 0 0
     (bob_chat\<lparr>server := accept_one 0 9 sample_socket (kernel_answers (0, [Bytes (frame [1])], []) (server bob_chat))\<rparr>)"

lemma bob_conn:
  fixes c :: "chat_session connection"
  defines "c \<equiv> conn_at (server bob_chat) 0"
  shows "in_buf c = rb_new 8192" "rscript (ksock c) = []" "\<not> closed c" "last_activity c = 0" "sock c = 8"
    "length (store (server bob_chat)) = 1"
proof -
  obtain q where eq: "sample_chat = HandleConnect 0 0
     (fresh_chat\<lparr>server := (accept_one 0 8 sample_socket (server fresh_chat))\<lparr>event_queue := q\<rparr>\<rparr>)"
    using sample_chat_eq by blast
  let ?c0 = "(accepted_conn 8 0 sample_socket)\<lparr>user_data := Some (new_session 0)\<rparr>"
  let ?b = "?c0\<lparr>user_data := Some bob\<rparr>"
  have s: "store (server sample_chat) = [?c0]"
    by (simp add: eq HandleConnect_def set_session_def upd_conn_def accept_one_fields fresh_chat_fields conn_at_def)
  have b: "server bob_chat = SendPreEncoded 0 (pb_encode (ser sample_pb) (LoginResponse True ''Login successful.''))
      (server (set_session 0 bob sample_chat))"
    using sample_chat(5) by (simp add: bob_chat_def HandleLogin_def SendProto_def bob_def Let_def)
  have "store (server (set_session 0 bob sample_chat)) = [?b]"
    by (simp add: set_session_def upd_conn_def s conn_at_def)
  then have at: "conn_at (server (set_session 0 bob sample_chat)) 0 = ?b" "length (store (server (set_session 0 bob sample_chat))) = 1"
    by (simp_all add: conn_at_def)
  then have "send_frame ?b c"
    using SendPreEncoded_sends[of "server (set_session 0 bob sample_chat)" 0]
    by (simp add: c_def b SendPreEncoded_def upd_conn_at sends_def)
  moreover have "rscript (ksock ?b) = []"
    by (simp add: accepted_conn_def add_fd_to_epoll_def new_connection_def sample_socket_def)
  ultimately show "in_buf c = rb_new 8192" "rscript (ksock c) = []" "\<not> closed c" "last_activity c = 0" "sock c = 8"
    by (simp_all add: send_frame_def)
  show "length (store (server bob_chat)) = 1" using at(2) by (simp add: b SendPreEncoded_keeps)
qed

lemma two_users:
  "chat_wf two_users" "chat_open two_users 0" "sessions two_users 0 = Some bob" "chat_open two_users 1"
  "queue (event_queue (server two_users)) = []" "global_queue (server two_users) = []" "task_queue (threadpool (server two_users)) = []"
  "rb_capacity (in_buf (conn_at (server two_users) 0)) = 8192" "rb_contents (in_buf (conn_at (server two_users) 0)) = []"
  "rscript (ksock (conn_at (server two_users) 0)) = [Bytes (frame [1])]"
  "outgoing_queue (conn_at (server two_users) 1) = []" "clock_ok 0 (server two_users)" "chat_stream two_users 1 = []"
proof -
  let ?k = "kernel_answers (0, [Bytes (frame [1])], []) (server bob_chat)"
  let ?sv = "accept_one 0 9 sample_socket ?k"
  let ?app = "bob_chat\<lparr>server := ?sv\<rparr>"
  have k: "server_wf ?k" using bob_chat(1) by (simp add: chat_wf_def kernel_answers_wf)
  have kf: "store ?k = [(conn_at (server bob_chat) 0)\<lparr>ksock := (ksock (conn_at (server bob_chat) 0))\<lparr>rscript := [Bytes (frame [1])]\<rparr>\<rparr>]"
    "event_queue ?k = event_queue (server bob_chat)" "global_queue ?k = []" "task_queue (threadpool ?k) = []"
    using bob_conn bob_chat_queues
    by (cases "store (server bob_chat)"; simp add: kernel_answers_def upd_conn_def conn_at_def)+
  have kconn: "conns_kept sample_chat bob_chat"
    unfolding bob_chat_def using HandleLogin_view(1)[of 0 sample_chat] sample_chat(2) by simp
  have ev: "queue (event_queue (server bob_chat)) = []"
    using conns_kept_pending[OF kconn] sample_chat(4) by (simp add: pending_events_def)
  have fresh: "fresh_fd ?k 9" using bob_conn by (simp add: fresh_fd_def kf conn_at_def)
  have "chat_wf ?app"
  proof (rule chat_wf_server_step[OF bob_chat(1)])
    show "server_wf ?sv" using k fresh by (rule accept_one_wf)
    show "emits_some (server bob_chat) ?sv"
      using emits_some_trans[OF emits_answers[where as = "[(0, [Bytes (frame [1])], [])]"] emits_someI[OF emits_accept]] by simp
    show "keeps_data (server bob_chat) ?sv"
      using keeps_data_trans[OF keeps_data_answers[where as = "[(0, [Bytes (frame [1])], [])]"] keeps_data_accept[where accepted = "[(9, sample_socket)]"]]
      by simp
  qed
  then show "chat_wf two_users" unfolding two_users_def by (rule logic_round_wf)
  have st: "store ?sv = [(conn_at (server bob_chat) 0)\<lparr>ksock := (ksock (conn_at (server bob_chat) 0))\<lparr>rscript := [Bytes (frame [1])]\<rparr>\<rparr>,
      accepted_conn 9 0 sample_socket]" by (simp add: accept_one_fields kf)
  have q: "queue (event_queue ?sv) = [connect_event 1]" using ev by (simp add: accept_one_fields kf sq_push_def)
  let ?pop = "?app\<lparr>server := ?sv\<lparr>event_queue := (event_queue ?sv)\<lparr>queue := []\<rparr>\<rparr>\<rparr>"
  have tu: "two_users = set_session 1 (new_session 0) ?pop"
    using q st by (simp add: two_users_def logic_round_def sq_pop_def ProcessEvent_def connect_event_def conn_at_def HandleConnect_def)
  have srv: "server two_users = upd_conn 1 (\<lambda>m c. (m, c\<lparr>user_data := Some (new_session 0)\<rparr>)) (server ?pop)"
    unfolding tu by (simp add: set_session_def)
  have st2: "store (server two_users) = [(conn_at (server bob_chat) 0)\<lparr>ksock := (ksock (conn_at (server bob_chat) 0))\<lparr>rscript := [Bytes (frame [1])]\<rparr>\<rparr>,
      (accepted_conn 9 0 sample_socket)\<lparr>user_data := Some (new_session 0)\<rparr>]"
    by (simp add: srv upd_conn_def conn_at_def st)
  have at: "conn_at (server two_users) 0 = (conn_at (server bob_chat) 0)\<lparr>ksock := (ksock (conn_at (server bob_chat) 0))\<lparr>rscript := [Bytes (frame [1])]\<rparr>\<rparr>"
    "conn_at (server two_users) 1 = (accepted_conn 9 0 sample_socket)\<lparr>user_data := Some (new_session 0)\<rparr>"
    "length (store (server two_users)) = 2"
    by (simp_all add: conn_at_def[of "server two_users"] st2)
  show "sessions two_users 0 = Some bob"
    using bob_chat(2) bob_chat_queues(3) at(1,3) by (auto simp: sessions_def session_of_def nconns_def split: if_splits)
  show "chat_open two_users 0" "chat_open two_users 1"
    using at bob_conn by (simp_all add: chat_open_def server_live_def)
  show "queue (event_queue (server two_users)) = []" "global_queue (server two_users) = []" "task_queue (threadpool (server two_users)) = []"
    using kf by (simp_all add: srv upd_conn_def accept_one_def Let_def push_event_def upd_shard_def)
  show "rb_capacity (in_buf (conn_at (server two_users) 0)) = 8192" "rb_contents (in_buf (conn_at (server two_users) 0)) = []"
    "rscript (ksock (conn_at (server two_users) 0)) = [Bytes (frame [1])]" "outgoing_queue (conn_at (server two_users) 1) = []"
    using at(1,2) bob_conn rb_wf_new[of 8192] by (simp_all add: rb_capacity_def rb_new_def)
  show "clock_ok 0 (server two_users)"
    using at bob_conn by (auto simp: clock_ok_def less_2_cases_iff)
  show "chat_stream two_users 1 = []"
    using at(2) by (simp add: chat_stream_def server_stream_def out_stream_def accepted_conn_def add_fd_to_epoll_def
        new_connection_def sample_socket_def)
qed

definition hi_codec :: client_codec where
  "hi_codec = \<lparr>cser = \<lambda>_. [1], cpar = \<lambda>_. Some (ChatBroadcast ''bob'' ''hi'' [] 7)\<rparr>"

definition hi_pb :: protobuf where
  "hi_pb = \<lparr>ser = \<lambda>_. [2], par = \<lambda>_. Some (ChatRequest ''hi'')\<rparr>"

theorem line_reaches_screen_witness:
  "let sv = process_global_queue (server (logic_round (\<lambda>x. x) hi_pb 0 7 (two_users\<lparr>server := handle_read 0 0 (server two_users)\<rparr>)));
       bytes = server_stream (fold run_task (task_queue (threadpool sv)) sv) 1
   in \<exists>cb. receive_loop hi_codec [RxReady bytes] (the (new_client True 3)) = Some cb \<and> queue (message_queue cb) = [''[bob@Lobby]: hi'']"
proof -
  let ?c = "the (new_client True 3)"
  have c: "client_running ?c" "current_line ?c = []" "sent ?c = []" "my_room ?c = []" "in_ring ?c = rb_new 8192" "queue (message_queue ?c) = []"
    by (simp_all add: new_client_def setup_client_signalfd_def Let_def sq_new_def)
  have ring: "rb_wf (rb_new 8192) \<and> rb_contents (rb_new 8192) = []" by (rule rb_wf_new) simp
  have room: "1 \<le> tokens (refill (\<lambda>x. x) 0 bob)" by (simp add: refill_def bob_def new_session_def elapsed_seconds_def Let_def)
  have typed: "sent (input_loop hi_codec (keys 8192 ''hi'') ?c) = frame [1]"
    using type_lines[of "[''hi'']" ?c hi_codec 8192] c by (simp add: plain_def is_print_def hi_codec_def)
  let ?sv = "process_global_queue (server (logic_round (\<lambda>x. x) hi_pb 0 7 (two_users\<lparr>server := handle_read 0 0 (server two_users)\<rparr>)))"
  have nonempty: "frame [1] \<noteq> []" "frame [2] \<noteq> []" by (simp_all add: frame_def)
  let ?packet = "pb_encode (ser hi_pb) (ChatBroadcast (username bob) ''hi'' '''' 7)"
  have "server_stream (fold run_task (task_queue (threadpool ?sv)) ?sv) 1 = chat_stream two_users 1 @ ?packet \<and>
    (\<forall>chunks. concat chunks = ?packet \<and> [] \<notin> set chunks \<longrightarrow> (\<exists>cb. receive_loop hi_codec (map RxReady chunks) ?c = Some cb \<and>
       client_running cb \<and> queue (message_queue cb) = queue (message_queue ?c) @ [if username bob = ''Server'' then ''[Server]: '' @ ''hi'' else ''['' @ username bob @ ''@Lobby]: '' @ ''hi'']))"
    by (rule line_reaches_screen[where ca = ?c and cca = hi_codec,
          OF two_users(1,2,3) bob_chat(6) room two_users(5-9) c(1-4) _ _ _ _ _ _ _ _ two_users(4)])
      (use two_users(10-12) bob_chat(7) typed c ring nonempty in
        \<open>simp_all add: is_print_def data_only_def MAX_OUTGOING_QUEUE_SIZE_def rb_capacity_def rb_new_def hi_codec_def hi_pb_def\<close>)
  then have packet: "server_stream (fold run_task (task_queue (threadpool ?sv)) ?sv) 1 = frame [2]"
    and "\<And>chunks. concat chunks = frame [2] \<Longrightarrow> [] \<notin> set chunks \<Longrightarrow> \<exists>cb. receive_loop hi_codec (map RxReady chunks) ?c = Some cb \<and>
       queue (message_queue cb) = [''[bob@Lobby]: hi'']"
    using two_users(13) c(6) bob_chat(7) by (auto simp: pb_encode_frame hi_pb_def)
  from this(2)[of "[frame [2]]"] nonempty show ?thesis unfolding Let_def packet by simp
qed

end
