(* ===== verification/Spec2Isabelle.thy ===== *)
theory Spec2Isabelle
  imports RateLimit ClientThreads ClientProperties Utils LoadBot CodecV3 PoolThreads ClientV3Props ChatClientV2 LoadBotV3 EndToEnd
begin

text \<open>
  A verification library for the TCP chat servers and clients of this repository. It holds four
  generations of the program, \<open>src/v1\<close> to \<open>src/v4\<close>; the library models all of them, the fourth, on which
  the development of the program has arrived, in most detail. The helpers \<open>ringbuffer.h\<close>,
  \<open>safe_queue.h\<close>, \<open>threadpool.cpp\<close>, \<open>metrics.h\<close>, \<open>object_pool.h\<close> and \<open>utils.h\<close> are the
  same files in \<open>src/v3\<close> and \<open>src/v4\<close>, so what is proved of them holds for both.

  The program of version 4. A reactor thread (\<open>WebServer\<close>) waits in \<open>epoll_wait\<close>, accepts connections,
  reads packets off their sockets and pushes CONNECT, MESSAGE and DISCONNECT events into a
  queue. A logic thread (\<open>ChatApp::LogicLoop\<close>) pops them, keeps names and rooms, and answers:
  to one connection with \<open>SendPreEncoded\<close>, to all with \<open>Broadcast\<close>, which fills a global queue
  that the reactor turns into tasks for a pool of workers. Writes go into a bounded queue per
  connection, drained by \<open>writev\<close> under flow control. The terminal client has three threads:
  keyboard, receiver and printer. In version 3 the workers run the application's hooks themselves and
  the protocol is text or length-prefixed text behind an abstract codec; in version 2 one room of
  lines of text is served by a reactor and workers; version 1 is an echo server.

  The theories, from the bottom.

  \<^item> \<open>Prelude\<close>: bytes, \<open>memcpy\<close>, byte order, general lemmas. \<open>Framing\<close>: the locale of a framing
    (encode, split) and the receiver's loop \<open>feed\<close> over chunks. \<open>ByteBuffer\<close>: the locale of a
    bounded byte queue. \<open>Multicast\<close>: the locale of a packet sink. \<open>Reachability\<close>: reachable
    states, the locale of an inductive invariant and of two of them together.
  \<^item> \<open>RingBuffer\<close> (\<open>ringbuffer.h\<close>), an instance of \<open>ByteBuffer\<close>. \<open>Codec\<close> (\<open>codec.h\<close>): packets
    with a length prefix and protobuf messages in them, an instance of \<open>Framing\<close>. \<open>Queues\<close>
    (\<open>safe_queue.h\<close>, \<open>threadpool.cpp\<close>): the locale of a queue that can be closed, with both as
    instances. \<open>PoolThreads\<close>: the pool's threads with every access to \<open>running_\<close> a step of its own, where a
    shutdown can hang. \<open>Metrics\<close> (\<open>metrics.h\<close>), with the wrap-around of the counters and the report.
  \<^item> \<open>Connection\<close> (\<open>connection.h\<close>, \<open>attempt_write\<close>), \<open>Sending\<close> (\<open>SendPreEncoded\<close>, \<open>handle_write\<close>,
    the flush and the workers' part on one connection), \<open>Reading\<close> (the read loop of
    \<open>handle_read\<close>), \<open>Timers\<close> (the heap of idle timers): what happens to a single connection,
    with the accounting of the bytes and the state of its epoll registration.
  \<^item> \<open>WebServer\<close> (\<open>webserver.cpp\<close>): setup, every handler, \<open>Run\<close> and \<open>Stop\<close>.
    \<open>ServerInvariant\<close>: shards, timers, epoll and counters agree, kept by every handler.
    \<open>Lifecycle\<close>: the order of the events of a connection. \<open>Broadcasting\<close>: a broadcast from
    the queue to the streams. \<open>ServerProperties\<close>: the properties over whole runs.
  \<^item> \<open>ChatApp\<close> (\<open>chatapp.h\<close>): sessions, the rate limit, every handler, the logic loop.
    \<open>Directory\<close>: who is online and who is where, as a specification apart from connections,
    with its invariant. \<open>ChatInvariant\<close>: the handlers implement the changes of the directory.
    \<open>SessionFrame\<close>: reactor and workers leave the sessions alone. \<open>ChatSystem\<close>: all threads as
    one step relation, whose steps are the critical sections of the code. \<open>Delivery\<close>: what the
    handlers put into the streams. \<open>ChatProperties\<close>, \<open>RateLimit\<close>: the properties of the
    application.
  \<^item> \<open>Client\<close> (\<open>client.cpp\<close>): the three loops as functions. \<open>ClientThreads\<close>: the threads, their
    mutex and their joins as a step relation. \<open>ClientProperties\<close>: lines typed and packets
    received. \<open>EndToEnd\<close>: client, reactor, logic thread, workers and another client together, from
    keyboard to screen.
  \<^item> \<open>Utils\<close> (\<open>utils.h\<close>, \<open>object_pool.h\<close>), \<open>LoadBot\<close> (\<open>load_bot.cpp\<close>).
  \<^item> Version 3. \<open>CodecV3\<close> (\<open>v3/codec.h\<close>, whose abstract class is a locale with both protocols as
    instances), \<open>ServerV3\<close> (\<open>v3/webserver.cpp\<close> and \<open>v3/chatapp.h\<close>; what happens on one connection is the
    same code as in version 4 and taken from there), \<open>ChatV3\<close>: reactor and workers as the step relation
    \<open>system3_step\<close>, with the invariants of the names and of who is spoken to, \<open>ChatV3Props\<close>: the properties,
    and a run in which a name is lost. \<open>ClientV3\<close>, \<open>ClientV3Props\<close> (\<open>v3/client.cpp\<close>): the terminal client, its login, its
    lines up to the message hook. \<open>LoadBotV3\<close> (\<open>v3/load_bot.cpp\<close>).
  \<^item> Version 2. \<open>ServerV2\<close> (\<open>v2/webserver.cpp\<close>, the task body of \<open>v2/threadpool.cpp\<close>), \<open>ServerV2Props\<close>: lines, output and
    names, \<open>ServerV2Threads\<close>: reactor and workers as the step relation \<open>room_step\<close>, and the properties. \<open>ClientV2\<close>,
    \<open>ClientV2Props\<close> (\<open>v2/client.cpp\<close>): the client over an edge-triggered epoll, with \<open>errno\<close> in the state.
    \<open>ChatClientV2\<close> (\<open>v2/chat_client.cpp\<close>): the older client with two threads, up to the server.
  \<^item> Version 1. \<open>EchoV1\<close> (\<open>v1\<close>): both programs, and the two together as a step relation over the bytes under way.

  Conventions. Connections live in a store and are named by their position, as the
  \<open>shared_ptr\<close>s of the code; descriptors may be reused. The answers of the kernel
  (\<open>writev\<close>, \<open>readv\<close>, \<open>accept\<close>, \<open>epoll_wait\<close>), the clocks and the rounding of \<open>double\<close> are
  inputs. The generated protobuf code is a pair of functions; where a property needs it, the
  hypothesis is that parsing what was serialised gives it back. Operations under one mutex
  are one step; the interleaving of the threads is that of \<open>sys_step\<close>, \<open>thread_step\<close>, \<open>pool_thread_step\<close>,
  \<open>system3_step\<close> and \<open>room_step\<close>. In \<open>system3_step\<close> the hook of a worker is cut where it lets go of the mutex of the
  application, and closing a connection is one step. The threads of the client of version 3 are those of version 4, with the
  same mutex and the same \<open>stop\<close>, and are not modelled a second time.
  Loops are recursive over their inputs or with a measure, so no fuel is needed, except in
  the decoding loop of \<open>CodecV3\<close>, where one unit per message is enough. The receiving loop
  of the client may not return and is a partial function; that it returns is proved.

  Not modelled: the programs' entry points (\<open>main.cpp\<close>, \<open>main_client.cpp\<close>, \<open>main_epoll_client.cpp\<close>: they parse
  arguments and start the objects), the terminal modes, the formatting of time stamps, \<open>fcntl\<close> and the socket options, the log
  lines of the servers, and \<open>cleanup_handler\<close> of \<open>chat_client.cpp\<close>, which only exits.
\<close>

end
